(* ===== verification/Prelude.thy ===== *)
theory Prelude
  imports Complex_Main "HOL-Library.List_Lexorder" "HOL-Library.Char_ord"
begin

text \<open>
  Shared vocabulary of the development: the collections of simplification facts the
  component theories extend, the JavaScript values and errors every component handles,
  decimal printing as template literals do it, and the generic list facts the queue
  proofs share.
\<close>

named_theorems prog_simps \<open>symbolic execution of programs of awaited commands\<close>
named_theorems row_simps \<open>reading rows back after updates of the tables\<close>
named_theorems key_simps \<open>distinctness of the Redis keys\<close>

section \<open>JavaScript values\<close>

datatype json =
    JNull
  | JBool bool
  | JNum rat
  | JStr string
  | JArr "json list"
  | JObj "(string \<times> json) list"

text \<open>Reading a property of an object: \<^term>\<open>None\<close> is \<open>undefined\<close>.\<close>

fun prop_of :: "json \<Rightarrow> string \<Rightarrow> json option" where
  "prop_of (JObj kvs) k = map_of kvs k"
| "prop_of _ k = None"

text \<open>Truthiness, as \<open>!x\<close> and \<open>if (x)\<close> see it.\<close>

fun truthy :: "json option \<Rightarrow> bool" where
  "truthy None = False"
| "truthy (Some JNull) = False"
| "truthy (Some (JBool b)) = b"
| "truthy (Some (JNum x)) = (x \<noteq> 0)"
| "truthy (Some (JStr s)) = (s \<noteq> '''')"
| "truthy (Some (JArr _)) = True"
| "truthy (Some (JObj _)) = True"

section \<open>Errors\<close>

text \<open>
  What an awaited call or a \<open>throw\<close> of the source can reject with: a lost connection to
  Redis or Postgres, an error the database reports for a statement, a plain \<open>Error\<close>, the
  \<open>INVALID_STATE\<close> errors of \<open>lib/queue.js\<close> and the worker's \<open>TimeoutError\<close>.
\<close>

datatype err =
    ConnLost
  | PgError string
  | JsError string
  | InvalidState string
  | TimeoutError string

fun message_of :: "err \<Rightarrow> string" where
  "message_of ConnLost = ''Connection is closed.''"
| "message_of (PgError m) = m"
| "message_of (JsError m) = m"
| "message_of (InvalidState m) = m"
| "message_of (TimeoutError m) = m"

section \<open>Decimal printing\<close>

fun str_of_nat :: "nat \<Rightarrow> string" where
  "str_of_nat n =
     (if n < 10 then [char_of (48 + n)] else str_of_nat (n div 10) @ [char_of (48 + n mod 10)])"

declare str_of_nat.simps [simp del]

definition str_of_int :: "int \<Rightarrow> string" where
  "str_of_int i = (if i < 0 then CHR ''-'' # str_of_nat (nat (- i)) else str_of_nat (nat i))"

text \<open>An integer that may be \<open>NaN\<close> (the sum of \<open>undefined\<close> and a number) or \<open>undefined\<close>.\<close>

fun str_of_num :: "int option \<Rightarrow> string" where
  "str_of_num None = ''NaN''"
| "str_of_num (Some i) = str_of_int i"

section \<open>Lists\<close>

lemma set_butlast_last: "xs \<noteq> [] \<Longrightarrow> set xs = insert (last xs) (set (butlast xs))"
  by (induction xs rule: rev_induct) auto

lemma count_list_removeAll [simp]: "count_list (removeAll x xs) y = (if x = y then 0 else count_list xs y)"
  by (induction xs) auto

lemma count_list_butlast:
  "xs \<noteq> [] \<Longrightarrow> count_list (butlast xs) y + (if last xs = y then 1 else 0) = count_list xs y"
  by (induction xs rule: rev_induct) auto

lemma filter_map_id:
  "(\<And>x. x \<in> set xs \<Longrightarrow> P (f x) = P x) \<Longrightarrow> filter P (map f xs) = map f (filter P xs)"
  by (induction xs) auto

end
