(* ===== verification/Store.thy ===== *)
theory Store
  imports Prelude
begin

text \<open>
  The data the processes share. Postgres: the tables of \<open>packages/db/schema.sql\<close>.
  Redis: lists, sorted sets, hashes, strings with a time to live, sets and the messages
  published. The clock is the wall clock all of them read. \<open>issued\<close> and \<open>draws\<close> record
  the UUIDs and random numbers already handed out, so that a generator can be asked
  never to repeat itself.
\<close>

section \<open>Rows of the Postgres tables\<close>

datatype job_status = Queued | Delayed | Active | Completed | Failed | Dead

fun status_str :: "job_status \<Rightarrow> string" where
  "status_str Queued = ''queued''"
| "status_str Delayed = ''delayed''"
| "status_str Active = ''active''"
| "status_str Completed = ''completed''"
| "status_str Failed = ''failed''"
| "status_str Dead = ''dead''"

text \<open>\<open>job_priority\<close>: the request and the envelope carry it as a string.\<close>

definition job_priority :: "string list" where
  "job_priority = [''high'', ''normal'', ''low'']"

record job_row =
  job_id :: string
  job_type :: string
  payload :: json
  priority :: string
  status :: job_status
  attempt :: int
  max_retries :: int
  idempotency_key :: "string option"
  scheduled_for :: "int option"
  created_at :: int
  updated_at :: int
  completed_at :: "int option"
  error :: "string option"
  worker_id :: "string option"

record event_row =
  ev_job :: string
  ev_status :: job_status
  ev_message :: "string option"
  ev_created_at :: int

record sched_row =
  sched_id :: string
  sched_type :: string
  cron_expression :: string
  payload_template :: json
  sched_priority :: string
  sched_max_retries :: int
  enabled :: bool
  last_run_at :: "int option"
  sched_created_at :: int
  sched_updated_at :: int

section \<open>Redis values\<close>

text \<open>The job envelope that \<open>JSON.stringify\<close> writes into the \<open>jobs:data\<close> hash.\<close>

record envelope =
  env_id :: string
  env_type :: string
  env_payload :: json
  env_priority :: string
  env_attempt :: int
  env_maxRetries :: int

text \<open>
  A hash field holds text: the JSON of an envelope, or the decimal text of a number.
  \<open>JSON.parse\<close> and \<open>Number\<close> read back what \<open>JSON.stringify\<close> and the client wrote.
\<close>

datatype rval = VEnv envelope | VTime int

text \<open>A rate-limit bucket: a hash with the fields \<open>tokens\<close> and \<open>ts\<close>, and its time to live.\<close>

record bucket =
  tokens :: rat
  ts :: int
  b_expires :: int

text \<open>
  An entry of a sorted set. Redis orders by score and, for equal scores, by the bytes of
  the member.
\<close>

datatype zentry = ZEntry (zscore: int) (zmember: string)

instantiation zentry :: linorder
begin

definition less_eq_zentry :: "zentry \<Rightarrow> zentry \<Rightarrow> bool" where
  "less_eq_zentry a b =
     (zscore a < zscore b \<or> (zscore a = zscore b \<and> zmember a \<le> zmember b))"

definition less_zentry :: "zentry \<Rightarrow> zentry \<Rightarrow> bool" where
  "less_zentry a b = (a \<le> b \<and> \<not> b \<le> (a :: zentry))"

instance
  by standard (auto simp: less_eq_zentry_def less_zentry_def intro: zentry.expand)

end

text \<open>What \<open>publishEvent\<close> and its copies in the other packages put on the channel.\<close>

record event =
  e_jobId :: string
  e_status :: job_status
  e_message :: string
  e_ts :: int

section \<open>The store\<close>

record store =
  jobs :: "job_row list"
  job_events :: "event_row list"
  scheduled_jobs :: "sched_row list"
  lists :: "string \<Rightarrow> string list"
  zsets :: "string \<Rightarrow> zentry list"
  hashes :: "string \<Rightarrow> (string \<rightharpoonup> rval)"
  buckets :: "string \<rightharpoonup> bucket"
  strs :: "string \<rightharpoonup> string \<times> int"
  sets :: "string \<Rightarrow> string list"
  published :: "(string \<times> event) list"
  clock :: int
  issued :: "string list"
  draws :: nat

definition empty_store :: store where
  "empty_store = \<lparr>jobs = [], job_events = [], scheduled_jobs = [], lists = (\<lambda>_. []),
     zsets = (\<lambda>_. []), hashes = (\<lambda>_. Map.empty), buckets = Map.empty,
     strs = Map.empty, sets = (\<lambda>_. []), published = [], clock = 0, issued = [], draws = 0\<rparr>"

text \<open>A string key is live until its expiry time.\<close>

definition str_get :: "store \<Rightarrow> string \<Rightarrow> string option" where
  "str_get s k = (case strs s k of None \<Rightarrow> None | Some (v, t) \<Rightarrow> if clock s < t then Some v else None)"

section \<open>Reading and updating the jobs table\<close>

definition get_row :: "string \<Rightarrow> job_row list \<Rightarrow> job_row option" where
  "get_row i js = find (\<lambda>r. job_id r = i) js"

definition update_rows :: "string \<Rightarrow> (job_row \<Rightarrow> job_row) \<Rightarrow> job_row list \<Rightarrow> job_row list" where
  "update_rows i f js = map (\<lambda>r. if job_id r = i then f r else r) js"

text \<open>The right-hand sides of the \<open>SET\<close> clauses the source uses.\<close>

datatype assign =
    SetStatus job_status
  | SetAttempt "int option"        \<comment> \<open>\<^term>\<open>None\<close> is \<open>NaN\<close>\<close>
  | SetError "string option"
  | SetWorkerId "string option"
  | SetCompletedNow                \<comment> \<open>\<open>completed_at = now()\<close>\<close>
  | SetScheduledIn int             \<comment> \<open>\<open>scheduled_for = now() + (ms || ' milliseconds')::interval\<close>\<close>

fun assign_ok :: "assign \<Rightarrow> bool" where
  "assign_ok (SetAttempt None) = False"
| "assign_ok (SetAttempt (Some n)) = (- (2 ^ 31) \<le> n \<and> n < 2 ^ 31)"
| "assign_ok _ = True"

fun assign_row :: "int \<Rightarrow> assign \<Rightarrow> job_row \<Rightarrow> job_row" where
  "assign_row now (SetStatus st) r = r\<lparr>status := st\<rparr>"
| "assign_row now (SetAttempt n) r = (case n of None \<Rightarrow> r | Some a \<Rightarrow> r\<lparr>attempt := a\<rparr>)"
| "assign_row now (SetError e) r = r\<lparr>error := e\<rparr>"
| "assign_row now (SetWorkerId w) r = r\<lparr>worker_id := w\<rparr>"
| "assign_row now SetCompletedNow r = r\<lparr>completed_at := Some now\<rparr>"
| "assign_row now (SetScheduledIn ms) r = r\<lparr>scheduled_for := Some (now + ms)\<rparr>"

text \<open>The trigger \<open>trg_jobs_updated_at\<close> runs before every row update.\<close>

definition set_updated_at :: "int \<Rightarrow> job_row \<Rightarrow> job_row" where
  "set_updated_at now r = r\<lparr>updated_at := now\<rparr>"

definition assign_all :: "int \<Rightarrow> assign list \<Rightarrow> job_row \<Rightarrow> job_row" where
  "assign_all now asg r = set_updated_at now (fold (assign_row now) asg r)"

lemma assign_all_simps [simp]:
  "assign_all now [] r = r\<lparr>updated_at := now\<rparr>"
  "assign_all now (a # as) r = assign_all now as (assign_row now a r)"
  by (simp_all add: assign_all_def set_updated_at_def)

lemma job_id_assign_row [simp]: "job_id (assign_row now a r) = job_id r"
  by (cases a) (auto split: option.split)

lemma job_id_fold_assign [simp]: "job_id (fold (assign_row now) asg r) = job_id r"
  by (induction asg arbitrary: r) auto

lemma job_id_assign_all [simp]: "job_id (assign_all now asg r) = job_id r"
  by (simp add: assign_all_def set_updated_at_def)

lemma idem_assign_row [simp]: "idempotency_key (assign_row now a r) = idempotency_key r"
  by (cases a) (auto split: option.split)

lemma idem_fold_assign [simp]:
  "idempotency_key (fold (assign_row now) asg r) = idempotency_key r"
  by (induction asg arbitrary: r) auto

lemma idem_assign_all [simp]: "idempotency_key (assign_all now asg r) = idempotency_key r"
  by (simp add: assign_all_def set_updated_at_def)

lemma get_row_Nil [row_simps, simp]: "get_row i [] = None"
  by (simp add: get_row_def)

lemma get_row_Cons [row_simps, simp]:
  "get_row i (r # js) = (if job_id r = i then Some r else get_row i js)"
  by (simp add: get_row_def)

lemma get_row_Some: "get_row i js = Some r \<Longrightarrow> job_id r = i \<and> r \<in> set js"
  by (induction js) (auto split: if_splits)

lemma get_row_None: "get_row i js = None \<longleftrightarrow> i \<notin> job_id ` set js"
  by (induction js) auto

lemma get_row_append [row_simps, simp]:
  "get_row i (js @ ks) = (case get_row i js of None \<Rightarrow> get_row i ks | Some r \<Rightarrow> Some r)"
  by (induction js) auto

lemma update_rows_Nil [simp]: "update_rows i f [] = []"
  by (simp add: update_rows_def)

lemma update_rows_Cons [simp]:
  "update_rows i f (r # js) = (if job_id r = i then f r else r) # update_rows i f js"
  by (simp add: update_rows_def)

lemma get_row_update [row_simps]:
  assumes "\<And>r. job_id (f r) = job_id r"
  shows "get_row i (update_rows j f js) =
    (if i = j then map_option f (get_row i js) else get_row i js)"
  by (induction js) (auto simp: assms)

lemma ids_update_rows [row_simps]:
  assumes "\<And>r. job_id (f r) = job_id r"
  shows "map job_id (update_rows j f js) = map job_id js"
  by (simp add: update_rows_def assms)

lemma get_row_update_assign [row_simps, simp]:
  "get_row i (update_rows j (assign_all now asg) js) =
    (if i = j then map_option (assign_all now asg) (get_row i js) else get_row i js)"
  by (rule get_row_update) simp

lemma ids_update_assign [row_simps, simp]:
  "job_id ` set (update_rows j (assign_all now asg) js) = job_id ` set js"
  by (induction js) auto

lemma map_ids_update_assign [row_simps, simp]:
  "map job_id (update_rows j (assign_all now asg) js) = map job_id js"
  by (rule ids_update_rows) simp

lemma get_row_in_ids: "get_row i js = Some r \<Longrightarrow> i \<in> job_id ` set js"
  using get_row_Some by force

lemma ids_get_row: "i \<in> job_id ` set js \<longleftrightarrow> (\<exists>r. get_row i js = Some r)"
  using get_row_None [of i js] by auto

lemma length_update_rows [simp]: "length (update_rows i f js) = length js"
  by (simp add: update_rows_def)

lemma update_rows_absent: "get_row i js = None \<Longrightarrow> update_rows i f js = js"
  by (induction js) (auto split: if_splits)

section \<open>Sorted sets\<close>

definition zadd :: "int \<Rightarrow> string \<Rightarrow> zentry list \<Rightarrow> zentry list" where
  "zadd sc m zs = insort (ZEntry sc m) (filter (\<lambda>e. zmember e \<noteq> m) zs)"

definition zrem :: "string \<Rightarrow> zentry list \<Rightarrow> zentry list" where
  "zrem m zs = filter (\<lambda>e. zmember e \<noteq> m) zs"

definition zmembers :: "zentry list \<Rightarrow> string set" where
  "zmembers zs = zmember ` set zs"

definition zrange :: "int \<Rightarrow> int \<Rightarrow> nat \<Rightarrow> nat \<Rightarrow> zentry list \<Rightarrow> string list" where
  "zrange lo hi off cnt zs =
     map zmember (take cnt (drop off (filter (\<lambda>e. lo \<le> zscore e \<and> zscore e \<le> hi) zs)))"

lemma zmembers_zadd [simp]: "zmembers (zadd sc m zs) = insert m (zmembers zs)"
  by (force simp: zmembers_def zadd_def set_insort_key)

lemma zmembers_zrem [simp]: "zmembers (zrem m zs) = zmembers zs - {m}"
  by (auto simp: zmembers_def zrem_def)

lemma zmembers_Nil [simp]: "zmembers [] = {}"
  by (simp add: zmembers_def)

lemma sorted_zadd: "sorted zs \<Longrightarrow> sorted (zadd sc m zs)"
  by (simp add: zadd_def sorted_insort sorted_wrt_filter)

text \<open>A sorted set as Redis keeps it: in order, each member once.\<close>

definition zset_wf :: "zentry list \<Rightarrow> bool" where
  "zset_wf zs \<longleftrightarrow> sorted zs \<and> distinct (map zmember zs)"

lemma zset_wf_Nil [simp]: "zset_wf []"
  by (simp add: zset_wf_def)

lemma distinct_insort_map:
  "distinct (map zmember zs) \<Longrightarrow> zmember x \<notin> zmember ` set zs \<Longrightarrow> distinct (map zmember (insort x zs))"
  for x :: zentry
  by (induction zs) (auto simp: set_insort_key)

lemma distinct_map_filter_zmember: "distinct (map zmember zs) \<Longrightarrow> distinct (map zmember (filter P zs))"
  by (induction zs) auto

lemma zset_wf_zadd [simp, intro]: "zset_wf zs \<Longrightarrow> zset_wf (zadd sc m zs)"
  by (auto simp: zset_wf_def zadd_def sorted_insort sorted_wrt_filter
      intro!: distinct_insort_map distinct_map_filter_zmember)

lemma zset_wf_zrem [simp, intro]: "zset_wf zs \<Longrightarrow> zset_wf (zrem m zs)"
  by (auto simp: zset_wf_def zrem_def sorted_wrt_filter intro: distinct_map_filter_zmember)

lemma distinct_zrange: "zset_wf zs \<Longrightarrow> distinct (zrange lo hi off cnt zs)"
  unfolding zrange_def zset_wf_def
  by (metis distinct_drop distinct_map_filter_zmember distinct_take drop_map take_map)

lemma set_zrange: "i \<in> set (zrange lo hi off cnt zs) \<Longrightarrow>
    \<exists>e \<in> set zs. zmember e = i \<and> lo \<le> zscore e \<and> zscore e \<le> hi"
  by (auto simp: zrange_def dest!: in_set_takeD in_set_dropD)

end
