(* ===== verification/Prog.thy ===== *)
theory Prog
  imports Store
begin

text \<open>
  Handlers of the source are sequences of \<open>await\<close>ed calls. A handler is modelled as a
  program: the command it awaits next and, for every reply, the program that goes on. Its
  text fixes the commands and their order and nothing about what Redis or Postgres do with
  them: the service is an argument of \<open>run\<close> and of \<open>reaches\<close>. Running one to its end, and
  the states it can be interrupted in (a crash, a lost connection, other processes acting
  in between), are then two readings of the same text.
\<close>

section \<open>Commands and replies\<close>

datatype side = LEFT | RIGHT

text \<open>Columns that \<open>listJobs\<close> filters on, and the values bound to placeholders.\<close>

datatype column = ColStatus | ColType

datatype pval = PStatus job_status | PStr string | PInt int

datatype reply =
    RNil
  | RInt int
  | RStr string
  | RVal rval
  | RIds "string list"
  | RRat rat
  | RPair int rat
  | RJobs "job_row list"
  | REvents "event_row list"
  | RScheds "sched_row list"
  | RCounts "(job_status \<times> int) list"

text \<open>
  Redis commands keep the names and argument order of the client calls; statements of
  Postgres keep their table, their \<open>SET\<close> and \<open>WHERE\<close> clauses and what they return.
\<close>

datatype redis_cmd =
    GET string
  | SET_EX string string int
  | SET_NX_PX string string int
  | HGET string string
  | HSET string string rval
  | HDEL string string
  | ZADD string int string
  | ZREM string string
  | ZRANGEBYSCORE string int int nat nat
  | ZCARD string
  | LPUSH string string
  | LREM string string
  | LMOVE string string side side
  | BLMOVE string string side side int
  | LRANGE_ALL string
  | LLEN string
  | SADD string string
  | SREM string string
  | SMEMBERS string
  | PUBLISH string event
  | PING
  | EVAL "store \<Rightarrow> reply \<times> store"

datatype pg_stmt =
    INSERT_JOB job_row
  | SELECT_JOB string
  | UPDATE_JOB "assign list" string
  | INSERT_EVENT string job_status "string option"
  | SELECT_EVENTS string
  | SELECT_JOBS "(column \<times> nat) list" nat nat "pval list"
  | COUNT_JOBS "(column \<times> nat) list" "pval list"
  | COUNT_BY_STATUS
  | COUNT_COMPLETED_WITHIN int
  | COUNT_CREATED_WITHIN "job_status list" int
  | SELECT_ENABLED_SCHEDULES
  | SELECT_SCHEDULES
  | INSERT_SCHEDULE sched_row
  | UPDATE_SCHEDULE_ENABLED bool string
  | UPDATE_SCHEDULE_LAST_RUN string int
  | DELETE_SCHEDULE string
  | SELECT_1

datatype cmd =
    Redis redis_cmd
  | Pg pg_stmt
  | Now
  | NewUuid
  | Random
  | Sleep int

type_synonym service = "cmd \<Rightarrow> store \<Rightarrow> (err + reply) \<times> store"

section \<open>Programs\<close>

datatype 'a prog =
    Ret 'a
  | Throw err
  | Await cmd "err + reply \<Rightarrow> 'a prog"

text \<open>\<open>const v = await c; ...\<close>: a rejected promise is thrown.\<close>

definition call :: "cmd \<Rightarrow> (reply \<Rightarrow> 'a prog) \<Rightarrow> 'a prog" where
  "call c k = Await c (\<lambda>r. case r of Inl e \<Rightarrow> Throw e | Inr v \<Rightarrow> k v)"

text \<open>\<open>const x = await f(...); ...\<close>.\<close>

primrec and_then :: "'a prog \<Rightarrow> ('a \<Rightarrow> 'b prog) \<Rightarrow> 'b prog" where
  "and_then (Ret a) f = f a"
| "and_then (Throw e) f = Throw e"
| "and_then (Await c k) f = Await c (\<lambda>r. and_then (k r) f)"

text \<open>\<open>try { p } catch (err) { h(err) }\<close>.\<close>

primrec catch_err :: "'a prog \<Rightarrow> (err \<Rightarrow> 'a prog) \<Rightarrow> 'a prog" where
  "catch_err (Ret a) h = Ret a"
| "catch_err (Throw e) h = h e"
| "catch_err (Await c k) h = Await c (\<lambda>r. catch_err (k r) h)"

text \<open>A synchronous call that may throw.\<close>

definition sync_call :: "err + 'a \<Rightarrow> ('a \<Rightarrow> 'b prog) \<Rightarrow> 'b prog" where
  "sync_call v k = (case v of Inl e \<Rightarrow> Throw e | Inr a \<Rightarrow> k a)"

text \<open>
  Reading a reply at the type its command answers with. No command answers with another
  type, and for a \<open>null\<close> reply the code tests first.
\<close>

fun the_int :: "reply \<Rightarrow> int" where
  "the_int (RInt n) = n"
| "the_int _ = 0"

fun the_str :: "reply \<Rightarrow> string" where
  "the_str (RStr v) = v"
| "the_str _ = []"

fun the_rat :: "reply \<Rightarrow> rat" where
  "the_rat (RRat x) = x"
| "the_rat _ = 0"

fun the_ids :: "reply \<Rightarrow> string list" where
  "the_ids (RIds xs) = xs"
| "the_ids _ = []"

text \<open>\<open>rows[0]\<close>: \<open>undefined\<close> when no row came back.\<close>

fun row0 :: "reply \<Rightarrow> job_row option" where
  "row0 (RJobs (r # _)) = Some r"
| "row0 _ = None"

fun the_rows :: "reply \<Rightarrow> job_row list" where
  "the_rows (RJobs rs) = rs"
| "the_rows _ = []"

fun the_scheds :: "reply \<Rightarrow> sched_row list" where
  "the_scheds (RScheds rs) = rs"
| "the_scheds _ = []"

fun the_events :: "reply \<Rightarrow> event_row list" where
  "the_events (REvents es) = es"
| "the_events _ = []"

lemma row0_map [simp]: "row0 (RJobs (map f rs)) = map_option f (row0 (RJobs rs))"
  by (cases rs) auto

lemma row0_filter_id [simp]: "row0 (RJobs (filter (\<lambda>r. job_id r = i) js)) = get_row i js"
  by (induction js) auto

section \<open>Running a program to its end\<close>

primrec run :: "service \<Rightarrow> 'a prog \<Rightarrow> store \<Rightarrow> (err + 'a) \<times> store" where
  "run svc (Ret a) s = (Inr a, s)"
| "run svc (Throw e) s = (Inl e, s)"
| "run svc (Await c k) s = run svc (k (fst (svc c s))) (snd (svc c s))"

lemma run_call [prog_simps]:
  "run svc (call c k) s =
     (case svc c s of (Inl e, s') \<Rightarrow> (Inl e, s') | (Inr v, s') \<Rightarrow> run svc (k v) s')"
  by (simp add: call_def split: prod.split sum.split)

lemma run_and_then [prog_simps]:
  "run svc (and_then p f) s =
     (case run svc p s of (Inl e, s') \<Rightarrow> (Inl e, s') | (Inr a, s') \<Rightarrow> run svc (f a) s')"
  by (induction p arbitrary: s) (auto split: prod.split sum.split)

lemma run_catch_err [prog_simps]:
  "run svc (catch_err p h) s =
     (case run svc p s of (Inl e, s') \<Rightarrow> run svc (h e) s' | (Inr a, s') \<Rightarrow> (Inr a, s'))"
  by (induction p arbitrary: s) (auto split: prod.split sum.split)

lemma sync_call_simps [simp]:
  "sync_call (Inl e) k = Throw e"
  "sync_call (Inr a) k = k a"
  by (simp_all add: sync_call_def)

lemma and_then_call [simp]: "and_then (call c k) f = call c (\<lambda>v. and_then (k v) f)"
  by (auto simp: call_def fun_eq_iff split: sum.split)

lemma catch_call [simp]:
  "catch_err (call c k) h = Await c (\<lambda>r. case r of Inl e \<Rightarrow> h e | Inr v \<Rightarrow> catch_err (k v) h)"
  by (auto simp: call_def fun_eq_iff split: sum.split)

lemmas prog_run = run_call run_and_then run_catch_err

text \<open>A service whose connection is down for some commands.\<close>

definition losing :: "(cmd \<Rightarrow> bool) \<Rightarrow> service \<Rightarrow> service" where
  "losing P svc c s = (if P c then (Inl ConnLost, s) else svc c s)"

section \<open>Where a program can be interrupted\<close>

text \<open>
  \<open>reaches svc R p s q t\<close>: started in \<open>s\<close>, the process can be about to do \<open>q\<close> while the
  store is \<open>t\<close>. Between two of its commands the rest of the world acts (\<open>R\<close>: time passes,
  other processes run). A connection can be lost before the command took effect or after
  it did, and the process sees the same rejection. A crash is any reached state at which
  the process simply takes no further step.
\<close>

inductive reaches ::
  "service \<Rightarrow> (store \<Rightarrow> store \<Rightarrow> bool) \<Rightarrow> 'a prog \<Rightarrow> store \<Rightarrow> 'a prog \<Rightarrow> store \<Rightarrow> bool"
  for svc R p s where
  start: "reaches svc R p s p s"
| others: "reaches svc R p s q t \<Longrightarrow> R t t' \<Longrightarrow> reaches svc R p s q t'"
| answer: "reaches svc R p s (Await c k) t \<Longrightarrow>
    reaches svc R p s (k (fst (svc c t))) (snd (svc c t))"
| lost_before: "reaches svc R p s (Await c k) t \<Longrightarrow> reaches svc R p s (k (Inl ConnLost)) t"
| lost_after: "reaches svc R p s (Await c k) t \<Longrightarrow>
    reaches svc R p s (k (Inl ConnLost)) (snd (svc c t))"

text \<open>
  The proof principle for such runs: at every point the assertion \<open>I\<close> holds whatever the
  others did meanwhile, each command of the process makes a transition in \<open>G\<close>, and when the
  program returns or throws, \<open>Q\<close> or \<open>X\<close> holds of the result.
\<close>

primrec safe ::
  "service \<Rightarrow> (store \<Rightarrow> store \<Rightarrow> bool) \<Rightarrow> (store \<Rightarrow> store \<Rightarrow> bool) \<Rightarrow> (store \<Rightarrow> bool)
    \<Rightarrow> ('a \<Rightarrow> store \<Rightarrow> bool) \<Rightarrow> (err \<Rightarrow> store \<Rightarrow> bool) \<Rightarrow> 'a prog \<Rightarrow> store \<Rightarrow> bool" where
  "safe svc R G I Q X (Ret a) s = (\<forall>t. R s t \<longrightarrow> I t \<and> Q a t)"
| "safe svc R G I Q X (Throw e) s = (\<forall>t. R s t \<longrightarrow> I t \<and> X e t)"
| "safe svc R G I Q X (Await c k) s = (\<forall>t. R s t \<longrightarrow> I t \<and> G t (snd (svc c t)) \<and>
     safe svc R G I Q X (k (fst (svc c t))) (snd (svc c t)) \<and>
     safe svc R G I Q X (k (Inl ConnLost)) t \<and>
     safe svc R G I Q X (k (Inl ConnLost)) (snd (svc c t)))"

lemma safe_stable:
  assumes "transp R" and "safe svc R G I Q X q s" and "R s t"
  shows "safe svc R G I Q X q t"
  using assms by (cases q) (auto dest: transpD)

lemma safe_holds:
  assumes "reflp R" and "safe svc R G I Q X q s"
  shows "I s"
  using assms by (cases q) (auto dest: reflpD)

lemma reaches_safe:
  assumes "reaches svc R p s q t" and "reflp R" and "transp R" and "safe svc R G I Q X p s"
  shows "safe svc R G I Q X q t"
  using assms(1)
proof (induction rule: reaches.induct)
  case start
  show ?case by (rule assms(4))
next
  case (others q t t')
  then show ?case using safe_stable [OF assms(3)] by blast
qed (use assms(2) in \<open>auto dest: reflpD\<close>)

lemma reaches_invariant:
  assumes "reaches svc R p s q t" and "reflp R" and "transp R" and "safe svc R G I Q X p s"
  shows "I t"
  using reaches_safe [OF assms] safe_holds [OF assms(2)] by blast

lemma reaches_result:
  assumes "reaches svc R p s (Ret a) t" and "reflp R" and "transp R" and "safe svc R G I Q X p s"
  shows "Q a t"
  using reaches_safe [OF assms] reflpD [OF assms(2), of t] by auto

text \<open>Sequencing and exception handling compose the assertions.\<close>

lemma safe_and_then:
  assumes "reflp R" and "safe svc R G I Q' X p s"
    and "\<And>a t. Q' a t \<Longrightarrow> safe svc R G I Q X (f a) t"
  shows "safe svc R G I Q X (and_then p f) s"
  using assms(2)
proof (induction p arbitrary: s)
  case (Ret a)
  then show ?case using assms(1,3) by (auto dest: reflpD)
qed auto

lemma safe_catch:
  assumes "reflp R" and "safe svc R G I Q X' p s"
    and "\<And>e t. X' e t \<Longrightarrow> safe svc R G I Q X (h e) t"
  shows "safe svc R G I Q X (catch_err p h) s"
  using assms(2)
proof (induction p arbitrary: s)
  case (Throw e)
  then show ?case using assms(1,3) by (auto dest: reflpD)
qed auto

lemma safe_weaken:
  assumes "safe svc R G I Q X p s"
    and "\<And>a t. Q a t \<Longrightarrow> Q' a t" and "\<And>e t. X e t \<Longrightarrow> X' e t"
  shows "safe svc R G I Q' X' p s"
  using assms(1) by (induction p arbitrary: s) (use assms(2,3) in auto)

text \<open>
  The rule for an awaited call. \<open>P\<close> is what the process knows before it and the others
  cannot destroy; \<open>I\<close> and the exceptional assertion are stable too.
\<close>

definition stable :: "(store \<Rightarrow> store \<Rightarrow> bool) \<Rightarrow> (store \<Rightarrow> bool) \<Rightarrow> bool" where
  "stable R P \<longleftrightarrow> (\<forall>s t. P s \<longrightarrow> R s t \<longrightarrow> P t)"

lemma stableD: "stable R P \<Longrightarrow> P s \<Longrightarrow> R s t \<Longrightarrow> P t"
  by (simp add: stable_def)

lemma stableI: "(\<And>s t. P s \<Longrightarrow> R s t \<Longrightarrow> P t) \<Longrightarrow> stable R P"
  by (simp add: stable_def)

lemma stable_conj: "stable R P \<Longrightarrow> stable R Q \<Longrightarrow> stable R (\<lambda>s. P s \<and> Q s)"
  unfolding stable_def by blast

lemma safe_call:
  assumes "P s" and "stable R P" and "stable R I" and "\<And>e. stable R (X e)"
    and pre: "\<And>t. P t \<Longrightarrow> I t \<and> X ConnLost t"
    and step: "\<And>t r t'. P t \<Longrightarrow> svc c t = (r, t') \<Longrightarrow> G t t' \<and> I t' \<and> X ConnLost t' \<and>
        (case r of Inl e \<Rightarrow> X e t' | Inr v \<Rightarrow> safe svc R G I Q X (k v) t')"
  shows "safe svc R G I Q X (call c k) s"
  unfolding call_def safe.simps
proof (intro allI impI)
  fix t assume "R s t"
  then have P: "P t" using assms(1,2) by (blast dest: stableD)
  obtain r t' where r: "svc c t = (r, t')" by fastforce
  note st = step [OF P r]
  have throw: "safe svc R G I Q X (Throw e) u" if "I u" and "X e u" for e u
    using that assms(3,4) by (auto dest: stableD)
  show "I t \<and> G t (snd (svc c t)) \<and>
      safe svc R G I Q X (case fst (svc c t) of Inl e \<Rightarrow> Throw e | Inr v \<Rightarrow> k v) (snd (svc c t)) \<and>
      safe svc R G I Q X (case Inl ConnLost of Inl e \<Rightarrow> Throw e | Inr v \<Rightarrow> k v) t \<and>
      safe svc R G I Q X (case Inl ConnLost of Inl e \<Rightarrow> Throw e | Inr v \<Rightarrow> k v) (snd (svc c t))"
  proof (cases r)
    case (Inl e)
    then show ?thesis using r st pre [OF P] throw [of t ConnLost] throw [of t' ConnLost]
        throw [of t' e] by (simp del: safe.simps)
  next
    case (Inr v)
    then show ?thesis using r st pre [OF P] throw [of t ConnLost] throw [of t' ConnLost]
      by (simp del: safe.simps)
  qed
qed

lemma safe_Ret: "P s \<Longrightarrow> stable R P \<Longrightarrow> (\<And>t. P t \<Longrightarrow> I t \<and> Q a t) \<Longrightarrow> safe svc R G I Q X (Ret a) s"
  by (auto dest: stableD)

lemma safe_Throw: "P s \<Longrightarrow> stable R P \<Longrightarrow> (\<And>t. P t \<Longrightarrow> I t \<and> X e t) \<Longrightarrow> safe svc R G I Q X (Throw e) s"
  by (auto dest: stableD)

section \<open>Several processes\<close>

text \<open>
  The whole deployment: one store and any number of processes, each a program in the
  middle of its work. A step is one process executing a command (or losing its connection),
  one process crashing, a new process starting, or the environment acting (time passing).
\<close>

type_synonym system = "store \<times> unit prog list"

inductive sys_step ::
  "service \<Rightarrow> (store \<Rightarrow> store \<Rightarrow> bool) \<Rightarrow> (store \<Rightarrow> unit prog \<Rightarrow> bool) \<Rightarrow> system \<Rightarrow> system \<Rightarrow> bool"
  for svc E spawn where
  act: "ps ! i = Await c k \<Longrightarrow> i < length ps \<Longrightarrow> svc c s = (r, s') \<Longrightarrow>
    sys_step svc E spawn (s, ps) (s', ps[i := k r])"
| act_lost_before: "ps ! i = Await c k \<Longrightarrow> i < length ps \<Longrightarrow>
    sys_step svc E spawn (s, ps) (s, ps[i := k (Inl ConnLost)])"
| act_lost_after: "ps ! i = Await c k \<Longrightarrow> i < length ps \<Longrightarrow> svc c s = (r, s') \<Longrightarrow>
    sys_step svc E spawn (s, ps) (s', ps[i := k (Inl ConnLost)])"
| crash: "i < length ps \<Longrightarrow> sys_step svc E spawn (s, ps) (s, take i ps @ drop (Suc i) ps)"
| spawned: "spawn s p \<Longrightarrow> sys_step svc E spawn (s, ps) (s, ps @ [p])"
| environment: "E s s' \<Longrightarrow> sys_step svc E spawn (s, ps) (s', ps)"

inductive sys_reach ::
  "service \<Rightarrow> (store \<Rightarrow> store \<Rightarrow> bool) \<Rightarrow> (store \<Rightarrow> unit prog \<Rightarrow> bool) \<Rightarrow> store \<Rightarrow> system \<Rightarrow> bool"
  for svc E spawn s0 where
  initial: "sys_reach svc E spawn s0 (s0, [])"
| further: "sys_reach svc E spawn s0 a \<Longrightarrow> sys_step svc E spawn a b \<Longrightarrow> sys_reach svc E spawn s0 b"

text \<open>A process that runs to its end while the others wait is one of the schedules.\<close>

lemma reach_run_last:
  "sys_reach svc E spawn s0 (s, ps @ [p]) \<Longrightarrow> \<exists>qs. sys_reach svc E spawn s0 (snd (run svc p s), qs)"
proof (induction p arbitrary: s)
  case (Await c k)
  have "sys_step svc E spawn (s, ps @ [Await c k]) (snd (svc c s), (ps @ [Await c k])[length ps := k (fst (svc c s))])"
    by (rule sys_step.act) auto
  then have "sys_reach svc E spawn s0 (snd (svc c s), ps @ [k (fst (svc c s))])"
    using sys_reach.further [OF Await.prems] by simp
  then show ?case using Await.IH [of "k (fst (svc c s))"] by simp
qed auto

lemma reach_run:
  assumes "sys_reach svc E spawn s0 (s, ps)" and "spawn s p"
  shows "\<exists>qs. sys_reach svc E spawn s0 (snd (run svc p s), qs)"
  by (rule reach_run_last [OF sys_reach.further [OF assms(1) sys_step.spawned [where spawn = spawn, OF assms(2)]]])

text \<open>
  Rely-guarantee: when every process that can start is safe under the others' transitions
  and makes only such transitions itself, the assertion holds in every reachable state.
\<close>

locale rely_guarantee =
  fixes svc :: service
    and R :: "store \<Rightarrow> store \<Rightarrow> bool"
    and I :: "store \<Rightarrow> bool"
    and E :: "store \<Rightarrow> store \<Rightarrow> bool"
    and spawn :: "store \<Rightarrow> unit prog \<Rightarrow> bool"
  assumes rely_refl: "reflp R"
    and rely_trans: "transp R"
    and env_rely: "I s \<Longrightarrow> E s s' \<Longrightarrow> R s s'"
    and keeps: "I s \<Longrightarrow> R s s' \<Longrightarrow> I s'"
    and spawn_safe: "I s \<Longrightarrow> spawn s p \<Longrightarrow> safe svc R R I (\<lambda>_ _. True) (\<lambda>_ _. True) p s"
begin

definition all_safe :: "system \<Rightarrow> bool" where
  "all_safe a \<longleftrightarrow> I (fst a) \<and> (\<forall>p \<in> set (snd a). safe svc R R I (\<lambda>_ _. True) (\<lambda>_ _. True) p (fst a))"

lemma all_safe_rely:
  assumes "I s" and "R s s'" and "\<forall>p \<in> set ps. safe svc R R I (\<lambda>_ _. True) (\<lambda>_ _. True) p s"
  shows "all_safe (s', ps)"
proof -
  have "safe svc R R I (\<lambda>_ _. True) (\<lambda>_ _. True) p s'" if "p \<in> set ps" for p
    using safe_stable [OF rely_trans _ assms(2)] assms(3) that by blast
  then show ?thesis using keeps [OF assms(1,2)] by (simp add: all_safe_def)
qed

lemma all_safe_update:
  assumes "all_safe (s, ps)" and "R s s'" and "safe svc R R I (\<lambda>_ _. True) (\<lambda>_ _. True) q s'"
  shows "all_safe (s', ps[i := q])"
proof -
  have "all_safe (s', ps)"
    using assms(1,2) all_safe_rely by (auto simp: all_safe_def)
  then show ?thesis
    using assms(3) set_update_subset_insert [of ps i q] by (auto simp: all_safe_def)
qed

lemma await_parts:
  assumes "all_safe (s, ps)" and "ps ! i = Await c k" and "i < length ps"
  shows "R s (snd (svc c s))"
    and "safe svc R R I (\<lambda>_ _. True) (\<lambda>_ _. True) (k (fst (svc c s))) (snd (svc c s))"
    and "safe svc R R I (\<lambda>_ _. True) (\<lambda>_ _. True) (k (Inl ConnLost)) s"
    and "safe svc R R I (\<lambda>_ _. True) (\<lambda>_ _. True) (k (Inl ConnLost)) (snd (svc c s))"
proof -
  have "safe svc R R I (\<lambda>_ _. True) (\<lambda>_ _. True) (Await c k) s"
    using assms nth_mem [of i ps] by (auto simp: all_safe_def)
  then show "R s (snd (svc c s))" and "safe svc R R I (\<lambda>_ _. True) (\<lambda>_ _. True) (k (fst (svc c s))) (snd (svc c s))"
    and "safe svc R R I (\<lambda>_ _. True) (\<lambda>_ _. True) (k (Inl ConnLost)) s"
    and "safe svc R R I (\<lambda>_ _. True) (\<lambda>_ _. True) (k (Inl ConnLost)) (snd (svc c s))"
    using reflpD [OF rely_refl, of s] by auto
qed

lemma all_safe_step: "sys_step svc E spawn a b \<Longrightarrow> all_safe a \<Longrightarrow> all_safe b"
proof (induction rule: sys_step.induct)
  case (act ps i c k s r s')
  then show ?case using await_parts [of s ps i c k] all_safe_update by auto
next
  case (act_lost_before ps i c k s)
  then show ?case
    using await_parts [of s ps i c k] all_safe_update reflpD [OF rely_refl] by auto
next
  case (act_lost_after ps i c k s r s')
  then show ?case using await_parts [of s ps i c k] all_safe_update by auto
next
  case (crash i ps s)
  then show ?case by (auto simp: all_safe_def dest: in_set_takeD in_set_dropD)
next
  case (spawned s p ps)
  then show ?case using spawn_safe by (auto simp: all_safe_def)
next
  case (environment s s' ps)
  then show ?case using env_rely all_safe_rely by (auto simp: all_safe_def)
qed

lemma step_rely: "sys_step svc E spawn a b \<Longrightarrow> all_safe a \<Longrightarrow> R (fst a) (fst b)"
proof (induction rule: sys_step.induct)
  case (act ps i c k s r s')
  then show ?case using await_parts(1) [of s ps i c k] by auto
next
  case (act_lost_after ps i c k s r s')
  then show ?case using await_parts(1) [of s ps i c k] by auto
next
  case (environment s s' ps)
  then show ?case using env_rely by (auto simp: all_safe_def)
qed (auto intro: reflpD [OF rely_refl])

text \<open>Any later state is related to an earlier one.\<close>

lemma history:
  assumes "(sys_step svc E spawn)\<^sup>*\<^sup>* a b" and "all_safe a"
  shows "R (fst a) (fst b) \<and> all_safe b"
  using assms(1)
proof induction
  case base
  show ?case using assms(2) reflpD [OF rely_refl] by blast
next
  case (step b c)
  then show ?case using step_rely all_safe_step transpD [OF rely_trans] by blast
qed

lemma safe_reach: "sys_reach svc E spawn s0 a \<Longrightarrow> I s0 \<Longrightarrow> all_safe a"
  by (induction rule: sys_reach.induct) (auto simp: all_safe_def dest: all_safe_step)

lemma invariant_reach:
  assumes "sys_reach svc E spawn s0 a" and "I s0"
  shows "I (fst a)"
  using safe_reach [OF assms] by (simp add: all_safe_def)

end

end
