(* ===== verification/Services.thy ===== *)
theory Services
  imports Prog "HOL-Library.Multiset"
begin

text \<open>
  Redis, Postgres and the JavaScript runtime are not part of the repository: they are the
  argument \<open>svc\<close> of \<open>run\<close>. The locales below name what the code relies on, one documented
  law per command it issues. \<open>mem_svc\<close> is an in-memory service that satisfies all of them,
  as the fake client of \<open>tests/claim.test.js\<close> does for the commands \<open>claim.js\<close> uses; the
  interpretation at the end discharges every law for it, and the witnesses run on it.
\<close>

text \<open>
  Choices that are neither the program's nor the documentation's: the number of
  subscribers of a channel, the order in which a set's members or rows that tie come back,
  the identifiers and random numbers drawn, how much longer than asked a timer takes.
\<close>

record outside =
  subscribers :: "store \<Rightarrow> int"
  set_order :: "string list \<Rightarrow> string list"
  jobs_desc :: "job_row list \<Rightarrow> job_row list"
  events_asc :: "event_row list \<Rightarrow> event_row list"
  scheds_desc :: "sched_row list \<Rightarrow> sched_row list"
  scheds_any :: "sched_row list \<Rightarrow> sched_row list"
  status_order :: "job_status list"
  gen_uuid :: "store \<Rightarrow> string"
  gen_random :: "store \<Rightarrow> rat"
  oversleep :: "store \<Rightarrow> int"

section \<open>Redis\<close>

text \<open>Index 0 of a list is its left end. \<open>LMOVE\<close> takes from one end and adds to another.\<close>

fun pop_side :: "side \<Rightarrow> string list \<Rightarrow> (string \<times> string list) option" where
  "pop_side _ [] = None"
| "pop_side RIGHT xs = Some (last xs, butlast xs)"
| "pop_side LEFT (x # xs) = Some (x, xs)"

fun push_side :: "side \<Rightarrow> string \<Rightarrow> string list \<Rightarrow> string list" where
  "push_side LEFT x xs = x # xs"
| "push_side RIGHT x xs = xs @ [x]"

definition move :: "string \<Rightarrow> string \<Rightarrow> side \<Rightarrow> side \<Rightarrow> store \<Rightarrow> reply \<times> store" where
  "move src dst from_side to_side s =
     (case pop_side from_side (lists s src) of
        None \<Rightarrow> (RNil, s)
      | Some (x, rest) \<Rightarrow>
          (let ls = (lists s)(src := rest) in
           (RStr x, s\<lparr>lists := ls(dst := push_side to_side x (ls dst))\<rparr>)))"

locale redis_service =
  fixes svc :: service and out :: outside
  assumes get: "svc (Redis (GET k)) s =
      (Inr (case str_get s k of None \<Rightarrow> RNil | Some v \<Rightarrow> RStr v), s)"
    and set_ex: "svc (Redis (SET_EX k v sec)) s =
      (Inr (RStr ''OK''), s\<lparr>strs := (strs s)(k \<mapsto> (v, clock s + sec * 1000))\<rparr>)"
    and set_nx_px: "svc (Redis (SET_NX_PX k v ms)) s =
      (if str_get s k = None
       then (Inr (RStr ''OK''), s\<lparr>strs := (strs s)(k \<mapsto> (v, clock s + ms))\<rparr>)
       else (Inr RNil, s))"
    and hget: "svc (Redis (HGET h f)) s =
      (Inr (case hashes s h f of None \<Rightarrow> RNil | Some v \<Rightarrow> RVal v), s)"
    and hset: "svc (Redis (HSET h f x)) s =
      (Inr (RInt (if hashes s h f = None then 1 else 0)),
       s\<lparr>hashes := (hashes s)(h := (hashes s h)(f \<mapsto> x))\<rparr>)"
    and hdel: "svc (Redis (HDEL h f)) s =
      (Inr (RInt (if hashes s h f = None then 0 else 1)),
       s\<lparr>hashes := (hashes s)(h := (hashes s h)(f := None))\<rparr>)"
    and zadd: "svc (Redis (ZADD k sc m)) s =
      (Inr (RInt (if m \<in> zmembers (zsets s k) then 0 else 1)),
       s\<lparr>zsets := (zsets s)(k := zadd sc m (zsets s k))\<rparr>)"
    and zrem: "svc (Redis (ZREM k m)) s =
      (Inr (RInt (if m \<in> zmembers (zsets s k) then 1 else 0)),
       s\<lparr>zsets := (zsets s)(k := zrem m (zsets s k))\<rparr>)"
    and zrangebyscore: "svc (Redis (ZRANGEBYSCORE k lo hi off cnt)) s =
      (Inr (RIds (zrange lo hi off cnt (zsets s k))), s)"
    and zcard: "svc (Redis (ZCARD k)) s = (Inr (RInt (int (length (zsets s k)))), s)"
    and lpush: "svc (Redis (LPUSH k v)) s =
      (Inr (RInt (int (length (lists s k)) + 1)),
       s\<lparr>lists := (lists s)(k := v # lists s k)\<rparr>)"
    and lrem: "svc (Redis (LREM k v)) s =
      (Inr (RInt (int (count_list (lists s k) v))),
       s\<lparr>lists := (lists s)(k := removeAll v (lists s k))\<rparr>)"
    and lmove: "svc (Redis (LMOVE k d a b)) s = (Inr (fst (move k d a b s)), snd (move k d a b s))"
    and blmove: "svc (Redis (BLMOVE k d a b sec)) s =
      (Inr (fst (move k d a b s)), snd (move k d a b s))"
    and lrange_all: "svc (Redis (LRANGE_ALL k)) s = (Inr (RIds (lists s k)), s)"
    and llen: "svc (Redis (LLEN k)) s = (Inr (RInt (int (length (lists s k)))), s)"
    and sadd: "svc (Redis (SADD k v)) s =
      (Inr (RInt (if v \<in> set (sets s k) then 0 else 1)),
       s\<lparr>sets := (sets s)(k := List.insert v (sets s k))\<rparr>)"
    and srem: "svc (Redis (SREM k v)) s =
      (Inr (RInt (if v \<in> set (sets s k) then 1 else 0)),
       s\<lparr>sets := (sets s)(k := removeAll v (sets s k))\<rparr>)"
    and smembers: "svc (Redis (SMEMBERS k)) s = (Inr (RIds (set_order out (sets s k))), s)"
    and set_order: "mset (set_order out xs) = mset xs"
    and publish: "svc (Redis (PUBLISH ch e)) s =
      (Inr (RInt (subscribers out s)), s\<lparr>published := published s @ [(ch, e)]\<rparr>)"
    and ping: "svc (Redis PING) s = (Inr (RStr ''PONG''), s)"
    and eval: "svc (Redis (EVAL script)) s = (Inr (fst (script s)), snd (script s))"
begin

lemmas redis_laws [prog_simps] =
  get set_ex set_nx_px hget hset hdel zadd zrem zrangebyscore zcard lpush lrem lmove blmove
  lrange_all llen sadd srem smembers publish ping eval

lemma set_set_order [simp]: "set (set_order out xs) = set xs"
  using set_order [of xs] by (metis set_mset_mset)

lemma distinct_set_order [simp]: "distinct (set_order out xs) = distinct xs"
  using set_order [of xs] by (metis mset_eq_imp_distinct_iff)

end

section \<open>Postgres\<close>

text \<open>
  The \<open>id\<close> columns have the type \<open>UUID\<close>: the laws speak of identifiers in that form, as all
  that the program draws are; Postgres raises an error for other text.
  Placeholders \<open>$1, $2, ...\<close> are bound to the parameters by position. A statement is
  refused when the number of parameters is not the number of its placeholders.
\<close>

definition placeholders_ok :: "nat list \<Rightarrow> pval list \<Rightarrow> bool" where
  "placeholders_ok ns ps \<longleftrightarrow> set ns = set [1..<Suc (length ps)]"

definition param :: "pval list \<Rightarrow> nat \<Rightarrow> pval option" where
  "param ps n = (if 1 \<le> n \<and> n \<le> length ps then Some (ps ! (n - 1)) else None)"

fun cond_holds :: "pval list \<Rightarrow> job_row \<Rightarrow> column \<times> nat \<Rightarrow> bool" where
  "cond_holds ps r (ColStatus, n) = (param ps n = Some (PStatus (status r)))"
| "cond_holds ps r (ColType, n) = (param ps n = Some (PStr (job_type r)))"

definition where_rows :: "(column \<times> nat) list \<Rightarrow> pval list \<Rightarrow> job_row list \<Rightarrow> job_row list" where
  "where_rows cs ps js = filter (\<lambda>r. list_all (cond_holds ps r) cs) js"

fun int_param :: "pval list \<Rightarrow> nat \<Rightarrow> int option" where
  "int_param ps n = (case param ps n of Some (PInt i) \<Rightarrow> Some i | _ \<Rightarrow> None)"

text \<open>
  What makes the \<open>INSERT\<close> fail: a value outside the enumeration, an \<open>Invalid Date\<close>
  (a JavaScript time value past 8.64e15), an integer that does not fit \<open>INT\<close>, the primary
  key, and the partial unique index on \<open>idempotency_key\<close>.
\<close>

definition max_time :: int where
  "max_time = 8640000000000000"

definition insert_job_error :: "job_row list \<Rightarrow> job_row \<Rightarrow> string option" where
  "insert_job_error js r =
     (if priority r \<notin> set job_priority then Some ''invalid input value for enum job_priority''
      else if max_retries r < - (2 ^ 31) \<or> 2 ^ 31 \<le> max_retries r
        then Some ''value out of range for type integer''
      else if (case scheduled_for r of None \<Rightarrow> False | Some t \<Rightarrow> max_time < t)
        then Some ''invalid input syntax for type timestamp with time zone''
      else if job_id r \<in> set (map job_id js)
        then Some ''duplicate key value violates unique constraint (jobs_pkey)''
      else if idempotency_key r \<noteq> None \<and> idempotency_key r \<in> set (map idempotency_key js)
        then Some ''duplicate key value violates unique constraint (idx_jobs_idempotency_key)''
      else None)"

definition recent :: "int \<Rightarrow> int \<Rightarrow> int option \<Rightarrow> bool" where
  "recent now ms t = (case t of None \<Rightarrow> False | Some x \<Rightarrow> now - ms < x)"

definition update_scheds ::
  "string \<Rightarrow> int \<Rightarrow> (sched_row \<Rightarrow> sched_row) \<Rightarrow> sched_row list \<Rightarrow> sched_row list" where
  "update_scheds i now f ss =
     map (\<lambda>r. if sched_id r = i then (f r)\<lparr>sched_updated_at := now\<rparr> else r) ss"

definition count_status :: "job_row list \<Rightarrow> job_status \<Rightarrow> int" where
  "count_status js st = int (length (filter (\<lambda>r. status r = st) js))"

locale postgres_service =
  fixes svc :: service and out :: outside
  assumes insert_job: "svc (Pg (INSERT_JOB r)) s =
      (case insert_job_error (jobs s) r of
         Some m \<Rightarrow> (Inl (PgError m), s)
       | None \<Rightarrow> (Inr (RJobs [r]), s\<lparr>jobs := jobs s @ [r]\<rparr>))"
    and select_job: "svc (Pg (SELECT_JOB i)) s =
      (Inr (RJobs (filter (\<lambda>r. job_id r = i) (jobs s))), s)"
    and update_job: "svc (Pg (UPDATE_JOB asg i)) s =
      (if list_all assign_ok asg
       then (Inr (RJobs (map (assign_all (clock s) asg) (filter (\<lambda>r. job_id r = i) (jobs s)))),
             s\<lparr>jobs := update_rows i (assign_all (clock s) asg) (jobs s)\<rparr>)
       else (Inl (PgError ''invalid input syntax for type integer''), s))"
    and insert_event: "svc (Pg (INSERT_EVENT i st msg)) s =
      (if i \<in> set (map job_id (jobs s))
       then (Inr RNil, s\<lparr>job_events := job_events s @
              [\<lparr>ev_job = i, ev_status = st, ev_message = msg, ev_created_at = clock s\<rparr>]\<rparr>)
       else (Inl (PgError ''violates foreign key constraint (job_events_job_id_fkey)''), s))"
    and select_events: "svc (Pg (SELECT_EVENTS i)) s =
      (Inr (REvents (events_asc out (filter (\<lambda>e. ev_job e = i) (job_events s)))), s)"
    and events_asc: "mset (events_asc out es) = mset es"
      "sorted (map ev_created_at (events_asc out es))"
    and select_jobs: "svc (Pg (SELECT_JOBS cs l off ps)) s =
      (case (int_param ps l, int_param ps off) of
         (Some lm, Some sk) \<Rightarrow>
           if placeholders_ok (map snd cs @ [l, off]) ps \<and> 0 \<le> lm \<and> 0 \<le> sk
           then (Inr (RJobs (take (nat lm) (drop (nat sk)
                  (jobs_desc out (where_rows cs ps (jobs s)))))), s)
           else (Inl (PgError ''bind message supplies wrong parameters''), s)
       | _ \<Rightarrow> (Inl (PgError ''bind message supplies wrong parameters''), s))"
    and jobs_desc: "mset (jobs_desc out js) = mset js"
      "sorted_wrt (\<ge>) (map created_at (jobs_desc out js))"
    and count_jobs: "svc (Pg (COUNT_JOBS cs ps)) s =
      (if placeholders_ok (map snd cs) ps
       then (Inr (RInt (int (length (where_rows cs ps (jobs s))))), s)
       else (Inl (PgError ''bind message supplies wrong parameters''), s))"
    and count_by_status: "svc (Pg COUNT_BY_STATUS) s =
      (Inr (RCounts (map (\<lambda>st. (st, count_status (jobs s) st))
              (filter (\<lambda>st. st \<in> set (map status (jobs s))) (status_order out)))), s)"
    and status_order: "distinct (status_order out)"
      "set (status_order out) = {Queued, Delayed, Active, Completed, Failed, Dead}"
    and count_completed_within: "svc (Pg (COUNT_COMPLETED_WITHIN ms)) s =
      (Inr (RInt (int (length (filter
         (\<lambda>r. status r = Completed \<and> recent (clock s) ms (completed_at r)) (jobs s))))), s)"
    and count_created_within: "svc (Pg (COUNT_CREATED_WITHIN sts ms)) s =
      (let js = filter (\<lambda>r. clock s - ms < created_at r) (jobs s) in
       (Inr (RPair (int (length (filter (\<lambda>r. status r \<in> set sts) js)))
                   (of_nat (length js))), s))"
    and select_enabled: "svc (Pg SELECT_ENABLED_SCHEDULES) s =
      (Inr (RScheds (scheds_any out (filter enabled (scheduled_jobs s)))), s)"
    and scheds_any: "mset (scheds_any out ss) = mset ss"
    and select_schedules: "svc (Pg SELECT_SCHEDULES) s =
      (Inr (RScheds (scheds_desc out (scheduled_jobs s))), s)"
    and scheds_desc: "mset (scheds_desc out ss) = mset ss"
      "sorted_wrt (\<ge>) (map sched_created_at (scheds_desc out ss))"
    and insert_schedule: "svc (Pg (INSERT_SCHEDULE sr)) s =
      (if sched_priority sr \<in> set job_priority
       then (let r' = sr\<lparr>sched_id := gen_uuid out s, sched_created_at := clock s,
                        sched_updated_at := clock s, last_run_at := None\<rparr> in
             (Inr (RScheds [r']), s\<lparr>scheduled_jobs := scheduled_jobs s @ [r'],
                                    issued := gen_uuid out s # issued s\<rparr>))
       else (Inl (PgError ''invalid input value for enum job_priority''), s))"
    and update_schedule_enabled: "svc (Pg (UPDATE_SCHEDULE_ENABLED b i)) s =
      (let ss = update_scheds i (clock s) (enabled_update (\<lambda>_. b)) (scheduled_jobs s) in
       (Inr (RScheds (filter (\<lambda>r. sched_id r = i) ss)), s\<lparr>scheduled_jobs := ss\<rparr>))"
    and update_schedule_last_run: "svc (Pg (UPDATE_SCHEDULE_LAST_RUN i t)) s =
      (let ss = update_scheds i (clock s) (last_run_at_update (\<lambda>_. Some t)) (scheduled_jobs s) in
       (Inr (RScheds (filter (\<lambda>r. sched_id r = i) ss)), s\<lparr>scheduled_jobs := ss\<rparr>))"
    and delete_schedule: "svc (Pg (DELETE_SCHEDULE i)) s =
      (Inr (RInt (int (length (filter (\<lambda>r. sched_id r = i) (scheduled_jobs s))))),
       s\<lparr>scheduled_jobs := filter (\<lambda>r. sched_id r \<noteq> i) (scheduled_jobs s)\<rparr>)"
    and select_1: "svc (Pg SELECT_1) s = (Inr (RInt 1), s)"
begin

lemmas postgres_laws [prog_simps] =
  insert_job select_job update_job insert_event select_events select_jobs count_jobs
  count_by_status count_completed_within count_created_within select_enabled select_schedules
  insert_schedule update_schedule_enabled update_schedule_last_run delete_schedule select_1

end

section \<open>The JavaScript runtime\<close>

text \<open>
  \<open>Date.now()\<close>, \<open>uuidv4()\<close> or \<open>randomUUID()\<close>, \<open>Math.random()\<close> and timers. A UUID is one
  that was not handed out before; a timer fires no earlier than asked.
\<close>

locale runtime_service =
  fixes svc :: service and out :: outside
  assumes now: "svc Now s = (Inr (RInt (clock s)), s)"
    and new_uuid: "svc NewUuid s =
      (Inr (RStr (gen_uuid out s)), s\<lparr>issued := gen_uuid out s # issued s\<rparr>)"
    and uuid_fresh: "gen_uuid out s \<notin> set (issued s)"
    and uuid_nonempty: "gen_uuid out s \<noteq> ''''"
    and random: "svc Random s = (Inr (RRat (gen_random out s)), s\<lparr>draws := Suc (draws s)\<rparr>)"
    and random_range: "0 \<le> gen_random out s" "gen_random out s < 1"
    and sleep: "svc (Sleep ms) s =
      (Inr RNil, s\<lparr>clock := clock s + max 0 ms + oversleep out s\<rparr>)"
    and oversleep_nonneg: "0 \<le> oversleep out s"
begin

lemmas runtime_laws [prog_simps] = now new_uuid random sleep

end

locale services = redis_service svc out + postgres_service svc out + runtime_service svc out
  for svc :: service and out :: outside
begin

lemmas laws = redis_laws postgres_laws runtime_laws

end

section \<open>An in-memory service\<close>

fun mem_redis :: "redis_cmd \<Rightarrow> store \<Rightarrow> reply \<times> store" where
  "mem_redis (GET k) s = (case str_get s k of None \<Rightarrow> RNil | Some v \<Rightarrow> RStr v, s)"
| "mem_redis (SET_EX k v sec) s =
     (RStr ''OK'', s\<lparr>strs := (strs s)(k \<mapsto> (v, clock s + sec * 1000))\<rparr>)"
| "mem_redis (SET_NX_PX k v ms) s =
     (if str_get s k = None
      then (RStr ''OK'', s\<lparr>strs := (strs s)(k \<mapsto> (v, clock s + ms))\<rparr>) else (RNil, s))"
| "mem_redis (HGET h f) s = (case hashes s h f of None \<Rightarrow> RNil | Some v \<Rightarrow> RVal v, s)"
| "mem_redis (HSET h f v) s =
     (RInt (if hashes s h f = None then 1 else 0),
      s\<lparr>hashes := (hashes s)(h := (hashes s h)(f \<mapsto> v))\<rparr>)"
| "mem_redis (HDEL h f) s =
     (RInt (if hashes s h f = None then 0 else 1),
      s\<lparr>hashes := (hashes s)(h := (hashes s h)(f := None))\<rparr>)"
| "mem_redis (ZADD k sc m) s =
     (RInt (if m \<in> zmembers (zsets s k) then 0 else 1),
      s\<lparr>zsets := (zsets s)(k := zadd sc m (zsets s k))\<rparr>)"
| "mem_redis (ZREM k m) s =
     (RInt (if m \<in> zmembers (zsets s k) then 1 else 0),
      s\<lparr>zsets := (zsets s)(k := zrem m (zsets s k))\<rparr>)"
| "mem_redis (ZRANGEBYSCORE k lo hi off cnt) s = (RIds (zrange lo hi off cnt (zsets s k)), s)"
| "mem_redis (ZCARD k) s = (RInt (int (length (zsets s k))), s)"
| "mem_redis (LPUSH k v) s =
     (RInt (int (length (lists s k)) + 1), s\<lparr>lists := (lists s)(k := v # lists s k)\<rparr>)"
| "mem_redis (LREM k v) s =
     (RInt (int (count_list (lists s k) v)),
      s\<lparr>lists := (lists s)(k := removeAll v (lists s k))\<rparr>)"
| "mem_redis (LMOVE k d a b) s = move k d a b s"
| "mem_redis (BLMOVE k d a b sec) s = move k d a b s"
| "mem_redis (LRANGE_ALL k) s = (RIds (lists s k), s)"
| "mem_redis (LLEN k) s = (RInt (int (length (lists s k))), s)"
| "mem_redis (SADD k v) s =
     (RInt (if v \<in> set (sets s k) then 0 else 1),
      s\<lparr>sets := (sets s)(k := List.insert v (sets s k))\<rparr>)"
| "mem_redis (SREM k v) s =
     (RInt (if v \<in> set (sets s k) then 1 else 0),
      s\<lparr>sets := (sets s)(k := removeAll v (sets s k))\<rparr>)"
| "mem_redis (SMEMBERS k) s = (RIds (sets s k), s)"
| "mem_redis (PUBLISH ch e) s = (RInt 0, s\<lparr>published := published s @ [(ch, e)]\<rparr>)"
| "mem_redis PING s = (RStr ''PONG'', s)"
| "mem_redis (EVAL script) s = script s"

definition mem_uuid :: "store \<Rightarrow> string" where
  "mem_uuid s = replicate (Suc (sum_list (map length (issued s)))) (CHR ''u'')"

definition mem_outside :: outside where
  "mem_outside = \<lparr>subscribers = (\<lambda>_. 0), set_order = (\<lambda>xs. xs),
     jobs_desc = sort_key (\<lambda>r. - created_at r), events_asc = sort_key ev_created_at,
     scheds_desc = sort_key (\<lambda>r. - sched_created_at r), scheds_any = (\<lambda>xs. xs),
     status_order = [Queued, Delayed, Active, Completed, Failed, Dead],
     gen_uuid = mem_uuid, gen_random = (\<lambda>_. 1 / 2), oversleep = (\<lambda>_. 0)\<rparr>"

fun mem_pg :: "pg_stmt \<Rightarrow> store \<Rightarrow> (err + reply) \<times> store" where
  "mem_pg (INSERT_JOB r) s =
     (case insert_job_error (jobs s) r of
        Some m \<Rightarrow> (Inl (PgError m), s)
      | None \<Rightarrow> (Inr (RJobs [r]), s\<lparr>jobs := jobs s @ [r]\<rparr>))"
| "mem_pg (SELECT_JOB i) s = (Inr (RJobs (filter (\<lambda>r. job_id r = i) (jobs s))), s)"
| "mem_pg (UPDATE_JOB asg i) s =
     (if list_all assign_ok asg
      then (Inr (RJobs (map (assign_all (clock s) asg) (filter (\<lambda>r. job_id r = i) (jobs s)))),
            s\<lparr>jobs := update_rows i (assign_all (clock s) asg) (jobs s)\<rparr>)
      else (Inl (PgError ''invalid input syntax for type integer''), s))"
| "mem_pg (INSERT_EVENT i st m) s =
     (if i \<in> set (map job_id (jobs s))
      then (Inr RNil, s\<lparr>job_events := job_events s @
             [\<lparr>ev_job = i, ev_status = st, ev_message = m, ev_created_at = clock s\<rparr>]\<rparr>)
      else (Inl (PgError ''violates foreign key constraint (job_events_job_id_fkey)''), s))"
| "mem_pg (SELECT_EVENTS i) s =
     (Inr (REvents (sort_key ev_created_at (filter (\<lambda>e. ev_job e = i) (job_events s)))), s)"
| "mem_pg (SELECT_JOBS cs l off ps) s =
     (case (int_param ps l, int_param ps off) of
        (Some lm, Some sk) \<Rightarrow>
          if placeholders_ok (map snd cs @ [l, off]) ps \<and> 0 \<le> lm \<and> 0 \<le> sk
          then (Inr (RJobs (take (nat lm) (drop (nat sk)
                 (sort_key (\<lambda>r. - created_at r) (where_rows cs ps (jobs s)))))), s)
          else (Inl (PgError ''bind message supplies wrong parameters''), s)
      | _ \<Rightarrow> (Inl (PgError ''bind message supplies wrong parameters''), s))"
| "mem_pg (COUNT_JOBS cs ps) s =
     (if placeholders_ok (map snd cs) ps
      then (Inr (RInt (int (length (where_rows cs ps (jobs s))))), s)
      else (Inl (PgError ''bind message supplies wrong parameters''), s))"
| "mem_pg COUNT_BY_STATUS s =
     (Inr (RCounts (map (\<lambda>st. (st, count_status (jobs s) st))
             (filter (\<lambda>st. st \<in> set (map status (jobs s))) (status_order mem_outside)))), s)"
| "mem_pg (COUNT_COMPLETED_WITHIN ms) s =
     (Inr (RInt (int (length (filter
        (\<lambda>r. status r = Completed \<and> recent (clock s) ms (completed_at r)) (jobs s))))), s)"
| "mem_pg (COUNT_CREATED_WITHIN sts ms) s =
     (let js = filter (\<lambda>r. clock s - ms < created_at r) (jobs s) in
      (Inr (RPair (int (length (filter (\<lambda>r. status r \<in> set sts) js)))
                  (of_nat (length js))), s))"
| "mem_pg SELECT_ENABLED_SCHEDULES s = (Inr (RScheds (filter enabled (scheduled_jobs s))), s)"
| "mem_pg SELECT_SCHEDULES s =
     (Inr (RScheds (sort_key (\<lambda>r. - sched_created_at r) (scheduled_jobs s))), s)"
| "mem_pg (INSERT_SCHEDULE r) s =
     (if sched_priority r \<in> set job_priority
      then (let r' = r\<lparr>sched_id := mem_uuid s, sched_created_at := clock s,
                       sched_updated_at := clock s, last_run_at := None\<rparr> in
            (Inr (RScheds [r']), s\<lparr>scheduled_jobs := scheduled_jobs s @ [r'],
                                   issued := mem_uuid s # issued s\<rparr>))
      else (Inl (PgError ''invalid input value for enum job_priority''), s))"
| "mem_pg (UPDATE_SCHEDULE_ENABLED b i) s =
     (let ss = update_scheds i (clock s) (enabled_update (\<lambda>_. b)) (scheduled_jobs s) in
      (Inr (RScheds (filter (\<lambda>r. sched_id r = i) ss)), s\<lparr>scheduled_jobs := ss\<rparr>))"
| "mem_pg (UPDATE_SCHEDULE_LAST_RUN i t) s =
     (let ss = update_scheds i (clock s) (last_run_at_update (\<lambda>_. Some t)) (scheduled_jobs s) in
      (Inr (RScheds (filter (\<lambda>r. sched_id r = i) ss)), s\<lparr>scheduled_jobs := ss\<rparr>))"
| "mem_pg (DELETE_SCHEDULE i) s =
     (Inr (RInt (int (length (filter (\<lambda>r. sched_id r = i) (scheduled_jobs s))))),
      s\<lparr>scheduled_jobs := filter (\<lambda>r. sched_id r \<noteq> i) (scheduled_jobs s)\<rparr>)"
| "mem_pg SELECT_1 s = (Inr (RInt 1), s)"

fun mem_svc :: service where
  "mem_svc (Redis c) s = (Inr (fst (mem_redis c s)), snd (mem_redis c s))"
| "mem_svc (Pg q) s = mem_pg q s"
| "mem_svc Now s = (Inr (RInt (clock s)), s)"
| "mem_svc NewUuid s = (Inr (RStr (mem_uuid s)), s\<lparr>issued := mem_uuid s # issued s\<rparr>)"
| "mem_svc Random s = (Inr (RRat (1 / 2)), s\<lparr>draws := Suc (draws s)\<rparr>)"
| "mem_svc (Sleep ms) s = (Inr RNil, s\<lparr>clock := clock s + max 0 ms\<rparr>)"

lemma mem_uuid_fresh: "mem_uuid s \<notin> set (issued s)"
proof
  assume "mem_uuid s \<in> set (issued s)"
  then have "length (mem_uuid s) \<le> sum_list (map length (issued s))"
    by (induction "issued s") (auto intro: member_le_sum_list)
  then show False by (simp add: mem_uuid_def)
qed

lemma sorted_wrt_neg: "sorted (map (\<lambda>r. - f r) xs) \<Longrightarrow> sorted_wrt (\<ge>) (map f xs)"
  for f :: "'a \<Rightarrow> int"
  by (simp add: sorted_wrt_map)

interpretation mem: redis_service mem_svc mem_outside
  by unfold_locales (auto simp: mem_outside_def)

interpretation mem: postgres_service mem_svc mem_outside
  by unfold_locales (auto simp: mem_outside_def Let_def intro: sorted_wrt_neg split: option.splits)

interpretation mem: runtime_service mem_svc mem_outside
  by unfold_locales (auto simp: mem_outside_def mem_uuid_fresh, simp add: mem_uuid_def)

interpretation mem: services mem_svc mem_outside
  by unfold_locales

end
