(* ===== verification/Shared.thy ===== *)
theory Shared
  imports Services
begin

text \<open>
  \<open>packages/shared/src\<close>: the Redis key scheme of \<open>redisKeys.js\<close> and the exponential
  backoff of \<open>backoff.js\<close>.
\<close>

section \<open>Keys\<close>

definition PRIORITIES :: "string list" where
  "PRIORITIES = [''high'', ''normal'', ''low'']"

definition queueKey :: "string \<Rightarrow> err + string" where
  "queueKey prio =
     (if prio \<notin> set PRIORITIES
      then Inl (JsError (''Unknown priority '' @ [CHR 0x22] @ prio @ [CHR 0x22]))
      else Inr (''queue:'' @ prio))"

definition DELAYED_KEY :: string where "DELAYED_KEY = ''queue:delayed''"

definition processingKey :: "string \<Rightarrow> string" where
  "processingKey workerId = ''processing:'' @ workerId"

definition HEARTBEATS_KEY :: string where "HEARTBEATS_KEY = ''jobs:heartbeats''"

definition JOB_DATA_KEY :: string where "JOB_DATA_KEY = ''jobs:data''"

definition EVENTS_CHANNEL :: string where "EVENTS_CHANNEL = ''jobs:events''"

definition idempotencyKey :: "string \<Rightarrow> string" where
  "idempotencyKey key = ''idempotency:'' @ key"

definition SCHEDULER_LOCK_KEY :: string where "SCHEDULER_LOCK_KEY = ''lock:scheduler''"

definition reaperLockKey :: "string \<Rightarrow> string" where
  "reaperLockKey workerId = ''lock:reaper:'' @ workerId"

definition WORKERS_SET_KEY :: string where "WORKERS_SET_KEY = ''workers:active''"

definition throughputBucketKey :: "int \<Rightarrow> string" where
  "throughputBucketKey epochMinute = ''metrics:throughput:'' @ str_of_int epochMinute"

text \<open>The list key of a known priority, for statements about the store.\<close>

definition queue_of :: "string \<Rightarrow> string" where
  "queue_of prio = ''queue:'' @ prio"

lemma queueKey_ok [prog_simps]: "p \<in> set PRIORITIES \<Longrightarrow> queueKey p = Inr (queue_of p)"
  by (simp add: queueKey_def queue_of_def)

lemma queueKey_literals [simp]:
  "queueKey ''high'' = Inr (queue_of ''high'')"
  "queueKey ''normal'' = Inr (queue_of ''normal'')"
  "queueKey ''low'' = Inr (queue_of ''low'')"
  by (simp_all add: queueKey_def queue_of_def PRIORITIES_def)

lemma queueKey_unknown: "p \<notin> set PRIORITIES \<Longrightarrow> \<exists>m. queueKey p = Inl (JsError m)"
  by (simp add: queueKey_def)

lemma PRIORITIES_is_enum: "PRIORITIES = job_priority"
  by (simp add: PRIORITIES_def job_priority_def)

lemma queue_of_inj [simp]: "queue_of p = queue_of q \<longleftrightarrow> p = q"
  by (simp add: queue_of_def)

lemma processingKey_inj [simp]: "processingKey w = processingKey v \<longleftrightarrow> w = v"
  by (simp add: processingKey_def)

lemma reaperLockKey_inj [simp]: "reaperLockKey w = reaperLockKey v \<longleftrightarrow> w = v"
  by (simp add: reaperLockKey_def)

lemma idempotencyKey_inj [simp]: "idempotencyKey w = idempotencyKey v \<longleftrightarrow> w = v"
  by (simp add: idempotencyKey_def)

lemma list_keys_disjoint [simp, key_simps]:
  "queue_of p \<noteq> processingKey w" "processingKey w \<noteq> queue_of p"
  by (simp_all add: queue_of_def processingKey_def)

lemma hash_keys_disjoint [simp, key_simps]:
  "HEARTBEATS_KEY \<noteq> JOB_DATA_KEY" "JOB_DATA_KEY \<noteq> HEARTBEATS_KEY"
  by (simp_all add: HEARTBEATS_KEY_def JOB_DATA_KEY_def)

lemma string_keys_disjoint [simp, key_simps]:
  "idempotencyKey k \<noteq> SCHEDULER_LOCK_KEY" "idempotencyKey k \<noteq> reaperLockKey w"
  "SCHEDULER_LOCK_KEY \<noteq> idempotencyKey k" "reaperLockKey w \<noteq> idempotencyKey k"
  "reaperLockKey w \<noteq> SCHEDULER_LOCK_KEY" "SCHEDULER_LOCK_KEY \<noteq> reaperLockKey w"
  by (simp_all add: idempotencyKey_def SCHEDULER_LOCK_KEY_def reaperLockKey_def)

text \<open>
  Redis has one key space: a key used as a list must not be used as a hash. Each family
  of keys belongs to one type, and the families do not meet.
\<close>

datatype key_type = KList | KZset | KHash | KSet | KString | KChannel

inductive key_use :: "string \<Rightarrow> key_type \<Rightarrow> bool" where
  "queueKey p = Inr k \<Longrightarrow> key_use k KList"
| "key_use (processingKey w) KList"
| "key_use DELAYED_KEY KZset"
| "key_use HEARTBEATS_KEY KHash"
| "key_use JOB_DATA_KEY KHash"
| "key_use WORKERS_SET_KEY KSet"
| "key_use (idempotencyKey i) KString"
| "key_use SCHEDULER_LOCK_KEY KString"
| "key_use (reaperLockKey w) KString"
| "key_use (throughputBucketKey n) KString"

inductive_cases key_use_cases: "key_use k ty"

text \<open>The family of a key can be read off its prefix.\<close>

definition key_type_of :: "string \<Rightarrow> key_type" where
  "key_type_of k =
     (if k = ''queue:delayed'' then KZset
      else if take 6 k = ''queue:'' \<or> take 11 k = ''processing:'' then KList
      else if take 5 k = ''jobs:'' then KHash
      else if take 8 k = ''workers:'' then KSet
      else KString)"

lemmas key_defs =
  queueKey_def PRIORITIES_def processingKey_def DELAYED_KEY_def HEARTBEATS_KEY_def
  JOB_DATA_KEY_def WORKERS_SET_KEY_def idempotencyKey_def SCHEDULER_LOCK_KEY_def
  reaperLockKey_def throughputBucketKey_def

lemma key_use_type: "key_use k ty \<Longrightarrow> ty = key_type_of k"
  by (induction rule: key_use.induct)
    (auto simp: key_defs key_type_of_def split: if_splits)

section \<open>Backoff\<close>

text \<open>
  \<open>baseMs * Math.pow(2, attempt)\<close> is exact on doubles for an integer base, up to
  \<open>Infinity\<close> when the product is past the range of doubles, and the minimum with the cap
  hides that case: on integers it is the minimum of the exact product and the cap.
\<close>

definition computeBackoffCeilingMs :: "int \<Rightarrow> int \<Rightarrow> int \<Rightarrow> err + int" where
  "computeBackoffCeilingMs att baseMs maxDelayMs =
     (if att < 0 then Inl (JsError ''attempt must be >= 0'')
      else Inr (min (baseMs * 2 ^ nat att) maxDelayMs))"

text \<open>\<open>random\<close> is the value \<open>Math.random()\<close> returns in this call.\<close>

definition computeBackoffMs :: "int \<Rightarrow> int \<Rightarrow> int \<Rightarrow> bool \<Rightarrow> rat \<Rightarrow> err + int" where
  "computeBackoffMs att baseMs maxDelayMs jitter random =
     (if att < 0 then Inl (JsError ''attempt must be >= 0'')
      else let raw = baseMs * 2 ^ nat att;
               capped = min raw maxDelayMs
           in if \<not> jitter then Inr capped else Inr \<lfloor>random * of_int capped\<rfloor>)"

lemma floor_scale_bounds:
  fixes x :: rat
  assumes "0 \<le> x" and "x < 1" and "0 \<le> c"
  shows "0 \<le> \<lfloor>x * of_int c\<rfloor>" and "\<lfloor>x * of_int c\<rfloor> \<le> c" and "0 < c \<Longrightarrow> \<lfloor>x * of_int c\<rfloor> < c"
proof -
  have c: "(0::rat) \<le> of_int c" using assms(3) by simp
  show "0 \<le> \<lfloor>x * of_int c\<rfloor>" using assms c by simp
  have "x * of_int c \<le> 1 * of_int c" by (rule mult_right_mono) (use assms c in auto)
  then show "\<lfloor>x * of_int c\<rfloor> \<le> c" by (simp add: floor_le_iff)
  show "\<lfloor>x * of_int c\<rfloor> < c" if "0 < c"
  proof -
    have "x * of_int c < 1 * of_int c" by (rule mult_strict_right_mono) (use assms that in auto)
    then show ?thesis by (simp add: floor_less_iff)
  qed
qed

lemma ceiling_value:
  "0 \<le> a \<Longrightarrow> computeBackoffCeilingMs a b m = Inr (min (b * 2 ^ nat a) m)"
  by (simp add: computeBackoffCeilingMs_def)

lemma backoff_value:
  "0 \<le> a \<Longrightarrow> computeBackoffMs a b m True x = Inr \<lfloor>x * of_int (min (b * 2 ^ nat a) m)\<rfloor>"
  by (simp add: computeBackoffMs_def Let_def)

lemma backoff_nonneg:
  assumes "computeBackoffMs a b m True x = Inr d" and "0 \<le> x" "x < 1" and "0 \<le> b" "0 \<le> m"
  shows "0 \<le> d" and "d \<le> m"
proof -
  let ?c = "min (b * 2 ^ nat a) m"
  have "0 \<le> ?c" using assms(4,5) by simp
  moreover have "d = \<lfloor>x * of_int ?c\<rfloor>"
    using assms(1) by (auto simp: computeBackoffMs_def Let_def split: if_splits)
  ultimately show "0 \<le> d" and "d \<le> m"
    using floor_scale_bounds(1,2) [OF assms(2,3), of ?c] by auto
qed

section \<open>Properties\<close>



text \<open>
  C19: Retry delays (FR-4.1). Without jitter the delay is the ceiling
  \<open>min (base * 2 ^ attempt) cap\<close>; with jitter it is a whole number of milliseconds between
  zero and the ceiling, below it when the ceiling is positive. The ceiling grows with the
  attempt number, never beyond the cap, and reaches the cap when the base is positive.
\<close>

theorem backoff_bounds:
  assumes "0 \<le> a" and "0 \<le> b" and "0 \<le> m" and "0 \<le> x" and "x < 1"
  shows "\<exists>c d. computeBackoffCeilingMs a b m = Inr c \<and> c = min (b * 2 ^ nat a) m \<and>
    computeBackoffMs a b m False x = Inr c \<and> computeBackoffMs a b m True x = Inr d \<and>
    0 \<le> d \<and> d \<le> c \<and> (0 < c \<longrightarrow> d < c) \<and> c \<le> m \<and>
    (\<forall>a' c'. a \<le> a' \<longrightarrow> computeBackoffCeilingMs a' b m = Inr c' \<longrightarrow> c \<le> c') \<and>
    (0 < b \<longrightarrow> m \<le> a \<longrightarrow> c = m)"
proof -
  let ?c = "min (b * 2 ^ nat a) m"
  have c: "0 \<le> ?c" using assms(2,3) by simp
  have "b * 2 ^ nat a \<le> b * 2 ^ nat a'" if "a \<le> a'" for a'
    by (rule mult_left_mono) (use that assms(2) in \<open>auto intro: power_increasing\<close>)
  then have grow: "?c \<le> min (b * 2 ^ nat a') m" if "a \<le> a'" for a'
    using that by (meson min.mono order_refl)
  have "m \<le> b * 2 ^ nat a" if "0 < b" "m \<le> a"
  proof -
    have "a < 2 ^ nat a" using of_nat_less_two_power [of "nat a", where 'a = int] assms(1) by simp
    also have "2 ^ nat a \<le> b * 2 ^ nat a" using that(1) by (simp add: mult_le_cancel_right1)
    finally show ?thesis using that(2) by simp
  qed
  then show ?thesis
    using floor_scale_bounds [OF assms(4,5) c] grow assms(1)
    by (auto simp: computeBackoffCeilingMs_def computeBackoffMs_def Let_def)
qed

theorem backoff_bounds_witness:
  "\<exists>d. computeBackoffMs 2 500 300000 True (1 / 2) = Inr d \<and> d < 2000"
  using backoff_bounds [of 2 500 300000 "1 / 2"] by (auto simp: computeBackoffCeilingMs_def)

end
