(* ===== verification/Queue.thy ===== *)
theory Queue
  imports Shared
begin

text \<open>
  \<open>packages/server/src/lib/queue.js\<close>: submission, lookup, listing, manual retry,
  cancellation and the promotion of delayed jobs, each as the program of the commands it
  awaits, in the order of the source.
\<close>

section \<open>Configuration and requests\<close>

record server_config =
  apiKeys :: "string list"
  rateLimitPerMin :: int
  maxRetriesDefault :: int
  idempotencyTtlSeconds :: int

record enqueue_request =
  rq_type :: string
  rq_payload :: "json option"
  rq_priority :: "string option"
  rq_delay :: "int option"
  rq_maxRetries :: "int option"
  rq_idempotencyKey :: "string option"

text \<open>A string option in a condition: absent and empty are both false.\<close>

fun given :: "string option \<Rightarrow> string option" where
  "given (Some []) = None"
| "given k = k"

section \<open>Helpers\<close>

definition toEnvelope :: "job_row \<Rightarrow> envelope" where
  "toEnvelope job = \<lparr>env_id = job_id job, env_type = job_type job, env_payload = payload job,
     env_priority = priority job, env_attempt = attempt job, env_maxRetries = max_retries job\<rparr>"

definition getJobById :: "string \<Rightarrow> job_row option prog" where
  "getJobById i = call (Pg (SELECT_JOB i)) (\<lambda>r. Ret (row0 r))"

definition getJobEvents :: "string \<Rightarrow> event_row list prog" where
  "getJobEvents i = call (Pg (SELECT_EVENTS i)) (\<lambda>r. Ret (the_events r))"

definition logEvent :: "string \<Rightarrow> job_status \<Rightarrow> string \<Rightarrow> unit prog" where
  "logEvent i st message =
     call (Pg (INSERT_EVENT i st (if message = '''' then None else Some message))) (\<lambda>_. Ret ())"

definition publishEvent :: "string \<Rightarrow> job_status \<Rightarrow> string \<Rightarrow> unit prog" where
  "publishEvent i st message =
     call Now (\<lambda>t. call (Redis (PUBLISH EVENTS_CHANNEL
       \<lparr>e_jobId = i, e_status = st, e_message = message, e_ts = the_int t\<rparr>)) (\<lambda>_. Ret ()))"

text \<open>Reading a property of \<open>undefined\<close>.\<close>

definition undefined_row :: err where
  "undefined_row = JsError ''Cannot read properties of undefined''"

section \<open>Submission\<close>

record enqueue_result =
  res_job :: job_row
  res_deduped :: bool

definition new_job_row :: "server_config \<Rightarrow> enqueue_request \<Rightarrow> string \<Rightarrow> int \<Rightarrow> job_row" where
  "new_job_row cfg rq i now =
     (let delay = (case rq_delay rq of None \<Rightarrow> 0 | Some d \<Rightarrow> d);
          scheduledFor = (if delay > 0 then Some (now + delay) else None)
      in \<lparr>job_id = i, job_type = rq_type rq,
          payload = (case rq_payload rq of None \<Rightarrow> JObj [] | Some p \<Rightarrow> p),
          priority = (case rq_priority rq of None \<Rightarrow> ''normal'' | Some p \<Rightarrow> p),
          status = (if scheduledFor \<noteq> None then Delayed else Queued),
          attempt = 0,
          max_retries = (case rq_maxRetries rq of None \<Rightarrow> maxRetriesDefault cfg | Some n \<Rightarrow> n),
          idempotency_key = given (rq_idempotencyKey rq),
          scheduled_for = scheduledFor,
          created_at = now, updated_at = now, completed_at = None,
          error = None, worker_id = None\<rparr>)"

text \<open>The part after the duplicate check.\<close>

definition enqueue_new :: "server_config \<Rightarrow> enqueue_request \<Rightarrow> enqueue_result prog" where
  "enqueue_new cfg rq =
     call NewUuid (\<lambda>u. let i = the_str u in
     call Now (\<lambda>t.
     let row = new_job_row cfg rq i (the_int t) in
     call (Pg (INSERT_JOB row)) (\<lambda>rows.
     case row0 rows of None \<Rightarrow> Throw undefined_row | Some job \<Rightarrow>
     and_then (logEvent i (status row) ''Job created'') (\<lambda>_.
     and_then (case given (rq_idempotencyKey rq) of
          None \<Rightarrow> Ret ()
        | Some k \<Rightarrow> call (Redis (SET_EX (idempotencyKey k) i (idempotencyTtlSeconds cfg))) (\<lambda>_. Ret ()))
       (\<lambda>_.
     call (Redis (HSET JOB_DATA_KEY i (VEnv (toEnvelope job)))) (\<lambda>_.
     and_then (case scheduled_for row of
          Some runAt \<Rightarrow> call (Redis (ZADD DELAYED_KEY runAt i)) (\<lambda>_. Ret ())
        | None \<Rightarrow> sync_call (queueKey (priority row))
                   (\<lambda>key. call (Redis (LPUSH key i)) (\<lambda>_. Ret ())))
       (\<lambda>_.
     and_then (publishEvent i (status row) ''Job created'') (\<lambda>_.
     Ret \<lparr>res_job = job, res_deduped = False\<rparr>))))))))"

definition enqueueJob :: "server_config \<Rightarrow> enqueue_request \<Rightarrow> enqueue_result prog" where
  "enqueueJob cfg rq =
     (case given (rq_idempotencyKey rq) of
        None \<Rightarrow> enqueue_new cfg rq
      | Some k \<Rightarrow>
          call (Redis (GET (idempotencyKey k))) (\<lambda>existing.
          if the_str existing = '''' then enqueue_new cfg rq
          else and_then (getJobById (the_str existing)) (\<lambda>job.
            case job of
              Some j \<Rightarrow> Ret \<lparr>res_job = j, res_deduped = True\<rparr>
            | None \<Rightarrow> enqueue_new cfg rq)))"

section \<open>Listing\<close>

text \<open>
  The clauses and their parameters grow together: a clause names the placeholder of the
  parameter pushed just before it.
\<close>

definition list_where :: "job_status option \<Rightarrow> string option \<Rightarrow> (column \<times> nat) list \<times> pval list" where
  "list_where st ty =
     (let (cs, ps) = ([], []);
          (cs, ps) = (case st of None \<Rightarrow> (cs, ps)
            | Some x \<Rightarrow> (let ps = ps @ [PStatus x] in (cs @ [(ColStatus, length ps)], ps)));
          (cs, ps) = (case given ty of None \<Rightarrow> (cs, ps)
            | Some x \<Rightarrow> (let ps = ps @ [PStr x] in (cs @ [(ColType, length ps)], ps)))
      in (cs, ps))"

record list_result =
  lr_jobs :: "job_row list"
  lr_total :: int
  lr_page :: int
  lr_pageSize :: int

definition listJobs :: "job_status option \<Rightarrow> string option \<Rightarrow> int \<Rightarrow> int \<Rightarrow> list_result prog" where
  "listJobs st ty page pageSize =
     (let (conditions, params) = list_where st ty;
          off = (max 1 page - 1) * pageSize;
          params = params @ [PInt pageSize, PInt off]
      in call (Pg (SELECT_JOBS conditions (length params - 1) (length params) params)) (\<lambda>rows.
         let countParams = take (length params - 2) params in
         call (Pg (COUNT_JOBS conditions countParams)) (\<lambda>countRows.
         Ret \<lparr>lr_jobs = the_rows rows, lr_total = the_int countRows,
              lr_page = page, lr_pageSize = pageSize\<rparr>)))"

section \<open>Manual retry and cancellation\<close>

definition retryJob :: "string \<Rightarrow> job_row option prog" where
  "retryJob i =
     and_then (getJobById i) (\<lambda>found.
     case found of None \<Rightarrow> Ret None | Some job \<Rightarrow>
     if status job \<notin> {Dead, Failed}
     then Throw (InvalidState (''Job '' @ i @ '' is not in a retryable state (status='' @
                 status_str (status job) @ '')''))
     else
       call (Pg (UPDATE_JOB [SetStatus Queued, SetError None, SetWorkerId None] i)) (\<lambda>rows.
       and_then (logEvent i Queued ''Manually re-queued by operator'') (\<lambda>_.
       case row0 rows of None \<Rightarrow> Throw undefined_row | Some updated \<Rightarrow>
       call (Redis (HSET JOB_DATA_KEY i (VEnv (toEnvelope updated)))) (\<lambda>_.
       sync_call (queueKey (priority updated)) (\<lambda>key.
       call (Redis (LPUSH key i)) (\<lambda>_.
       and_then (publishEvent i Queued ''Manually re-queued by operator'') (\<lambda>_.
       Ret (Some updated))))))))"

definition cancelJob :: "string \<Rightarrow> job_row option prog" where
  "cancelJob i =
     and_then (getJobById i) (\<lambda>found.
     case found of None \<Rightarrow> Ret None | Some job \<Rightarrow>
     if status job \<notin> {Queued, Delayed}
     then Throw (InvalidState (''Job '' @ i @ '' cannot be cancelled from status='' @
                 status_str (status job)))
     else
       sync_call (queueKey (priority job)) (\<lambda>key.
       call (Redis (LREM key i)) (\<lambda>_.
       call (Redis (ZREM DELAYED_KEY i)) (\<lambda>_.
       call (Redis (HDEL JOB_DATA_KEY i)) (\<lambda>_.
       call (Pg (UPDATE_JOB [SetStatus Failed, SetError (Some ''Cancelled by operator'')] i)) (\<lambda>rows.
       and_then (logEvent i Failed ''Cancelled by operator'') (\<lambda>_.
       and_then (publishEvent i Failed ''Cancelled by operator'') (\<lambda>_.
       Ret (row0 rows)))))))))"

section \<open>Promotion of delayed jobs\<close>

primrec promote_each :: "string list \<Rightarrow> nat \<Rightarrow> nat prog" where
  "promote_each [] promoted = Ret promoted"
| "promote_each (i # ids) promoted =
     call (Redis (ZREM DELAYED_KEY i)) (\<lambda>removed.
     if the_int removed = 0 then promote_each ids promoted
     else call (Redis (HGET JOB_DATA_KEY i)) (\<lambda>raw.
       case raw of
         RVal (VEnv envelope) \<Rightarrow>
           sync_call (queueKey (env_priority envelope)) (\<lambda>key.
           call (Redis (LPUSH key i)) (\<lambda>_.
           call (Pg (UPDATE_JOB [SetStatus Queued] i)) (\<lambda>_.
           and_then (logEvent i Queued ''Delayed job promoted to active queue'') (\<lambda>_.
           and_then (publishEvent i Queued ''Delayed job promoted'') (\<lambda>_.
           promote_each ids (promoted + 1))))))
       | RVal (VTime _) \<Rightarrow> Throw (JsError (''Unknown priority '' @ [CHR 0x22] @ ''undefined'' @ [CHR 0x22]))
       | _ \<Rightarrow> promote_each ids promoted))"

definition promoteDueDelayedJobs :: "nat \<Rightarrow> nat prog" where
  "promoteDueDelayedJobs limit =
     call Now (\<lambda>now.
     call (Redis (ZRANGEBYSCORE DELAYED_KEY 0 (the_int now) 0 limit)) (\<lambda>dueIds.
     promote_each (the_ids dueIds) 0))"

section \<open>Statistics\<close>

record queue_stats =
  depth_high :: int
  depth_normal :: int
  depth_low :: int
  depth_delayed :: int
  byStatus :: "(job_status \<times> int) list"
  throughputPerMin :: int
  failureRateLastHour :: rat
  dlqCount :: int

text \<open>\<open>Number(x.toFixed(4))\<close>, ties upwards.\<close>

definition toFixed4 :: "rat \<Rightarrow> rat" where
  "toFixed4 x = of_int \<lfloor>x * 10000 + 1 / 2\<rfloor> / 10000"

fun the_counts :: "reply \<Rightarrow> (job_status \<times> int) list" where
  "the_counts (RCounts cs) = cs"
| "the_counts _ = []"

fun the_pair :: "reply \<Rightarrow> int \<times> rat" where
  "the_pair (RPair n x) = (n, x)"
| "the_pair _ = (0, 0)"

definition getQueueStats :: "queue_stats prog" where
  "getQueueStats =
     sync_call (queueKey ''high'') (\<lambda>kh. call (Redis (LLEN kh)) (\<lambda>high.
     sync_call (queueKey ''normal'') (\<lambda>kn. call (Redis (LLEN kn)) (\<lambda>normal.
     sync_call (queueKey ''low'') (\<lambda>kl. call (Redis (LLEN kl)) (\<lambda>low.
     call (Redis (ZCARD DELAYED_KEY)) (\<lambda>dl.
     call (Pg COUNT_BY_STATUS) (\<lambda>statusCounts.
     call (Pg (COUNT_COMPLETED_WITHIN 60000)) (\<lambda>throughput.
     call (Pg (COUNT_CREATED_WITHIN [Failed, Dead] 3600000)) (\<lambda>failRows.
     let (failed, total) = the_pair failRows;
         failureRate = (if total > 0 then of_int failed / total else 0)
     in Ret \<lparr>depth_high = the_int high, depth_normal = the_int normal, depth_low = the_int low,
             depth_delayed = the_int dl, byStatus = the_counts statusCounts,
             throughputPerMin = the_int throughput,
             failureRateLastHour = toFixed4 failureRate,
             dlqCount = (case map_of (the_counts statusCounts) Dead of
                 None \<Rightarrow> 0 | Some n \<Rightarrow> n)\<rparr>))))))))))"

section \<open>Running the operations\<close>

text \<open>
  Each lemma \<open>run_f\<close> gives the result and the whole final store of an operation, from the
  laws of the services. Everything below uses these and not the programs.
\<close>

lemma row_priority_known:
  "insert_job_error js r = None \<Longrightarrow> priority r \<in> set PRIORITIES"
  by (auto simp: insert_job_error_def PRIORITIES_is_enum split: if_splits)

lemma new_job_row_simps [simp]:
  "job_id (new_job_row cfg rq i t) = i"
  "attempt (new_job_row cfg rq i t) = 0"
  "idempotency_key (new_job_row cfg rq i t) = given (rq_idempotencyKey rq)"
  "(status (new_job_row cfg rq i t) = Delayed) = (scheduled_for (new_job_row cfg rq i t) \<noteq> None)"
  "(status (new_job_row cfg rq i t) = Queued) = (scheduled_for (new_job_row cfg rq i t) = None)"
  by (simp_all add: new_job_row_def Let_def)

context services begin

lemma run_getJobById [simp]: "run svc (getJobById i) s = (Inr (get_row i (jobs s)), s)"
  by (simp add: getJobById_def prog_run laws)

lemma run_logEvent [simp]:
  "run svc (logEvent i st m) s =
    (if i \<in> job_id ` set (jobs s) then
      (Inr (), s\<lparr>job_events := job_events s @ [\<lparr>ev_job = i, ev_status = st,
           ev_message = (if m = '''' then None else Some m), ev_created_at = clock s\<rparr>]\<rparr>)
     else (Inl (PgError ''violates foreign key constraint (job_events_job_id_fkey)''), s))"
  by (simp add: logEvent_def prog_run laws)

lemma run_publishEvent [simp]:
  "run svc (publishEvent i st m) s =
    (Inr (), s\<lparr>published := published s @ [(EVENTS_CHANNEL,
        \<lparr>e_jobId = i, e_status = st, e_message = m, e_ts = clock s\<rparr>)]\<rparr>)"
  by (simp add: publishEvent_def prog_run laws)

lemma run_enqueue_new:
  assumes "row = new_job_row cfg rq (gen_uuid out s) (clock s)"
    and "insert_job_error (jobs s) row = None" and "job_id row = i"
  shows "run svc (enqueue_new cfg rq) s =
    (Inr \<lparr>res_job = row, res_deduped = False\<rparr>,
     s\<lparr>jobs := jobs s @ [row],
       job_events := job_events s @ [\<lparr>ev_job = i, ev_status = status row,
           ev_message = Some ''Job created'', ev_created_at = clock s\<rparr>],
       lists := (if scheduled_for row = None
                 then (lists s)(queue_of (priority row) := i # lists s (queue_of (priority row)))
                 else lists s),
       zsets := (case scheduled_for row of None \<Rightarrow> zsets s
                 | Some t \<Rightarrow> (zsets s)(DELAYED_KEY := zadd t i (zsets s DELAYED_KEY))),
       hashes := (hashes s)(JOB_DATA_KEY := (hashes s JOB_DATA_KEY)(i \<mapsto> VEnv (toEnvelope row))),
       strs := (case given (rq_idempotencyKey rq) of None \<Rightarrow> strs s
                | Some k \<Rightarrow> (strs s)(idempotencyKey k \<mapsto>
                     (i, clock s + idempotencyTtlSeconds cfg * 1000))),
       published := published s @ [(EVENTS_CHANNEL, \<lparr>e_jobId = i, e_status = status row,
           e_message = ''Job created'', e_ts = clock s\<rparr>)],
       issued := i # issued s\<rparr>)"
proof -
  have "i = gen_uuid out s" using assms(1,3) by simp
  then show ?thesis
    using assms(2) row_priority_known [OF assms(2)] unfolding assms(1)
    by (auto simp: enqueue_new_def prog_run laws Let_def queueKey_ok split: option.split)
qed

end

text \<open>The row the duplicate check finds.\<close>

definition existing_job :: "store \<Rightarrow> enqueue_request \<Rightarrow> job_row option" where
  "existing_job s rq =
     (case given (rq_idempotencyKey rq) of None \<Rightarrow> None
      | Some k \<Rightarrow> (case str_get s (idempotencyKey k) of None \<Rightarrow> None
          | Some i \<Rightarrow> if i = '''' then None else get_row i (jobs s)))"

context services begin

lemma run_enqueueJob:
  "run svc (enqueueJob cfg rq) s =
     (case existing_job s rq of
        Some j \<Rightarrow> (Inr \<lparr>res_job = j, res_deduped = True\<rparr>, s)
      | None \<Rightarrow> run svc (enqueue_new cfg rq) s)"
  by (auto simp: enqueueJob_def existing_job_def prog_run laws split: option.split)

lemma run_enqueue_refused:
  assumes "insert_job_error (jobs s) (new_job_row cfg rq (gen_uuid out s) (clock s)) = Some m"
  shows "run svc (enqueue_new cfg rq) s = (Inl (PgError m), s\<lparr>issued := gen_uuid out s # issued s\<rparr>)"
  using assms by (simp add: enqueue_new_def prog_run laws Let_def)

lemma run_retryJob:
  assumes "get_row i (jobs s) = Some job" and "status job \<in> {Dead, Failed}"
    and "priority job \<in> set PRIORITIES"
    and "new = job\<lparr>status := Queued, error := None, worker_id := None, updated_at := clock s\<rparr>"
  shows "run svc (retryJob i) s =
     (Inr (Some new),
      s\<lparr>jobs := update_rows i (assign_all (clock s)
            [SetStatus Queued, SetError None, SetWorkerId None]) (jobs s),
        job_events := job_events s @ [\<lparr>ev_job = i, ev_status = Queued,
            ev_message = Some ''Manually re-queued by operator'', ev_created_at = clock s\<rparr>],
        hashes := (hashes s)(JOB_DATA_KEY :=
            (hashes s JOB_DATA_KEY)(i \<mapsto> VEnv (toEnvelope new))),
        lists := (lists s)(queue_of (priority job) := i # lists s (queue_of (priority job))),
        published := published s @ [(EVENTS_CHANNEL, \<lparr>e_jobId = i, e_status = Queued,
            e_message = ''Manually re-queued by operator'', e_ts = clock s\<rparr>)]\<rparr>)"
  using assms get_row_in_ids [OF assms(1)]
  by (auto simp: retryJob_def prog_run laws Let_def queueKey_ok)

lemma run_retryJob_missing:
  "get_row i (jobs s) = None \<Longrightarrow> run svc (retryJob i) s = (Inr None, s)"
  by (simp add: retryJob_def prog_run)

lemma run_retryJob_refused:
  "get_row i (jobs s) = Some job \<Longrightarrow> status job \<notin> {Dead, Failed} \<Longrightarrow>
    \<exists>m. run svc (retryJob i) s = (Inl (InvalidState m), s)"
  by (simp add: retryJob_def prog_run)

lemma run_cancelJob_missing:
  "get_row i (jobs s) = None \<Longrightarrow> run svc (cancelJob i) s = (Inr None, s)"
  by (simp add: cancelJob_def prog_run)

lemma run_cancelJob_refused:
  "get_row i (jobs s) = Some job \<Longrightarrow> status job \<notin> {Queued, Delayed} \<Longrightarrow>
    \<exists>m. run svc (cancelJob i) s = (Inl (InvalidState m), s)"
  by (simp add: cancelJob_def prog_run)

lemma run_cancelJob:
  assumes "get_row i (jobs s) = Some job" and "status job \<in> {Queued, Delayed}"
    and "priority job \<in> set PRIORITIES"
  shows "run svc (cancelJob i) s =
     (Inr (Some (job\<lparr>status := Failed, error := Some ''Cancelled by operator'',
                     updated_at := clock s\<rparr>)),
      s\<lparr>lists := (lists s)(queue_of (priority job) := removeAll i (lists s (queue_of (priority job)))),
        zsets := (zsets s)(DELAYED_KEY := zrem i (zsets s DELAYED_KEY)),
        hashes := (hashes s)(JOB_DATA_KEY := (hashes s JOB_DATA_KEY)(i := None)),
        jobs := update_rows i (assign_all (clock s)
            [SetStatus Failed, SetError (Some ''Cancelled by operator'')]) (jobs s),
        job_events := job_events s @ [\<lparr>ev_job = i, ev_status = Failed,
            ev_message = Some ''Cancelled by operator'', ev_created_at = clock s\<rparr>],
        published := published s @ [(EVENTS_CHANNEL, \<lparr>e_jobId = i, e_status = Failed,
            e_message = ''Cancelled by operator'', e_ts = clock s\<rparr>)]\<rparr>)"
  using assms get_row_in_ids [OF assms(1)]
  by (auto simp: cancelJob_def prog_run laws Let_def queueKey_ok)

end

subsection \<open>Promotion\<close>

definition data_of :: "store \<Rightarrow> string \<Rightarrow> envelope option" where
  "data_of s i = (case hashes s JOB_DATA_KEY i of Some (VEnv e) \<Rightarrow> Some e | _ \<Rightarrow> None)"

definition promotable :: "store \<Rightarrow> string \<Rightarrow> bool" where
  "promotable s i \<longleftrightarrow> i \<in> zmembers (zsets s DELAYED_KEY) \<and> i \<in> job_id ` set (jobs s) \<and>
     (\<exists>e. data_of s i = Some e \<and> env_priority e \<in> set PRIORITIES)"

definition data_priority :: "store \<Rightarrow> string \<Rightarrow> string" where
  "data_priority s i = (case data_of s i of None \<Rightarrow> '''' | Some e \<Rightarrow> env_priority e)"

definition promoted_row :: "int \<Rightarrow> job_row \<Rightarrow> job_row" where
  "promoted_row now r = r\<lparr>status := Queued, updated_at := now\<rparr>"

lemma data_of_Some: "data_of s i = Some e \<longleftrightarrow> hashes s JOB_DATA_KEY i = Some (VEnv e)"
  by (auto simp: data_of_def split: option.splits rval.splits)

context services begin

lemma run_promote_one:
  assumes "promotable s i" and "data_priority s i = p"
  shows "run svc (promote_each (i # ids) n) s = run svc (promote_each ids (n + 1))
    (s\<lparr>zsets := (zsets s)(DELAYED_KEY := zrem i (zsets s DELAYED_KEY)),
       lists := (lists s)(queue_of p := i # lists s (queue_of p)),
       jobs := update_rows i (assign_all (clock s) [SetStatus Queued]) (jobs s),
       job_events := job_events s @ [\<lparr>ev_job = i, ev_status = Queued,
          ev_message = Some ''Delayed job promoted to active queue'', ev_created_at = clock s\<rparr>],
       published := published s @ [(EVENTS_CHANNEL, \<lparr>e_jobId = i, e_status = Queued,
          e_message = ''Delayed job promoted'', e_ts = clock s\<rparr>)]\<rparr>)"
proof -
  obtain e where e: "data_of s i = Some e" "env_priority e \<in> set PRIORITIES"
    and z: "i \<in> zmembers (zsets s DELAYED_KEY)" and r: "i \<in> job_id ` set (jobs s)"
    using assms(1) by (auto simp: promotable_def)
  have p: "p = env_priority e" using assms(2) e by (simp add: data_priority_def)
  show ?thesis
    using e z r unfolding p by (simp add: data_of_Some prog_run laws queueKey_ok)
qed

lemma run_promote_skip:
  "i \<notin> zmembers (zsets s DELAYED_KEY) \<Longrightarrow>
    run svc (promote_each (i # ids) n) s =
      run svc (promote_each ids n) (s\<lparr>zsets := (zsets s)(DELAYED_KEY := zrem i (zsets s DELAYED_KEY))\<rparr>)"
  by (simp add: prog_run laws)

lemma run_promote_each:
  assumes "distinct ids" and "\<forall>i \<in> set ids. promotable s i"
  shows "\<exists>s'. run svc (promote_each ids n) s = (Inr (n + length ids), s') \<and>
    (\<forall>p. lists s' (queue_of p) =
         rev (filter (\<lambda>i. data_priority s i = p) ids) @ lists s (queue_of p)) \<and>
    (\<forall>w. lists s' (processingKey w) = lists s (processingKey w)) \<and>
    zsets s' DELAYED_KEY = filter (\<lambda>e. zmember e \<notin> set ids) (zsets s DELAYED_KEY) \<and>
    hashes s' = hashes s \<and> clock s' = clock s \<and>
    (\<forall>i. get_row i (jobs s') =
       (if i \<in> set ids then map_option (promoted_row (clock s)) (get_row i (jobs s))
        else get_row i (jobs s)))"
  using assms
proof (induction ids arbitrary: s n)
  case Nil
  then show ?case by simp
next
  case (Cons i ids)
  define t where "t = s\<lparr>zsets := (zsets s)(DELAYED_KEY := zrem i (zsets s DELAYED_KEY)),
       lists := (lists s)(queue_of (data_priority s i) := i # lists s (queue_of (data_priority s i))),
       jobs := update_rows i (assign_all (clock s) [SetStatus Queued]) (jobs s),
       job_events := job_events s @ [\<lparr>ev_job = i, ev_status = Queued,
          ev_message = Some ''Delayed job promoted to active queue'', ev_created_at = clock s\<rparr>],
       published := published s @ [(EVENTS_CHANNEL, \<lparr>e_jobId = i, e_status = Queued,
          e_message = ''Delayed job promoted'', e_ts = clock s\<rparr>)]\<rparr>"
  have step: "run svc (promote_each (i # ids) n) s = run svc (promote_each ids (n + 1)) t"
    unfolding t_def using Cons.prems by (intro run_promote_one) auto
  have t: "lists t (queue_of p) =
        (if p = data_priority s i then i # lists s (queue_of p) else lists s (queue_of p))"
      "lists t (processingKey w) = lists s (processingKey w)"
      "zsets t DELAYED_KEY = filter (\<lambda>e. zmember e \<noteq> i) (zsets s DELAYED_KEY)"
      "hashes t = hashes s" "clock t = clock s" "job_id ` set (jobs t) = job_id ` set (jobs s)"
      "get_row j (jobs t) = (if j = i then map_option (promoted_row (clock s)) (get_row i (jobs s))
         else get_row j (jobs s))" for p w j
    by (auto simp: t_def zrem_def promoted_row_def intro: map_option_cong)
  have zm: "zmembers (zsets t DELAYED_KEY) = zmembers (zsets s DELAYED_KEY) - {i}"
    by (simp add: t_def)
  have data: "data_of t = data_of s" by (simp add: data_of_def fun_eq_iff t)
  then have prio: "data_priority t = data_priority s" by (simp add: data_priority_def fun_eq_iff)
  have ok: "\<forall>j \<in> set ids. promotable t j"
    using Cons.prems data t(6) zm by (auto simp: promotable_def)
  have "distinct ids" using Cons.prems(1) by simp
  from Cons.IH [OF this ok, of "n + 1", unfolded prio t] obtain s'
    where "run svc (promote_each ids (n + 1)) t = (Inr (n + 1 + length ids), s')"
      "\<forall>p. lists s' (queue_of p) = rev (filter (\<lambda>i. data_priority s i = p) ids) @
          (if p = data_priority s i then i # lists s (queue_of p) else lists s (queue_of p))"
      "\<forall>w. lists s' (processingKey w) = lists s (processingKey w)"
      "zsets s' DELAYED_KEY = filter (\<lambda>e. zmember e \<notin> set ids)
          (filter (\<lambda>e. zmember e \<noteq> i) (zsets s DELAYED_KEY))"
      "hashes s' = hashes s" "clock s' = clock s"
      "\<forall>j. get_row j (jobs s') =
         (if j \<in> set ids then map_option (promoted_row (clock s))
            (if j = i then map_option (promoted_row (clock s)) (get_row i (jobs s))
             else get_row j (jobs s))
          else if j = i then map_option (promoted_row (clock s)) (get_row i (jobs s))
          else get_row j (jobs s))"
    by blast
  then show ?case
    unfolding step using Cons.prems(1) by (intro exI [of _ s']) (auto simp: conj_commute)
qed

end

subsection \<open>Listing and statistics\<close>

definition matches :: "job_status option \<Rightarrow> string option \<Rightarrow> job_row \<Rightarrow> bool" where
  "matches st ty r \<longleftrightarrow> (case st of None \<Rightarrow> True | Some x \<Rightarrow> status r = x) \<and>
     (case given ty of None \<Rightarrow> True | Some x \<Rightarrow> job_type r = x)"

lemma list_where_cases:
  "list_where st ty =
     (case (st, given ty) of
        (None, None) \<Rightarrow> ([], [])
      | (Some x, None) \<Rightarrow> ([(ColStatus, 1)], [PStatus x])
      | (None, Some t) \<Rightarrow> ([(ColType, 1)], [PStr t])
      | (Some x, Some t) \<Rightarrow> ([(ColStatus, 1), (ColType, 2)], [PStatus x, PStr t]))"
  by (auto simp: list_where_def Let_def split: option.split)

lemma list_where_placeholders:
  "list_where st ty = (cs, ps) \<Longrightarrow> map snd cs = [1..<Suc (length ps)]"
  by (cases st; cases "given ty") (auto simp: list_where_cases)

lemma list_where_rows:
  "list_where st ty = (cs, ps) \<Longrightarrow> where_rows cs (ps @ extra) js = filter (matches st ty) js"
  by (auto simp: list_where_cases where_rows_def matches_def param_def eq_commute
      split: option.splits intro!: filter_cong)

lemma placeholders_ok_upt: "placeholders_ok [1..<Suc (length ps)] ps"
  by (simp add: placeholders_ok_def)

context services begin

lemma run_listJobs:
  assumes "0 \<le> pageSize"
  shows "run svc (listJobs st ty page pageSize) s =
    (Inr \<lparr>lr_jobs = take (nat pageSize) (drop (nat ((max 1 page - 1) * pageSize))
            (jobs_desc out (filter (matches st ty) (jobs s)))),
          lr_total = int (length (filter (matches st ty) (jobs s))),
          lr_page = page, lr_pageSize = pageSize\<rparr>, s)"
proof -
  obtain cs ps where w: "list_where st ty = (cs, ps)" by fastforce
  let ?ps = "ps @ [PInt pageSize, PInt ((max 1 page - 1) * pageSize)]"
  have ph: "placeholders_ok (map snd cs @ [Suc (length ps), Suc (Suc (length ps))]) ?ps"
    unfolding list_where_placeholders [OF w] by (auto simp: placeholders_ok_def)
  have cnt: "placeholders_ok (map snd cs) ps"
    unfolding list_where_placeholders [OF w] by (rule placeholders_ok_upt)
  have "0 \<le> (max 1 page - 1) * pageSize" using assms by simp
  then show ?thesis
    using w ph cnt assms list_where_rows [OF w, of "[]"] list_where_rows [OF w]
    by (simp add: listJobs_def prog_run laws Let_def param_def nth_append)
qed

lemma run_getQueueStats:
  "\<exists>st. run svc getQueueStats s = (Inr st, s) \<and>
     depth_high st = int (length (lists s (queue_of ''high''))) \<and>
     depth_normal st = int (length (lists s (queue_of ''normal''))) \<and>
     depth_low st = int (length (lists s (queue_of ''low''))) \<and>
     depth_delayed st = int (length (zsets s DELAYED_KEY)) \<and>
     dlqCount st = count_status (jobs s) Dead \<and>
     (\<forall>x n. (x, n) \<in> set (byStatus st) \<longleftrightarrow> n = count_status (jobs s) x \<and> n > 0)"
proof -
  have pos: "count_status (jobs s) x > 0 \<longleftrightarrow> x \<in> status ` set (jobs s)" for x
    by (auto simp: count_status_def filter_empty_conv)
  have all: "x \<in> set (status_order out)" for x
    using status_order(2) by (cases x) auto
  have dead: "map_of (map (\<lambda>st. (st, count_status (jobs s) st))
      (filter (\<lambda>st. st \<in> status ` set (jobs s)) (status_order out))) Dead =
      (if Dead \<in> status ` set (jobs s) then Some (count_status (jobs s) Dead) else None)"
    using all [of Dead] by (auto simp: map_of_map_restrict restrict_map_def)
  have zero: "Dead \<notin> status ` set (jobs s) \<Longrightarrow> count_status (jobs s) Dead = 0"
    using pos [of Dead] by (simp add: count_status_def)
  show ?thesis
    using pos all dead zero
    by (auto simp: getQueueStats_def prog_run laws Let_def)
qed
end

lemma concat_pages: "concat (map (\<lambda>k. take n (drop (k * n) xs)) [0..<m]) = take (m * n) xs"
proof (induction m)
  case (Suc m)
  have "Suc m * n = m * n + n" by simp
  then show ?case using Suc.IH by (simp only: take_add) simp
qed simp

context services begin

lemma run_enqueueJob_new:
  "existing_job s rq = None \<Longrightarrow> run svc (enqueueJob cfg rq) s = run svc (enqueue_new cfg rq) s"
  by (simp add: run_enqueueJob)

lemma run_promoteDue:
  "run svc (promoteDueDelayedJobs limit) s =
     run svc (promote_each (zrange 0 (clock s) 0 limit (zsets s DELAYED_KEY)) 0) s"
  by (simp add: promoteDueDelayedJobs_def prog_run laws)

text \<open>What a submission that was not deduplicated tells about the store.\<close>

lemma enqueue_fresh_result:
  assumes "run svc (enqueueJob cfg rq) s = (Inr \<lparr>res_job = row, res_deduped = False\<rparr>, s1)"
  shows "row = new_job_row cfg rq (gen_uuid out s) (clock s)"
    and "insert_job_error (jobs s) row = None"
    and "run svc (enqueue_new cfg rq) s = (Inr \<lparr>res_job = row, res_deduped = False\<rparr>, s1)"
proof -
  have none: "existing_job s rq = None"
    using assms by (auto simp: run_enqueueJob split: option.splits)
  then show new: "run svc (enqueue_new cfg rq) s = (Inr \<lparr>res_job = row, res_deduped = False\<rparr>, s1)"
    using assms by (simp add: run_enqueueJob_new)
  let ?row = "new_job_row cfg rq (gen_uuid out s) (clock s)"
  have ok: "insert_job_error (jobs s) ?row = None"
    using new run_enqueue_refused [of s cfg rq] by (cases "insert_job_error (jobs s) ?row") auto
  then show "row = ?row" using new run_enqueue_new [OF refl ok refl] by simp
  then show "insert_job_error (jobs s) row = None" using ok by simp
qed

lemma enqueue_fresh_key:
  assumes "run svc (enqueueJob cfg rq) s = (Inr \<lparr>res_job = row, res_deduped = False\<rparr>, s1)"
    and "given (rq_idempotencyKey rq) = Some k"
  shows "strs s1 (idempotencyKey k) = Some (job_id row, clock s + idempotencyTtlSeconds cfg * 1000)"
    and "job_id row \<noteq> ''''" and "idempotency_key row = Some k"
    and "row \<in> set (jobs s1)" and "clock s1 = clock s"
proof -
  note r = enqueue_fresh_result [OF assms(1)]
  have "run svc (enqueue_new cfg rq) s = (Inr \<lparr>res_job = row, res_deduped = False\<rparr>, s1)"
    by (rule r(3))
  then show "strs s1 (idempotencyKey k) = Some (job_id row, clock s + idempotencyTtlSeconds cfg * 1000)"
    and "row \<in> set (jobs s1)" and "clock s1 = clock s"
    using assms(2) by (auto simp: run_enqueue_new [OF r(1,2) refl])
  show "job_id row \<noteq> ''''" using uuid_nonempty by (simp add: r(1))
  show "idempotency_key row = Some k" using assms(2) by (simp add: r(1))
qed

lemma run_enqueue_conflict:
  assumes "given (rq_idempotencyKey rq) = Some k" and "Some k \<in> idempotency_key ` set (jobs s)"
  shows "\<exists>m. run svc (enqueue_new cfg rq) s =
    (Inl (PgError m), s\<lparr>issued := gen_uuid out s # issued s\<rparr>)"
proof -
  have "insert_job_error (jobs s) (new_job_row cfg rq (gen_uuid out s) (clock s)) \<noteq> None"
    using assms by (simp add: insert_job_error_def)
  then show ?thesis using run_enqueue_refused by blast
qed

end

section \<open>Properties\<close>

text \<open>A configuration and requests the witnesses use.\<close>

definition demo_config :: server_config where
  "demo_config = \<lparr>apiKeys = [''dev-key-123''], rateLimitPerMin = 600, maxRetriesDefault = 3,
     idempotencyTtlSeconds = 86400\<rparr>"

definition demo_request :: enqueue_request where
  "demo_request = \<lparr>rq_type = ''noop'', rq_payload = None, rq_priority = Some ''high'',
     rq_delay = None, rq_maxRetries = Some 2, rq_idempotencyKey = Some ''k1''\<rparr>"

definition demo_row :: "string \<Rightarrow> job_status \<Rightarrow> int \<Rightarrow> job_row" where
  "demo_row i st att = \<lparr>job_id = i, job_type = ''noop'', payload = JObj [], priority = ''high'',
     status = st, attempt = att, max_retries = 2, idempotency_key = None, scheduled_for = None,
     created_at = 0, updated_at = 0, completed_at = None, error = None, worker_id = None\<rparr>"

lemmas demo_defs = demo_config_def demo_request_def demo_row_def empty_store_def
lemmas row_defs = new_job_row_def insert_job_error_def job_priority_def Let_def

text \<open>
  Submission. A request that is not a duplicate and whose row Postgres accepts is
  answered with the new row. The row is stored, the event is logged, the envelope is
  written, the idempotency key is reserved for its time to live, and the id goes to exactly
  one place: the list of its priority, or for a delay the delayed set with its execution
  time. Nothing else in the store changes.
\<close>

theorem enqueue_accepted:
  assumes "services svc out" and "existing_job s rq = None"
    and "row = new_job_row cfg rq (gen_uuid out s) (clock s)"
    and "insert_job_error (jobs s) row = None" and "i = job_id row"
  shows "run svc (enqueueJob cfg rq) s =
    (Inr \<lparr>res_job = row, res_deduped = False\<rparr>,
     s\<lparr>jobs := jobs s @ [row],
       job_events := job_events s @ [\<lparr>ev_job = i, ev_status = status row,
           ev_message = Some ''Job created'', ev_created_at = clock s\<rparr>],
       lists := (if scheduled_for row = None
                 then (lists s)(queue_of (priority row) := i # lists s (queue_of (priority row)))
                 else lists s),
       zsets := (case scheduled_for row of None \<Rightarrow> zsets s
                 | Some t \<Rightarrow> (zsets s)(DELAYED_KEY := zadd t i (zsets s DELAYED_KEY))),
       hashes := (hashes s)(JOB_DATA_KEY := (hashes s JOB_DATA_KEY)(i \<mapsto> VEnv (toEnvelope row))),
       strs := (case given (rq_idempotencyKey rq) of None \<Rightarrow> strs s
                | Some k \<Rightarrow> (strs s)(idempotencyKey k \<mapsto>
                     (i, clock s + idempotencyTtlSeconds cfg * 1000))),
       published := published s @ [(EVENTS_CHANNEL, \<lparr>e_jobId = i, e_status = status row,
           e_message = ''Job created'', e_ts = clock s\<rparr>)],
       issued := i # issued s\<rparr>)"
  by (rule trans [OF services.run_enqueueJob_new [OF assms(1,2)]
        services.run_enqueue_new [OF assms(1,3,4) assms(5) [symmetric]]])

theorem enqueue_accepted_witness:
  "\<exists>row s'. run mem_svc (enqueueJob demo_config demo_request) empty_store =
     (Inr \<lparr>res_job = row, res_deduped = False\<rparr>, s') \<and>
     lists s' (queue_of ''high'') = [job_id row] \<and> jobs s' = [row]"
proof -
  let ?row = "new_job_row demo_config demo_request (gen_uuid mem_outside empty_store) (clock empty_store)"
  have "existing_job empty_store demo_request = None"
    by (simp add: existing_job_def demo_defs str_get_def)
  moreover have "insert_job_error (jobs empty_store) ?row = None"
    by (simp add: demo_defs row_defs)
  ultimately show ?thesis
    using enqueue_accepted [OF mem.services_axioms, of empty_store demo_request ?row demo_config
        "job_id ?row"]
    by (auto simp: demo_defs new_job_row_def Let_def)
qed

text \<open>
  A request that Postgres refuses is rejected with the database's error before
  anything is written to Redis: no list, set, hash or key changes, nothing is published
  and no row or event is stored.
\<close>

theorem enqueue_refused:
  assumes "services svc out" and "existing_job s rq = None"
    and "insert_job_error (jobs s) (new_job_row cfg rq (gen_uuid out s) (clock s)) = Some m"
  shows "run svc (enqueueJob cfg rq) s =
    (Inl (PgError m), s\<lparr>issued := gen_uuid out s # issued s\<rparr>)"
  using assms services.run_enqueueJob [OF assms(1)] services.run_enqueue_refused [OF assms(1,3)]
  by simp

theorem enqueue_refused_witness:
  "fst (run mem_svc (enqueueJob demo_config (demo_request\<lparr>rq_priority := Some ''urgent''\<rparr>))
     empty_store) = Inl (PgError ''invalid input value for enum job_priority'')"
  by (subst enqueue_refused [OF mem.services_axioms])
    (simp_all add: existing_job_def demo_defs str_get_def row_defs)

text \<open>
  C13: Deduplication (FR-1.3). After a submission with an idempotency key, a second one
  with the same key and any other fields, while the reservation lives and the row is still
  stored, returns the row as it is now, marked as deduplicated, and changes nothing. Other
  activity in between is allowed as long as it leaves the reservation alone.
\<close>

theorem enqueue_deduplicates:
  assumes "services svc out" and "given (rq_idempotencyKey rq) = Some k"
    and "run svc (enqueueJob cfg rq) s = (Inr \<lparr>res_job = row, res_deduped = False\<rparr>, s1)"
    and "strs s2 (idempotencyKey k) = strs s1 (idempotencyKey k)"
    and "clock s2 < clock s + idempotencyTtlSeconds cfg * 1000"
    and "get_row (job_id row) (jobs s2) = Some now_row"
    and "given (rq_idempotencyKey rq') = Some k"
  shows "run svc (enqueueJob cfg' rq') s2 = (Inr \<lparr>res_job = now_row, res_deduped = True\<rparr>, s2)"
  using services.enqueue_fresh_key(1,2) [OF assms(1,3,2)] assms(4-7)
  by (simp add: services.run_enqueueJob [OF assms(1)] existing_job_def str_get_def)

theorem enqueue_deduplicates_witness:
  "\<exists>row s1. run mem_svc (enqueueJob demo_config demo_request) empty_store =
       (Inr \<lparr>res_job = row, res_deduped = False\<rparr>, s1) \<and>
     run mem_svc (enqueueJob demo_config (demo_request\<lparr>rq_type := ''send_email''\<rparr>))
         (s1\<lparr>clock := 1000\<rparr>) =
       (Inr \<lparr>res_job = row, res_deduped = True\<rparr>, s1\<lparr>clock := 1000\<rparr>)"
proof -
  let ?r1 = "run mem_svc (enqueueJob demo_config demo_request) empty_store"
  obtain row s1 where r1: "?r1 = (Inr \<lparr>res_job = row, res_deduped = False\<rparr>, s1)"
    and "jobs s1 = [row]"
    using mem.run_enqueueJob_new [of empty_store demo_request demo_config]
      mem.run_enqueue_new [OF refl _ refl, of empty_store demo_config demo_request]
    by (simp add: existing_job_def demo_defs str_get_def row_defs)
  then have "run mem_svc (enqueueJob demo_config (demo_request\<lparr>rq_type := ''send_email''\<rparr>))
         (s1\<lparr>clock := 1000\<rparr>) =
       (Inr \<lparr>res_job = row, res_deduped = True\<rparr>, s1\<lparr>clock := 1000\<rparr>)"
    by (intro enqueue_deduplicates [OF mem.services_axioms _ r1, of "''k1''"])
      (simp_all add: demo_defs)
  then show ?thesis using r1 by blast
qed

text \<open>
  C21: Once the reservation in Redis has expired, the same idempotency key cannot be
  submitted again: the row of the first job still holds the key, and the partial unique
  index on \<open>jobs.idempotency_key\<close> makes the \<open>INSERT\<close> fail, so the request ends in an error
  and no job is queued, although the duplicate check has let it through.
\<close>

theorem enqueue_after_ttl_conflicts:
  assumes "services svc out" and "given (rq_idempotencyKey rq) = Some k"
    and "run svc (enqueueJob cfg rq) s = (Inr \<lparr>res_job = row, res_deduped = False\<rparr>, s1)"
    and "clock s + idempotencyTtlSeconds cfg * 1000 \<le> t"
    and "given (rq_idempotencyKey rq') = Some k"
  shows "\<exists>m. run svc (enqueueJob cfg' rq') (s1\<lparr>clock := t\<rparr>) =
    (Inl (PgError m), s1\<lparr>clock := t, issued := gen_uuid out (s1\<lparr>clock := t\<rparr>) # issued s1\<rparr>)"
proof -
  note k = services.enqueue_fresh_key [OF assms(1,3,2)]
  have "existing_job (s1\<lparr>clock := t\<rparr>) rq' = None"
    using k(1) assms(4,5) by (simp add: existing_job_def str_get_def)
  moreover have "Some k \<in> idempotency_key ` set (jobs (s1\<lparr>clock := t\<rparr>))"
    using k(3,4) by force
  ultimately show ?thesis
    using services.run_enqueueJob_new [OF assms(1)]
      services.run_enqueue_conflict [OF assms(1,5), of "s1\<lparr>clock := t\<rparr>" cfg'] by simp
qed

theorem enqueue_after_ttl_conflicts_witness:
  "\<exists>row s1 m. run mem_svc (enqueueJob demo_config demo_request) empty_store =
       (Inr \<lparr>res_job = row, res_deduped = False\<rparr>, s1) \<and>
     fst (run mem_svc (enqueueJob demo_config demo_request) (s1\<lparr>clock := 86400000\<rparr>)) = Inl (PgError m)"
proof -
  let ?r1 = "run mem_svc (enqueueJob demo_config demo_request) empty_store"
  obtain row s1 where r1: "?r1 = (Inr \<lparr>res_job = row, res_deduped = False\<rparr>, s1)"
    using mem.run_enqueueJob_new [of empty_store demo_request demo_config]
      mem.run_enqueue_new [OF refl _ refl, of empty_store demo_config demo_request]
    by (simp add: existing_job_def demo_defs str_get_def row_defs)
  then have "\<exists>m. run mem_svc (enqueueJob demo_config demo_request) (s1\<lparr>clock := 86400000\<rparr>) =
      (Inl (PgError m), s1\<lparr>clock := 86400000,
         issued := gen_uuid mem_outside (s1\<lparr>clock := 86400000\<rparr>) # issued s1\<rparr>)"
    by (intro enqueue_after_ttl_conflicts [OF mem.services_axioms _ r1, of "''k1''"])
      (simp_all add: demo_defs)
  then show ?thesis using r1 by fastforce
qed

text \<open>
  Manual retry (FR-4.3). An unknown id gives null; a job in another state than dead or
  failed is refused and nothing changes; a dead or failed job becomes queued with its
  error and worker cleared and is pushed to the list of its priority with a fresh
  envelope. The attempt counter is kept, so the envelope continues where the job died.
\<close>

theorem retry_outcomes:
  assumes "services svc out"
  shows "case get_row i (jobs s) of
      None \<Rightarrow> run svc (retryJob i) s = (Inr None, s)
    | Some job \<Rightarrow>
        if status job \<notin> {Dead, Failed} then \<exists>m. run svc (retryJob i) s = (Inl (InvalidState m), s)
        else priority job \<in> set PRIORITIES \<longrightarrow>
          (\<exists>new s'. run svc (retryJob i) s = (Inr (Some new), s') \<and>
             new = job\<lparr>status := Queued, error := None, worker_id := None, updated_at := clock s\<rparr> \<and>
             get_row i (jobs s') = Some new \<and>
             lists s' = (lists s)(queue_of (priority job) := i # lists s (queue_of (priority job))) \<and>
             data_of s' i = Some (toEnvelope new) \<and> attempt new = attempt job \<and>
             zsets s' = zsets s)"
proof (cases "get_row i (jobs s)")
  case None
  then show ?thesis using services.run_retryJob_missing [OF assms] by simp
next
  case (Some job)
  then show ?thesis
    using services.run_retryJob_refused [OF assms Some]
      services.run_retryJob [OF assms Some _ _ refl]
    by (auto simp: data_of_Some)
qed

theorem retry_outcomes_witness:
  "\<exists>new s'. run mem_svc (retryJob ''a'') (empty_store\<lparr>jobs := [demo_row ''a'' Dead 3]\<rparr>) =
     (Inr (Some new), s') \<and> attempt new = 3 \<and> lists s' (queue_of ''high'') = [''a'']"
  using retry_outcomes [OF mem.services_axioms, of "''a''" "empty_store\<lparr>jobs := [demo_row ''a'' Dead 3]\<rparr>"]
  by (auto simp: demo_defs PRIORITIES_def)

text \<open>
  Cancellation. A queued or delayed job of a known priority is removed from its list
  (every copy), from the delayed set and from the job data, and becomes failed with the
  operator's message. Every other job keeps its place, its data and its row.
\<close>

theorem cancel_removes_job:
  assumes "services svc out" and "get_row i (jobs s) = Some job"
    and "status job \<in> {Queued, Delayed}" and "priority job \<in> set PRIORITIES"
  shows "\<exists>row s'. run svc (cancelJob i) s = (Inr (Some row), s') \<and>
    get_row i (jobs s') = Some row \<and> status row = Failed \<and>
    error row = Some ''Cancelled by operator'' \<and>
    i \<notin> set (lists s' (queue_of (priority job))) \<and> i \<notin> zmembers (zsets s' DELAYED_KEY) \<and>
    data_of s' i = None \<and>
    (\<forall>j p. j \<noteq> i \<longrightarrow> count_list (lists s' (queue_of p)) j = count_list (lists s (queue_of p)) j \<and>
       (j \<in> zmembers (zsets s' DELAYED_KEY) \<longleftrightarrow> j \<in> zmembers (zsets s DELAYED_KEY)) \<and>
       data_of s' j = data_of s j \<and> get_row j (jobs s') = get_row j (jobs s))"
  using services.run_cancelJob [OF assms] assms(2) by (auto simp: data_of_def)

theorem cancel_removes_job_witness:
  "\<exists>row s'. run mem_svc (cancelJob ''a'')
      (empty_store\<lparr>jobs := [demo_row ''a'' Queued 0], lists := (\<lambda>_. [])(queue_of ''high'' := [''b'', ''a''])\<rparr>) =
     (Inr (Some row), s') \<and> status row = Failed \<and> ''a'' \<notin> set (lists s' (queue_of ''high''))"
  using cancel_removes_job [OF mem.services_axioms, of "''a''"
      "empty_store\<lparr>jobs := [demo_row ''a'' Queued 0], lists := (\<lambda>_. [])(queue_of ''high'' := [''b'', ''a''])\<rparr>"
      "demo_row ''a'' Queued 0"]
  by (auto simp: demo_defs PRIORITIES_def)

text \<open>
  C16: Promotion (FR-2.2). With the data of every due job in place, one pass moves exactly
  the first \<open>limit\<close> members of the delayed set whose execution time has come, in that order,
  each to the list of its priority and each once, marks their rows queued, and counts them.
  No job is moved before its time, and nothing else leaves the delayed set.
\<close>

theorem promote_moves_due_jobs:
  assumes "services svc out" and "zset_wf (zsets s DELAYED_KEY)"
    and "due = zrange 0 (clock s) 0 limit (zsets s DELAYED_KEY)"
    and "\<forall>i \<in> set due. promotable s i"
  shows "\<exists>s'. run svc (promoteDueDelayedJobs limit) s = (Inr (length due), s') \<and>
    (\<forall>p. lists s' (queue_of p) =
         rev (filter (\<lambda>i. data_priority s i = p) due) @ lists s (queue_of p)) \<and>
    (\<forall>w. lists s' (processingKey w) = lists s (processingKey w)) \<and>
    zsets s' DELAYED_KEY = filter (\<lambda>e. zmember e \<notin> set due) (zsets s DELAYED_KEY) \<and>
    (\<forall>i \<in> set due. (\<exists>e \<in> set (zsets s DELAYED_KEY). zmember e = i \<and> zscore e \<le> clock s) \<and>
       (\<exists>r. get_row i (jobs s') = Some r \<and> status r = Queued)) \<and>
    (\<forall>i. i \<notin> set due \<longrightarrow> get_row i (jobs s') = get_row i (jobs s))"
proof -
  have "distinct due" using distinct_zrange [OF assms(2)] assms(3) by simp
  from services.run_promote_each [OF assms(1) this assms(4), of 0]
  obtain s' where "run svc (promote_each due 0) s = (Inr (length due), s')"
    "\<forall>p. lists s' (queue_of p) =
         rev (filter (\<lambda>i. data_priority s i = p) due) @ lists s (queue_of p)"
    "\<forall>w. lists s' (processingKey w) = lists s (processingKey w)"
    "zsets s' DELAYED_KEY = filter (\<lambda>e. zmember e \<notin> set due) (zsets s DELAYED_KEY)"
    and rows: "\<forall>i. get_row i (jobs s') =
       (if i \<in> set due then map_option (promoted_row (clock s)) (get_row i (jobs s))
        else get_row i (jobs s))" by auto
  moreover have "run svc (promoteDueDelayedJobs limit) s = run svc (promote_each due 0) s"
    using services.run_promoteDue [OF assms(1)] assms(3) by simp
  moreover have "\<exists>r. get_row i (jobs s') = Some r \<and> status r = Queued" if "i \<in> set due" for i
    using that rows assms(4) by (auto simp: promotable_def ids_get_row promoted_row_def)
  moreover have "\<exists>e \<in> set (zsets s DELAYED_KEY). zmember e = i \<and> zscore e \<le> clock s" if "i \<in> set due" for i
    using set_zrange that unfolding assms(3) by blast
  ultimately show ?thesis by (intro exI [of _ s']) auto
qed

definition demo_envelope :: "string \<Rightarrow> int \<Rightarrow> envelope" where
  "demo_envelope i att = \<lparr>env_id = i, env_type = ''noop'', env_payload = JObj [],
     env_priority = ''high'', env_attempt = att, env_maxRetries = 2\<rparr>"

definition demo_delayed :: store where
  "demo_delayed = empty_store\<lparr>clock := 50,
     jobs := [demo_row ''a'' Delayed 1, demo_row ''b'' Delayed 0],
     zsets := (\<lambda>_. [])(DELAYED_KEY := [ZEntry 40 ''a'', ZEntry 60 ''b'']),
     hashes := (\<lambda>_. Map.empty)(JOB_DATA_KEY := [''a'' \<mapsto> VEnv (demo_envelope ''a'' 1),
                                                ''b'' \<mapsto> VEnv (demo_envelope ''b'' 0)])\<rparr>"

theorem promote_moves_due_jobs_witness:
  "\<exists>s'. run mem_svc (promoteDueDelayedJobs 100) demo_delayed = (Inr 1, s') \<and>
     lists s' (queue_of ''high'') = [''a''] \<and> zsets s' DELAYED_KEY = [ZEntry 60 ''b'']"
proof -
  have due: "zrange 0 (clock demo_delayed) 0 100 (zsets demo_delayed DELAYED_KEY) = [''a'']"
    by (simp add: zrange_def demo_delayed_def)
  have wf: "zset_wf (zsets demo_delayed DELAYED_KEY)"
    by (simp add: demo_delayed_def zset_wf_def less_eq_zentry_def)
  have "\<forall>i \<in> set [''a'']. promotable demo_delayed i"
    by (simp add: promotable_def demo_delayed_def zmembers_def data_of_Some demo_row_def
        demo_envelope_def PRIORITIES_def)
  then show ?thesis
    using promote_moves_due_jobs [OF mem.services_axioms wf due [symmetric]]
    by (auto simp: demo_delayed_def empty_store_def data_priority_def data_of_def demo_envelope_def)
qed

text \<open>
  Listing (FR-6.2). For every combination of filters the numbered placeholders of the
  assembled statement bind the right parameters: page \<open>p\<close> holds the jobs that match the
  status and type asked for, newest first, from \<open>(p - 1) * pageSize\<close> on and at most \<open>pageSize\<close> of them,
  the total counts all matches, and listing changes nothing. A page below 1 is page 1.
\<close>

theorem list_page_contents:
  assumes "services svc out" and "0 \<le> pageSize"
  shows "run svc (listJobs st ty page pageSize) s =
    (Inr \<lparr>lr_jobs = take (nat pageSize) (drop (nat ((max 1 page - 1) * pageSize))
            (jobs_desc out (filter (matches st ty) (jobs s)))),
          lr_total = int (length (filter (matches st ty) (jobs s))),
          lr_page = page, lr_pageSize = pageSize\<rparr>, s)"
  by (rule services.run_listJobs [OF assms])

theorem list_page_contents_witness:
  "fst (run mem_svc (listJobs (Some Dead) (Some ''noop'') 1 25)
      (empty_store\<lparr>jobs := [demo_row ''a'' Dead 3, demo_row ''b'' Queued 0]\<rparr>)) =
    Inr \<lparr>lr_jobs = [demo_row ''a'' Dead 3], lr_total = 1, lr_page = 1, lr_pageSize = 25\<rparr>"
  by (subst list_page_contents [OF mem.services_axioms])
    (simp_all add: mem_outside_def matches_def demo_defs)

text \<open>
  Walking the pages 1 to \<open>m\<close> of a fixed store with a positive page size shows every
  matching job exactly once when \<open>m\<close> pages hold them all: the pages put together are the
  matching rows in their order.
\<close>

theorem list_pages_cover:
  assumes "services svc out" and "0 < n"
    and "length (filter (matches st ty) (jobs s)) \<le> m * n"
  shows "\<exists>xs. mset xs = mset (filter (matches st ty) (jobs s)) \<and>
    sorted_wrt (\<ge>) (map created_at xs) \<and>
    concat (map (\<lambda>k. case fst (run svc (listJobs st ty (int k + 1) (int n)) s) of
        Inl e \<Rightarrow> [] | Inr res \<Rightarrow> lr_jobs res) [0..<m]) = xs"
proof -
  let ?xs = "jobs_desc out (filter (matches st ty) (jobs s))"
  note pg = services.axioms(2) [OF assms(1)]
  have m: "mset ?xs = mset (filter (matches st ty) (jobs s))"
    by (rule postgres_service.jobs_desc(1) [OF pg])
  have len: "length ?xs \<le> m * n" using mset_eq_length [OF m] assms(3) by simp
  have "(case fst (run svc (listJobs st ty (int k + 1) (int n)) s) of
        Inl e \<Rightarrow> [] | Inr res \<Rightarrow> lr_jobs res) = take n (drop (k * n) ?xs)" for k
    using services.run_listJobs [OF assms(1), of "int n" st ty "int k + 1" s]
    by (simp add: nat_mult_distrib)
  then show ?thesis
    using len m postgres_service.jobs_desc(2) [OF pg] by (simp add: concat_pages)
qed

theorem list_pages_cover_witness:
  "\<exists>xs. mset xs = {#demo_row ''a'' Dead 3, demo_row ''b'' Dead 0#} \<and>
    concat (map (\<lambda>k. case fst (run mem_svc (listJobs None None (int k + 1) (int 1))
        (empty_store\<lparr>jobs := [demo_row ''a'' Dead 3, demo_row ''b'' Dead 0]\<rparr>)) of
        Inl e \<Rightarrow> [] | Inr res \<Rightarrow> lr_jobs res) [0..<2]) = xs"
  using list_pages_cover [OF mem.services_axioms, of 1 None None
      "empty_store\<lparr>jobs := [demo_row ''a'' Dead 3, demo_row ''b'' Dead 0]\<rparr>" 2]
  by (auto simp: matches_def)

text \<open>
  Statistics (FR-6.4). The depths are the lengths of the three lists and of the delayed
  set, the dead-letter count is the number of dead rows, \<open>byStatus\<close> lists exactly the
  statuses that occur, each with its count, and reading them changes nothing.
\<close>

theorem stats_are_counts:
  assumes "services svc out"
  shows "\<exists>st. run svc getQueueStats s = (Inr st, s) \<and>
     depth_high st = int (length (lists s (queue_of ''high''))) \<and>
     depth_normal st = int (length (lists s (queue_of ''normal''))) \<and>
     depth_low st = int (length (lists s (queue_of ''low''))) \<and>
     depth_delayed st = int (length (zsets s DELAYED_KEY)) \<and>
     dlqCount st = count_status (jobs s) Dead \<and>
     (\<forall>x n. (x, n) \<in> set (byStatus st) \<longleftrightarrow> n = count_status (jobs s) x \<and> n > 0)"
  by (rule services.run_getQueueStats [OF assms])

theorem stats_are_counts_witness:
  "\<exists>st. run mem_svc getQueueStats demo_delayed = (Inr st, demo_delayed) \<and> depth_delayed st = 2"
  using stats_are_counts [OF mem.services_axioms, of demo_delayed]
  by (auto simp: demo_delayed_def)

end
