(* ===== verification/Claim.thy ===== *)
theory Claim
  imports Queue
begin

text \<open>
  \<open>packages/worker/src/claim.js\<close>: claiming the next job with one atomic move per priority,
  releasing it, and the heartbeat.
\<close>

section \<open>The operations\<close>

text \<open>
  The envelope is \<^term>\<open>None\<close> for the bare object \<open>{ id }\<close> that stands in for missing job
  data: every other property of it is \<open>undefined\<close>.
\<close>

record claimed =
  cl_id :: string
  cl_priority :: string
  cl_envelope :: "envelope option"

fun parse_envelope :: "reply \<Rightarrow> envelope option" where
  "parse_envelope (RVal (VEnv e)) = Some e"
| "parse_envelope _ = None"

primrec claim_from :: "string \<Rightarrow> int \<Rightarrow> string list \<Rightarrow> claimed option prog" where
  "claim_from workerId blockSeconds [] = Ret None"
| "claim_from workerId blockSeconds (prio # rest) =
     (let isLast = (prio = PRIORITIES ! (length PRIORITIES - 1)) in
      sync_call (queueKey prio) (\<lambda>key.
      call (Redis (if isLast then BLMOVE key (processingKey workerId) RIGHT LEFT blockSeconds
                   else LMOVE key (processingKey workerId) RIGHT LEFT)) (\<lambda>moved.
      if the_str moved \<noteq> '''' then
        let i = the_str moved in
        call Now (\<lambda>now.
        call (Redis (HSET HEARTBEATS_KEY i (VTime (the_int now)))) (\<lambda>_.
        call (Redis (HGET JOB_DATA_KEY i)) (\<lambda>raw.
        Ret (Some \<lparr>cl_id = i, cl_priority = prio, cl_envelope = parse_envelope raw\<rparr>))))
      else claim_from workerId blockSeconds rest)))"

definition claimNextJob :: "string \<Rightarrow> int \<Rightarrow> claimed option prog" where
  "claimNextJob workerId blockSeconds = claim_from workerId blockSeconds PRIORITIES"

definition releaseJob :: "string \<Rightarrow> string \<Rightarrow> unit prog" where
  "releaseJob workerId jobId =
     call (Redis (LREM (processingKey workerId) jobId)) (\<lambda>_.
     call (Redis (HDEL HEARTBEATS_KEY jobId)) (\<lambda>_. Ret ()))"

definition heartbeat :: "string \<Rightarrow> unit prog" where
  "heartbeat jobId =
     call Now (\<lambda>now. call (Redis (HSET HEARTBEATS_KEY jobId (VTime (the_int now)))) (\<lambda>_. Ret ()))"

section \<open>Running the operations\<close>

text \<open>The first priority with a job waiting.\<close>

definition first_ready :: "store \<Rightarrow> string option" where
  "first_ready s = find (\<lambda>p. lists s (queue_of p) \<noteq> []) PRIORITIES"

definition claim_store :: "string \<Rightarrow> string \<Rightarrow> store \<Rightarrow> store" where
  "claim_store w p s =
     (let q = lists s (queue_of p); i = last q in
      s\<lparr>lists := (lists s)(queue_of p := butlast q,
                          processingKey w := i # lists s (processingKey w)),
        hashes := (hashes s)(HEARTBEATS_KEY := (hashes s HEARTBEATS_KEY)(i \<mapsto> VTime (clock s)))\<rparr>)"

lemma pop_right: "xs \<noteq> [] \<Longrightarrow> pop_side RIGHT xs = Some (last xs, butlast xs)"
  by (cases xs) auto

lemma move_queue:
  "move (queue_of p) (processingKey w) RIGHT LEFT s =
    (if lists s (queue_of p) = [] then (RNil, s)
     else (RStr (last (lists s (queue_of p))),
       s\<lparr>lists := (lists s)(queue_of p := butlast (lists s (queue_of p)),
           processingKey w := last (lists s (queue_of p)) # lists s (processingKey w))\<rparr>))"
  by (simp add: move_def pop_right)

text \<open>Ids are never empty strings; an empty id would look like no job.\<close>

definition ids_nonempty :: "store \<Rightarrow> bool" where
  "ids_nonempty s \<longleftrightarrow> (\<forall>p \<in> set PRIORITIES. '''' \<notin> set (lists s (queue_of p)))"

context services begin

text \<open>Whether the move blocks or not, it moves the same element.\<close>

lemma move_either:
  "svc (Redis (if c then BLMOVE k d x y n else LMOVE k d x y)) s =
    (Inr (fst (move k d x y s)), snd (move k d x y s))"
  by (simp add: laws)

lemma claim_from_skip:
  "lists s (queue_of p) = [] \<Longrightarrow> p \<in> set PRIORITIES \<Longrightarrow>
    run svc (claim_from w b (p # ps)) s = run svc (claim_from w b ps) s"
  by (simp add: prog_run move_either Let_def queueKey_ok move_queue)

lemma claim_from_hit:
  assumes "lists s (queue_of p) \<noteq> []" and "p \<in> set PRIORITIES" and "ids_nonempty s"
  shows "run svc (claim_from w b (p # ps)) s =
    (Inr (Some \<lparr>cl_id = last (lists s (queue_of p)), cl_priority = p,
                cl_envelope = data_of s (last (lists s (queue_of p)))\<rparr>), claim_store w p s)"
proof -
  let ?i = "last (lists s (queue_of p))"
  have ne: "?i \<noteq> ''''" using assms last_in_set unfolding ids_nonempty_def by metis
  have env: "parse_envelope (case hashes s JOB_DATA_KEY ?i of None \<Rightarrow> RNil | Some v \<Rightarrow> RVal v) =
      data_of s ?i"
    by (auto simp: data_of_def split: option.split rval.split)
  show ?thesis
    using assms(1,2) ne env
    by (simp add: prog_run move_either laws Let_def queueKey_ok move_queue claim_store_def)
qed

lemma run_claim_from:
  assumes "ids_nonempty s" and "set ps \<subseteq> set PRIORITIES"
  shows "run svc (claim_from w b ps) s =
    (case find (\<lambda>p. lists s (queue_of p) \<noteq> []) ps of
       None \<Rightarrow> (Inr None, s)
     | Some p \<Rightarrow> (Inr (Some \<lparr>cl_id = last (lists s (queue_of p)), cl_priority = p,
           cl_envelope = data_of s (last (lists s (queue_of p)))\<rparr>), claim_store w p s))"
  using assms(2)
proof (induction ps)
  case (Cons p ps)
  then show ?case
    using claim_from_skip [of s p] claim_from_hit [OF _ _ assms(1), of p] by simp
qed simp

lemma run_claimNextJob:
  assumes "ids_nonempty s"
  shows "run svc (claimNextJob w b) s =
    (case first_ready s of
       None \<Rightarrow> (Inr None, s)
     | Some p \<Rightarrow> (Inr (Some \<lparr>cl_id = last (lists s (queue_of p)), cl_priority = p,
           cl_envelope = data_of s (last (lists s (queue_of p)))\<rparr>), claim_store w p s))"
  using run_claim_from [OF assms, of PRIORITIES] by (simp add: claimNextJob_def first_ready_def)

lemma run_releaseJob [simp]:
  "run svc (releaseJob w i) s =
    (Inr (), s\<lparr>lists := (lists s)(processingKey w := removeAll i (lists s (processingKey w))),
       hashes := (hashes s)(HEARTBEATS_KEY := (hashes s HEARTBEATS_KEY)(i := None))\<rparr>)"
  by (simp add: releaseJob_def prog_run laws)

lemma run_heartbeat [simp]:
  "run svc (heartbeat i) s =
    (Inr (), s\<lparr>hashes := (hashes s)(HEARTBEATS_KEY :=
        (hashes s HEARTBEATS_KEY)(i \<mapsto> VTime (clock s)))\<rparr>)"
  by (simp add: heartbeat_def prog_run laws)

end

section \<open>First in, first out\<close>

text \<open>
  The contract of one line: what is taken is what was put in first. The Redis list of a
  priority provides it with \<open>LPUSH\<close> and a move from the right.
\<close>

locale fifo_queue =
  fixes enq :: "'a \<Rightarrow> 'q \<Rightarrow> 'q" and deq :: "'q \<Rightarrow> ('a \<times> 'q) option" and seq_of :: "'q \<Rightarrow> 'a list"
  assumes seq_enq: "seq_of (enq x q) = seq_of q @ [x]"
    and deq_None: "deq q = None \<longleftrightarrow> seq_of q = []"
    and deq_Some: "deq q = Some (x, q') \<Longrightarrow> seq_of q = x # seq_of q'"
begin

lemma seq_enq_all: "seq_of (fold enq xs q) = seq_of q @ xs"
  by (induction xs arbitrary: q) (simp_all add: seq_enq)

lemma deq_Cons: "seq_of q = x # xs \<Longrightarrow> \<exists>q'. deq q = Some (x, q') \<and> seq_of q' = xs"
  using deq_None [of q] deq_Some [of q] by (cases "deq q") auto

lemma overtaking_impossible:
  assumes "seq_of q = []" and "deq (enq y (enq x q)) = Some (z, q')"
  shows "z = x \<and> seq_of q' = [y]"
  using deq_Some [OF assms(2)] assms(1) by (simp add: seq_enq)

end

interpretation line: fifo_queue "push_side LEFT" "pop_side RIGHT" rev
proof unfold_locales
  show "rev (push_side LEFT x q) = rev q @ [x]" for x q by simp
  show "pop_side RIGHT q = None \<longleftrightarrow> rev q = []" for q by (cases q) auto
  show "rev q = x # rev q'" if "pop_side RIGHT q = Some (x, q')" for q x q'
    using that by (cases q rule: rev_cases) (auto simp: pop_right)
qed

lemma rev_last_butlast: "xs \<noteq> [] \<Longrightarrow> rev xs = last xs # rev (butlast xs)"
  for xs :: "string list"
  using line.deq_Some [of xs "last xs" "butlast xs"] by (simp add: pop_right)

section \<open>The queues as an abstract object\<close>

text \<open>
  What the queue promises its users: per priority a first-in first-out line, per worker
  the jobs it holds. \<open>abs_queue\<close> reads it off the Redis lists, whose left end is the newest.
\<close>

record abs_queue =
  ready :: "string \<Rightarrow> string list"
  held :: "string \<Rightarrow> string list"

definition abs_queue_of :: "store \<Rightarrow> abs_queue" where
  "abs_queue_of s = \<lparr>ready = (\<lambda>p. rev (lists s (queue_of p))), held = (\<lambda>w. lists s (processingKey w))\<rparr>"

definition a_submit :: "string \<Rightarrow> string \<Rightarrow> abs_queue \<Rightarrow> abs_queue" where
  "a_submit p i a = a\<lparr>ready := (ready a)(p := ready a p @ [i])\<rparr>"

definition a_claim :: "string \<Rightarrow> abs_queue \<Rightarrow> string option \<times> abs_queue" where
  "a_claim w a =
     (case find (\<lambda>p. ready a p \<noteq> []) PRIORITIES of
        None \<Rightarrow> (None, a)
      | Some p \<Rightarrow> (Some (hd (ready a p)),
          a\<lparr>ready := (ready a)(p := tl (ready a p)), held := (held a)(w := hd (ready a p) # held a w)\<rparr>))"

definition a_release :: "string \<Rightarrow> string \<Rightarrow> abs_queue \<Rightarrow> abs_queue" where
  "a_release w i a = a\<lparr>held := (held a)(w := removeAll i (held a w))\<rparr>"

lemma abs_first_ready: "find (\<lambda>p. ready (abs_queue_of s) p \<noteq> []) PRIORITIES = first_ready s"
  by (simp add: abs_queue_of_def first_ready_def)

lemma rev_butlast: "rev (butlast xs) = tl (rev xs)"
  for xs :: "string list"
  by (cases "xs = []") (simp_all add: rev_last_butlast)

lemma first_ready_Some: "first_ready s = Some p \<Longrightarrow> lists s (queue_of p) \<noteq> [] \<and> p \<in> set PRIORITIES"
  by (auto simp: first_ready_def find_Some_iff)

lemma abs_claim_store:
  assumes "lists s (queue_of p) \<noteq> []"
  shows "abs_queue_of (claim_store w p s) =
    (abs_queue_of s)\<lparr>ready := (ready (abs_queue_of s))(p := tl (ready (abs_queue_of s) p)),
       held := (held (abs_queue_of s))(w := last (lists s (queue_of p)) # held (abs_queue_of s) w)\<rparr>"
  by (auto simp: abs_queue_of_def claim_store_def Let_def rev_butlast fun_eq_iff)

context services begin

lemma claim_refines:
  assumes "ids_nonempty s"
  shows "(case run svc (claimNextJob w b) s of
      (r, s') \<Rightarrow> (case r of Inl e \<Rightarrow> None | Inr c \<Rightarrow> map_option cl_id c, abs_queue_of s')) =
    a_claim w (abs_queue_of s)"
proof (cases "first_ready s")
  case None
  then show ?thesis
    by (simp add: run_claimNextJob [OF assms] a_claim_def abs_first_ready)
next
  case (Some p)
  have ne: "lists s (queue_of p) \<noteq> []" using first_ready_Some [OF Some] by simp
  then have "hd (ready (abs_queue_of s) p) = last (lists s (queue_of p))"
    by (simp add: abs_queue_of_def hd_rev)
  then show ?thesis
    using Some by (simp add: run_claimNextJob [OF assms] a_claim_def abs_first_ready
        abs_claim_store [OF ne])
qed

end

section \<open>The order of claims\<close>

text \<open>All waiting jobs in the order in which they will be claimed.\<close>

definition claim_order :: "store \<Rightarrow> string list" where
  "claim_order s = concat (map (\<lambda>p. rev (lists s (queue_of p))) PRIORITIES)"

lemma claim_order_eq:
  "claim_order s = rev (lists s (queue_of ''high'')) @ rev (lists s (queue_of ''normal'')) @
     rev (lists s (queue_of ''low''))"
  by (simp add: claim_order_def PRIORITIES_def)

text \<open>A sequence of claims by the workers \<open>ws\<close>, and what each of them got.\<close>

primrec claim_all :: "service \<Rightarrow> int \<Rightarrow> string list \<Rightarrow> store \<Rightarrow> string option list \<times> store" where
  "claim_all svc b [] s = ([], s)"
| "claim_all svc b (w # ws) s =
     (case run svc (claimNextJob w b) s of
        (r, s1) \<Rightarrow> (case claim_all svc b ws s1 of
          (rs, s2) \<Rightarrow> ((case r of Inl e \<Rightarrow> None | Inr c \<Rightarrow> map_option cl_id c) # rs, s2)))"

lemma first_ready_None: "first_ready s = None \<longleftrightarrow> claim_order s = []"
  by (auto simp: first_ready_def claim_order_eq PRIORITIES_def split: if_splits)

lemma claim_store_other [simp]:
  "q \<noteq> p \<Longrightarrow> lists (claim_store w p s) (queue_of q) = lists s (queue_of q)"
  "lists (claim_store w p s) (queue_of p) = butlast (lists s (queue_of p))"
  by (auto simp: claim_store_def Let_def)

lemma claim_order_claim:
  assumes "first_ready s = Some p"
  shows "claim_order s = last (lists s (queue_of p)) # claim_order (claim_store w p s)"
  using assms
  by (auto simp: first_ready_def claim_order_eq PRIORITIES_def rev_last_butlast
      split: if_splits)

lemma ids_nonempty_claim: "ids_nonempty s \<Longrightarrow> ids_nonempty (claim_store w p s)"
  by (auto simp: ids_nonempty_def claim_store_def Let_def dest: in_set_butlastD)

context services begin

lemma claim_all_order:
  assumes "ids_nonempty s"
  shows "fst (claim_all svc b ws s) =
    map Some (take (length ws) (claim_order s)) @
    replicate (length ws - length (claim_order s)) None"
  using assms
proof (induction ws arbitrary: s)
  case (Cons w ws)
  show ?case
  proof (cases "first_ready s")
    case None
    then show ?thesis
      using Cons None first_ready_None [of s] by (simp add: run_claimNextJob case_prod_beta)
  next
    case (Some p)
    show ?thesis
      using Cons.IH [OF ids_nonempty_claim [OF Cons.prems]] Cons.prems Some
        claim_order_claim [OF Some, of w]
      by (simp add: run_claimNextJob case_prod_beta)
  qed
qed simp

end
section \<open>Properties\<close>

definition demo_queues :: store where
  "demo_queues = empty_store\<lparr>clock := 7,
     lists := (\<lambda>_. [])(queue_of ''high'' := [''b'', ''a''], queue_of ''low'' := [''c'']),
     jobs := [demo_row ''a'' Queued 0, demo_row ''b'' Queued 0, demo_row ''c'' Queued 0],
     hashes := (\<lambda>_. Map.empty)(JOB_DATA_KEY := [''a'' \<mapsto> VEnv (demo_envelope ''a'' 0)])\<rparr>"

lemma demo_queues_nonempty: "ids_nonempty demo_queues"
  by (simp add: ids_nonempty_def demo_queues_def empty_store_def PRIORITIES_def)

text \<open>
  Claiming (FR-3.1). With nothing waiting a claim returns null and changes nothing.
  Otherwise the oldest id of the first priority with jobs, in the order high, normal, low,
  leaves its list and enters the worker's processing list in the same step, its heartbeat is
  set to the present, and the claim carries the job data stored for it. No other list, no
  row, no other heartbeat changes.
\<close>

theorem claim_next_job:
  assumes "services svc out" and "ids_nonempty s"
  shows "(if claim_order s = [] then run svc (claimNextJob w b) s = (Inr None, s)
    else \<exists>p c s'. run svc (claimNextJob w b) s = (Inr (Some c), s') \<and>
      first_ready s = Some p \<and> cl_priority c = p \<and>
      cl_id c = last (lists s (queue_of p)) \<and> cl_envelope c = data_of s (cl_id c) \<and>
      lists s' = (lists s)(queue_of p := butlast (lists s (queue_of p)),
                           processingKey w := cl_id c # lists s (processingKey w)) \<and>
      hashes s' = (hashes s)(HEARTBEATS_KEY :=
                    (hashes s HEARTBEATS_KEY)(cl_id c \<mapsto> VTime (clock s))) \<and>
      jobs s' = jobs s \<and> zsets s' = zsets s)"
  using services.run_claimNextJob [OF assms, of w b] first_ready_None [of s]
  by (cases "first_ready s") (auto simp: claim_store_def Let_def)

theorem claim_next_job_witness:
  "\<exists>c s'. run mem_svc (claimNextJob ''w1'' 1) demo_queues = (Inr (Some c), s') \<and>
     cl_id c = ''a'' \<and> lists s' (processingKey ''w1'') = [''a'']"
proof -
  have "claim_order demo_queues \<noteq> []" and "first_ready demo_queues = Some ''high''"
    by (simp_all add: claim_order_eq first_ready_def PRIORITIES_def demo_queues_def empty_store_def)
  then show ?thesis
    using claim_next_job [OF mem.services_axioms demo_queues_nonempty, of "''w1''" 1]
    by (auto simp: demo_queues_def empty_store_def)
qed

text \<open>
  C10: Successive claims, by whichever workers, hand out the waiting jobs in priority order
  and within a priority in the order of submission, until none is left; from then on every
  claim returns null. So each waiting entry is claimed exactly once, and no two workers get
  the same one.
\<close>

theorem claims_in_priority_order:
  assumes "services svc out" and "ids_nonempty s"
  shows "fst (claim_all svc b ws s) =
    map Some (take (length ws) (rev (lists s (queue_of ''high'')) @
       rev (lists s (queue_of ''normal'')) @ rev (lists s (queue_of ''low'')))) @
    replicate (length ws - (length (lists s (queue_of ''high'')) +
       length (lists s (queue_of ''normal'')) + length (lists s (queue_of ''low'')))) None"
  using services.claim_all_order [OF assms, of b ws] by (simp add: claim_order_eq add.assoc)

theorem claims_in_priority_order_witness:
  "fst (claim_all mem_svc 1 [''w1'', ''w2'', ''w1'', ''w2''] demo_queues) =
     [Some ''a'', Some ''b'', Some ''c'', None]"
  by (subst claims_in_priority_order [OF mem.services_axioms demo_queues_nonempty])
    (simp add: demo_queues_def empty_store_def)

text \<open>
  C15: The claim refines the abstract queue: read through \<open>abs_queue_of\<close> (per priority a line,
  oldest first; per worker the jobs held), \<open>claimNextJob\<close> returns the id the abstract claim
  returns and leaves the abstract state it leaves.
\<close>

theorem claim_refines_queue:
  assumes "services svc out" and "ids_nonempty s"
  shows "(case run svc (claimNextJob w b) s of
      (r, s') \<Rightarrow> (case r of Inl e \<Rightarrow> None | Inr c \<Rightarrow> map_option cl_id c, abs_queue_of s')) =
    a_claim w (abs_queue_of s)"
  by (rule services.claim_refines [OF assms])

theorem claim_refines_queue_witness:
  "fst (a_claim ''w1'' (abs_queue_of demo_queues)) = Some ''a''"
  using claim_refines_queue [OF mem.services_axioms demo_queues_nonempty, of "''w1''" 1]
    mem.run_claimNextJob [OF demo_queues_nonempty, of "''w1''" 1]
  by (auto simp: a_claim_def abs_queue_of_def PRIORITIES_def demo_queues_def empty_store_def)

end
