(* ===== verification/Process.thy ===== *)
theory Process
  imports Claim
begin

text \<open>
  \<open>packages/worker/src/process.js\<close> and \<open>handlers/\<close>: one claimed job from \<open>active\<close> to its
  outcome, with the per-job timeout, the retry with backoff and the dead-letter path.
\<close>

section \<open>Handlers\<close>

text \<open>
  \<open>handlers[type]\<close> reads the object literal and then what it inherits from
  \<open>Object.prototype\<close>, so the inherited names find a value as well.
\<close>

datatype handler = SendEmail | Noop | Inherited string

definition object_prototype :: "string list" where
  "object_prototype = [''constructor'', ''__defineGetter__'', ''__defineSetter__'',
     ''hasOwnProperty'', ''__lookupGetter__'', ''__lookupSetter__'', ''isPrototypeOf'',
     ''propertyIsEnumerable'', ''toString'', ''valueOf'', ''__proto__'', ''toLocaleString'']"

definition handlers :: "string \<Rightarrow> handler option" where
  "handlers ty =
     (if ty = ''send_email'' then Some SendEmail
      else if ty = ''noop'' then Some Noop
      else if ty \<in> set object_prototype then Some (Inherited ty)
      else None)"

text \<open>A job type that is \<open>undefined\<close> is looked up under the name \<open>undefined\<close>.\<close>

definition getHandler :: "string option \<Rightarrow> err + handler" where
  "getHandler ty =
     (let name = (case ty of None \<Rightarrow> ''undefined'' | Some t \<Rightarrow> t) in
      case handlers name of
        None \<Rightarrow> Inl (JsError (''No handler registered for job type '' @ [CHR 0x22] @ name @ [CHR 0x22]))
      | Some h \<Rightarrow> Inr h)"

definition noop :: "json \<Rightarrow> int \<Rightarrow> json prog" where
  "noop pl att = Ret (JObj [(''ok'', JBool True)])"

definition sendEmail :: "json \<Rightarrow> int \<Rightarrow> json prog" where
  "sendEmail pl att =
     (if pl = JNull then Throw (JsError ''Cannot destructure'') else
      let to = prop_of pl ''to''; template = prop_of pl ''template'' in
      if \<not> truthy to then Throw (JsError ''payload.to is required for send_email jobs'')
      else if template = Some (JStr ''flaky-demo'') \<and> att < 1
      then Throw (JsError ''Simulated transient email provider failure'')
      else call Random (\<lambda>x.
           call (Sleep \<lfloor>100 + the_rat x * 200\<rfloor>) (\<lambda>_.
           Ret (JObj ([(''sent'', JBool True)]
                @ (case to of None \<Rightarrow> [] | Some v \<Rightarrow> [(''to'', v)])
                @ (case template of None \<Rightarrow> [] | Some v \<Rightarrow> [(''template'', v)]))))))"

fun is_object :: "json \<Rightarrow> bool" where
  "is_object (JObj _) = True"
| "is_object (JArr _) = True"
| "is_object _ = False"

text \<open>
  A function of \<open>Object.prototype\<close> called as a plain function has \<open>this\<close> undefined:
  \<open>Object(payload)\<close> and \<open>toString\<close> return, \<open>isPrototypeOf\<close> returns false for a payload that
  is no object, the others throw a \<open>TypeError\<close>.
\<close>

fun call_handler :: "handler \<Rightarrow> json \<Rightarrow> int \<Rightarrow> json prog" where
  "call_handler SendEmail pl att = sendEmail pl att"
| "call_handler Noop pl att = noop pl att"
| "call_handler (Inherited f) pl att =
     (if f = ''constructor'' then Ret (if pl = JNull then JObj [] else pl)
      else if f = ''toString'' then Ret (JStr ''[object Undefined]'')
      else if f = ''isPrototypeOf'' \<and> \<not> is_object pl then Ret (JBool False)
      else Throw (JsError ''TypeError''))"

section \<open>The timeout\<close>

text \<open>
  \<open>Promise.race\<close> of the handler and a timer of \<open>ms\<close>. The handler's time is the time it
  sleeps; a handler that is still sleeping when the timer fires loses the race. On a tie
  the handler wins: its timer was started first.
\<close>

primrec withTimeout :: "'a prog \<Rightarrow> int \<Rightarrow> int \<Rightarrow> 'a prog" where
  "withTimeout (Ret a) limit ms = Ret a"
| "withTimeout (Throw e) limit ms = Throw e"
| "withTimeout (Await c k) limit ms =
     (case c of
        Sleep d \<Rightarrow>
          if d \<le> ms then Await c (\<lambda>r. withTimeout (k r) limit (ms - max 0 d))
          else Await (Sleep ms) (\<lambda>_.
            Throw (TimeoutError (''Job timed out after '' @ str_of_int limit @ ''ms'')))
      | _ \<Rightarrow> Await c (\<lambda>r. withTimeout (k r) limit ms))"

section \<open>One claimed job\<close>

record worker_config =
  concurrency :: nat
  defaultTimeoutMs :: int
  heartbeatIntervalMs :: int
  gracePeriodMs :: int
  backoffBaseMs :: int
  backoffMaxMs :: int

datatype outcome = OutCompleted json | OutRetryScheduled int | OutDead

definition process_logEvent :: "string \<Rightarrow> job_status \<Rightarrow> string \<Rightarrow> unit prog" where
  "process_logEvent jobId st message =
     call (Pg (INSERT_EVENT jobId st (Some message))) (\<lambda>_. Ret ())"

definition process_publish :: "string \<Rightarrow> job_status \<Rightarrow> string \<Rightarrow> unit prog" where
  "process_publish jobId st message =
     call Now (\<lambda>t. call (Redis (PUBLISH EVENTS_CHANNEL
       \<lparr>e_jobId = jobId, e_status = st, e_message = message, e_ts = the_int t\<rparr>)) (\<lambda>_. Ret ()))"

text \<open>
  \<open>undefined + 1\<close> is \<open>NaN\<close>, and \<open>NaN <= undefined\<close> is false: without an envelope there is
  no retry.
\<close>

definition handleFailure :: "string \<Rightarrow> claimed \<Rightarrow> worker_config \<Rightarrow> err \<Rightarrow> outcome prog" where
  "handleFailure workerId claimed config err =
     (let i = cl_id claimed;
          nextAttempt = map_option (\<lambda>e. env_attempt e + 1) (cl_envelope claimed) in
      case cl_envelope claimed of
        Some envelope \<Rightarrow>
          if env_attempt envelope + 1 \<le> env_maxRetries envelope then
            call Random (\<lambda>x.
            sync_call (computeBackoffMs (env_attempt envelope) (backoffBaseMs config)
                        (backoffMaxMs config) True (the_rat x)) (\<lambda>delayMs.
            call (Pg (UPDATE_JOB [SetStatus Delayed, SetAttempt nextAttempt,
                        SetError (Some (message_of err)), SetScheduledIn delayMs] i)) (\<lambda>_.
            and_then (process_logEvent i Delayed (''Attempt '' @ str_of_num nextAttempt @
                        '' failed: '' @ message_of err @ ''. Retrying in '' @
                        str_of_int delayMs @ ''ms.'')) (\<lambda>_.
            and_then (process_publish i Delayed (''Retry '' @ str_of_num nextAttempt @ ''/'' @
                        str_of_int (env_maxRetries envelope) @ '' scheduled in '' @
                        str_of_int delayMs @ ''ms'')) (\<lambda>_.
            call (Redis (HSET JOB_DATA_KEY i
                   (VEnv (envelope\<lparr>env_attempt := env_attempt envelope + 1\<rparr>)))) (\<lambda>_.
            call Now (\<lambda>now.
            call (Redis (ZADD DELAYED_KEY (the_int now + delayMs) i)) (\<lambda>_.
            and_then (releaseJob workerId i) (\<lambda>_.
            Ret (OutRetryScheduled delayMs))))))))))
          else
            call (Pg (UPDATE_JOB [SetStatus Dead, SetAttempt nextAttempt,
                        SetError (Some (message_of err))] i)) (\<lambda>_.
            and_then (process_logEvent i Dead (''Exhausted '' @
                        str_of_int (env_maxRetries envelope) @
                        '' retries. Last error: '' @ message_of err)) (\<lambda>_.
            and_then (process_publish i Dead
                        ''Moved to dead-letter queue (retries exhausted)'') (\<lambda>_.
            call (Redis (HDEL JOB_DATA_KEY i)) (\<lambda>_.
            and_then (releaseJob workerId i) (\<lambda>_.
            Ret OutDead)))))
      | None \<Rightarrow>
          call (Pg (UPDATE_JOB [SetStatus Dead, SetAttempt nextAttempt,
                      SetError (Some (message_of err))] i)) (\<lambda>_.
          and_then (process_logEvent i Dead (''Exhausted undefined retries. Last error: '' @
                      message_of err)) (\<lambda>_.
          and_then (process_publish i Dead
                      ''Moved to dead-letter queue (retries exhausted)'') (\<lambda>_.
          call (Redis (HDEL JOB_DATA_KEY i)) (\<lambda>_.
          and_then (releaseJob workerId i) (\<lambda>_.
          Ret OutDead))))))"

text \<open>The \<open>try\<close> block.\<close>

definition execute_job :: "string \<Rightarrow> claimed \<Rightarrow> worker_config \<Rightarrow> outcome prog" where
  "execute_job workerId claimed config =
     (let i = cl_id claimed; envelope = cl_envelope claimed in
      call (Pg (UPDATE_JOB [SetStatus Active, SetWorkerId (Some workerId)] i)) (\<lambda>_.
      and_then (process_logEvent i Active (''Claimed by worker '' @ workerId)) (\<lambda>_.
      and_then (process_publish i Active (''Claimed by worker '' @ workerId)) (\<lambda>_.
      sync_call (getHandler (map_option env_type envelope)) (\<lambda>handler.
      and_then (withTimeout (call_handler handler
                  (case envelope of None \<Rightarrow> JNull | Some e \<Rightarrow> env_payload e)
                  (case envelope of None \<Rightarrow> 0 | Some e \<Rightarrow> env_attempt e))
                  (defaultTimeoutMs config) (defaultTimeoutMs config)) (\<lambda>result.
      call (Pg (UPDATE_JOB [SetStatus Completed, SetCompletedNow, SetError None] i)) (\<lambda>_.
      and_then (process_logEvent i Completed ''Job completed successfully'') (\<lambda>_.
      and_then (process_publish i Completed ''Job completed successfully'') (\<lambda>_.
      call (Redis (HDEL JOB_DATA_KEY i)) (\<lambda>_.
      and_then (releaseJob workerId i) (\<lambda>_.
      Ret (OutCompleted result))))))))))))"

definition processJob :: "string \<Rightarrow> claimed \<Rightarrow> worker_config \<Rightarrow> outcome prog" where
  "processJob workerId claimed config =
     catch_err (execute_job workerId claimed config)
       (\<lambda>err. handleFailure workerId claimed config err)"

section \<open>Handlers and the timeout\<close>

text \<open>Handlers only draw random numbers and wait.\<close>

primrec quiet :: "'a prog \<Rightarrow> bool" where
  "quiet (Ret a) = True"
| "quiet (Throw e) = True"
| "quiet (Await c k) = ((case c of Sleep d \<Rightarrow> True | Random \<Rightarrow> True | _ \<Rightarrow> False) \<and> (\<forall>r. quiet (k r)))"

lemma quiet_call: "quiet (call c k) \<longleftrightarrow>
    (case c of Sleep d \<Rightarrow> True | Random \<Rightarrow> True | _ \<Rightarrow> False) \<and> (\<forall>v. quiet (k v))"
  by (auto simp: call_def split: sum.splits cmd.splits)

lemma quiet_handler: "quiet (call_handler h pl att)"
  by (cases h) (auto simp: noop_def sendEmail_def Let_def quiet_call)

lemma quiet_withTimeout: "quiet p \<Longrightarrow> quiet (withTimeout p limit ms)"
  by (induction p arbitrary: ms) (auto split: cmd.splits)

context services begin

lemma run_quiet:
  "quiet p \<Longrightarrow> \<exists>r c d. run svc p s = (r, s\<lparr>clock := c, draws := d\<rparr>) \<and> clock s \<le> c"
proof (induction p arbitrary: s)
  case (Await c k)
  then have q: "quiet (k r)" for r by simp
  consider (sleep) d where "c = Sleep d" | (rnd) "c = Random"
    using Await.prems by (auto split: cmd.splits)
  then show ?case
  proof cases
    case sleep
    obtain r' c' d' where
      "run svc (k (Inr RNil)) (s\<lparr>clock := clock s + max 0 d + oversleep out s\<rparr>) =
        (r', s\<lparr>clock := c', draws := d'\<rparr>)"
      and le: "clock s + max 0 d + oversleep out s \<le> c'"
      using Await.IH [OF _ q, of "Inr RNil" "s\<lparr>clock := clock s + max 0 d + oversleep out s\<rparr>"]
      by auto
    moreover have "clock s \<le> c'" using le oversleep_nonneg [of s] by linarith
    ultimately show ?thesis using sleep by (auto simp: laws)
  next
    case rnd
    then show ?thesis
      using Await.IH [OF _ q, of "Inr (RRat (gen_random out s))" "s\<lparr>draws := Suc (draws s)\<rparr>"]
      by (auto simp: laws)
  qed
next
  case (Ret a)
  show ?case by (intro exI [of _ "clock s"] exI [of _ "draws s"] exI) simp
next
  case (Throw e)
  show ?case by (intro exI [of _ "clock s"] exI [of _ "draws s"] exI) simp
qed

lemma run_quiet_mono: "quiet p \<Longrightarrow> clock s \<le> clock (snd (run svc p s))"
  using run_quiet [of p s] by auto

lemma run_withTimeout:
  assumes "quiet p" and "0 \<le> ms" and "\<And>s. oversleep out s = 0"
  shows "(if clock (snd (run svc p s)) - clock s \<le> ms
          then run svc (withTimeout p limit ms) s = run svc p s
          else fst (run svc (withTimeout p limit ms) s) =
                 Inl (TimeoutError (''Job timed out after '' @ str_of_int limit @ ''ms'')) \<and>
               clock (snd (run svc (withTimeout p limit ms) s)) = clock s + ms)"
  using assms(1,2)
proof (induction p arbitrary: s ms)
  case (Await c k)
  then have q: "quiet (k r)" for r by simp
  consider (sleep) d where "c = Sleep d" | (rnd) "c = Random"
    using Await.prems by (auto split: cmd.splits)
  then show ?case
  proof cases
    case sleep
    let ?t = "s\<lparr>clock := clock s + max 0 d\<rparr>"
    have mono: "clock s + max 0 d \<le> clock (snd (run svc (k (Inr RNil)) ?t))"
      using run_quiet_mono [OF q, of ?t "Inr RNil"] by simp
    show ?thesis
    proof (cases "d \<le> ms")
      case True
      then have "0 \<le> ms - max 0 d" using Await.prems by simp
      from Await.IH [OF _ q this, of "Inr RNil" ?t] show ?thesis
        using sleep True assms(3) by (auto simp: laws split: if_splits)
    next
      case False
      then show ?thesis
        using sleep mono assms(3) Await.prems by (auto simp: laws)
    qed
  next
    case rnd
    then show ?thesis
      using Await.IH [OF _ q Await.prems(2), of "Inr (RRat (gen_random out s))" "s\<lparr>draws := Suc (draws s)\<rparr>"]
      by (auto simp: laws split: if_splits)
  qed
qed auto

end

section \<open>Running a claimed job\<close>

text \<open>The store once the job is marked active.\<close>

definition begun :: "string \<Rightarrow> string \<Rightarrow> store \<Rightarrow> store" where
  "begun w i s = s\<lparr>jobs := update_rows i (assign_all (clock s)
        [SetStatus Active, SetWorkerId (Some w)]) (jobs s),
     job_events := job_events s @ [\<lparr>ev_job = i, ev_status = Active,
        ev_message = Some (''Claimed by worker '' @ w), ev_created_at = clock s\<rparr>],
     published := published s @ [(EVENTS_CHANNEL, \<lparr>e_jobId = i, e_status = Active,
        e_message = ''Claimed by worker '' @ w, e_ts = clock s\<rparr>)]\<rparr>"

text \<open>The job off the processing list and its heartbeat gone.\<close>

definition released :: "string \<Rightarrow> string \<Rightarrow> store \<Rightarrow> store" where
  "released w i s = s\<lparr>lists := (lists s)(processingKey w := removeAll i (lists s (processingKey w))),
     hashes := (hashes s)(HEARTBEATS_KEY := (hashes s HEARTBEATS_KEY)(i := None))\<rparr>"

definition settled :: "string \<Rightarrow> job_status \<Rightarrow> assign list \<Rightarrow> string \<Rightarrow> string \<Rightarrow> store \<Rightarrow> store" where
  "settled i st asg logged announced s = s\<lparr>
     jobs := update_rows i (assign_all (clock s) (SetStatus st # asg)) (jobs s),
     job_events := job_events s @ [\<lparr>ev_job = i, ev_status = st,
        ev_message = Some logged, ev_created_at = clock s\<rparr>],
     published := published s @ [(EVENTS_CHANNEL, \<lparr>e_jobId = i, e_status = st,
        e_message = announced, e_ts = clock s\<rparr>)]\<rparr>"

definition without_data :: "string \<Rightarrow> store \<Rightarrow> store" where
  "without_data i s = s\<lparr>hashes := (hashes s)(JOB_DATA_KEY := (hashes s JOB_DATA_KEY)(i := None))\<rparr>"

definition delayed_again :: "envelope \<Rightarrow> int \<Rightarrow> string \<Rightarrow> store \<Rightarrow> store" where
  "delayed_again e runAt i s = s\<lparr>
     hashes := (hashes s)(JOB_DATA_KEY := (hashes s JOB_DATA_KEY)(i \<mapsto> VEnv e)),
     zsets := (zsets s)(DELAYED_KEY := zadd runAt i (zsets s DELAYED_KEY))\<rparr>"

lemmas settle_defs = begun_def released_def settled_def without_data_def delayed_again_def

text \<open>The handler with its timeout, as the worker calls it for an envelope.\<close>

definition timed_handler :: "worker_config \<Rightarrow> handler \<Rightarrow> envelope option \<Rightarrow> json prog" where
  "timed_handler cfg h env = withTimeout (call_handler h
      (case env of None \<Rightarrow> JNull | Some e \<Rightarrow> env_payload e)
      (case env of None \<Rightarrow> 0 | Some e \<Rightarrow> env_attempt e)) (defaultTimeoutMs cfg) (defaultTimeoutMs cfg)"

lemma quiet_timed_handler: "quiet (timed_handler cfg h env)"
  by (simp add: timed_handler_def quiet_withTimeout quiet_handler)

definition executes :: "service \<Rightarrow> worker_config \<Rightarrow> claimed \<Rightarrow> store \<Rightarrow> (err + json) \<times> store" where
  "executes svc cfg c s =
     (case getHandler (map_option env_type (cl_envelope c)) of
        Inl e \<Rightarrow> (Inl e, s)
      | Inr h \<Rightarrow> run svc (timed_handler cfg h (cl_envelope c)) s)"

definition backoff_of :: "outside \<Rightarrow> int \<Rightarrow> int \<Rightarrow> int \<Rightarrow> store \<Rightarrow> int" where
  "backoff_of out att base cap s = \<lfloor>gen_random out s * of_int (min (base * 2 ^ nat att) cap)\<rfloor>"

lemma int_ok: "0 \<le> n \<Longrightarrow> n < 2 ^ 31 \<Longrightarrow> - (2 ^ 31) \<le> n \<and> n < (2 ^ 31 :: int)"
  by simp

context services begin

lemma executes_frame:
  "\<exists>r c d. executes svc cfg cl s = (r, s\<lparr>clock := c, draws := d\<rparr>) \<and> clock s \<le> c"
proof (cases "getHandler (map_option env_type (cl_envelope cl))")
  case (Inl e)
  then show ?thesis
    by (intro exI [of _ "clock s"] exI [of _ "draws s"] exI) (simp add: executes_def)
next
  case (Inr h)
  then show ?thesis
    using run_quiet [OF quiet_timed_handler [of cfg h "cl_envelope cl"], of s]
    by (simp add: executes_def)
qed

lemma run_process_logEvent [simp]:
  "run svc (process_logEvent i st m) s =
    (if i \<in> job_id ` set (jobs s) then
      (Inr (), s\<lparr>job_events := job_events s @ [\<lparr>ev_job = i, ev_status = st,
           ev_message = Some m, ev_created_at = clock s\<rparr>]\<rparr>)
     else (Inl (PgError ''violates foreign key constraint (job_events_job_id_fkey)''), s))"
  by (simp add: process_logEvent_def prog_run laws)

lemma run_process_publish [simp]:
  "run svc (process_publish i st m) s =
    (Inr (), s\<lparr>published := published s @ [(EVENTS_CHANNEL,
        \<lparr>e_jobId = i, e_status = st, e_message = m, e_ts = clock s\<rparr>)]\<rparr>)"
  by (simp add: process_publish_def prog_run laws)

lemma run_execute_job:
  assumes "cl_id cl \<in> job_id ` set (jobs s)" and "i = cl_id cl"
    and "executes svc cfg cl (begun w i s) = (r, t)"
  shows "run svc (execute_job w cl cfg) s =
    (case r of
       Inl e \<Rightarrow> (Inl e, t)
     | Inr v \<Rightarrow> (Inr (OutCompleted v),
         released w i (without_data i (settled i Completed [SetCompletedNow, SetError None]
           ''Job completed successfully'' ''Job completed successfully'' t))))"
proof -
  obtain c d where t: "t = (begun w i s)\<lparr>clock := c, draws := d\<rparr>"
    using executes_frame [of cfg cl "begun w i s"] assms(3) by auto
  show ?thesis
  proof (cases "getHandler (map_option env_type (cl_envelope cl))")
    case (Inl e)
    then show ?thesis
      using assms by (auto simp: execute_job_def Let_def prog_run laws executes_def begun_def)
  next
    case (Inr h)
    then have "run svc (timed_handler cfg h (cl_envelope cl)) (begun w i s) = (r, t)"
      using assms(3) by (simp add: executes_def)
    then show ?thesis
      using Inr assms(1,2) t
      by (auto simp: execute_job_def Let_def prog_run laws settle_defs
          timed_handler_def [symmetric] split: sum.split)
  qed
qed

lemma run_execute_no_row:
  "cl_id cl \<notin> job_id ` set (jobs s) \<Longrightarrow> \<exists>m. run svc (execute_job w cl cfg) s = (Inl (PgError m), s)"
  by (simp add: execute_job_def Let_def prog_run laws update_rows_absent get_row_None)

lemma run_handleFailure_retry:
  assumes "cl_id cl \<in> job_id ` set (jobs s)" and "i = cl_id cl" and "cl_envelope cl = Some e"
    and "env_attempt e + 1 \<le> env_maxRetries e" and "0 \<le> env_attempt e"
    and "env_attempt e + 1 < 2 ^ 31"
    and "d = backoff_of out (env_attempt e) (backoffBaseMs cfg) (backoffMaxMs cfg) s"
  shows "\<exists>logged announced. run svc (handleFailure w cl cfg err) s =
    (Inr (OutRetryScheduled d),
     released w i (delayed_again (e\<lparr>env_attempt := env_attempt e + 1\<rparr>) (clock s + d) i
       (settled i Delayed [SetAttempt (Some (env_attempt e + 1)),
           SetError (Some (message_of err)), SetScheduledIn d] logged announced
         (s\<lparr>draws := Suc (draws s)\<rparr>))))"
  using assms
  by (auto simp: handleFailure_def Let_def prog_run laws settle_defs backoff_value backoff_of_def)

lemma run_handleFailure_dead:
  assumes "cl_id cl \<in> job_id ` set (jobs s)" and "i = cl_id cl" and "cl_envelope cl = Some e"
    and "env_maxRetries e < env_attempt e + 1" and "0 \<le> env_attempt e"
    and "env_attempt e + 1 < 2 ^ 31"
  shows "\<exists>logged. run svc (handleFailure w cl cfg err) s =
    (Inr OutDead,
     released w i (without_data i (settled i Dead
       [SetAttempt (Some (env_attempt e + 1)), SetError (Some (message_of err))] logged
       ''Moved to dead-letter queue (retries exhausted)'' s)))"
  using assms
  by (auto simp: handleFailure_def Let_def prog_run laws settle_defs)

lemma run_handleFailure_no_data:
  "cl_envelope cl = None \<Longrightarrow> \<exists>m. run svc (handleFailure w cl cfg err) s = (Inl (PgError m), s)"
  by (simp add: handleFailure_def Let_def prog_run laws)

lemma run_processJob:
  "run svc (processJob w cl cfg) s =
    (case run svc (execute_job w cl cfg) s of
       (Inl e, t) \<Rightarrow> run svc (handleFailure w cl cfg e) t
     | (Inr v, t) \<Rightarrow> (Inr v, t))"
  by (auto simp: processJob_def prog_run split: prod.split sum.split)

end

section \<open>What a stopped worker leaves behind\<close>

definition holding :: "string \<Rightarrow> string \<Rightarrow> store \<Rightarrow> bool" where
  "holding w i s \<longleftrightarrow> i \<in> set (lists s (processingKey w))"

definition delayed_entry :: "string \<Rightarrow> store \<Rightarrow> bool" where
  "delayed_entry i s \<longleftrightarrow> i \<in> zmembers (zsets s DELAYED_KEY)"

definition status_of :: "string \<Rightarrow> store \<Rightarrow> job_status option" where
  "status_of i s = map_option status (get_row i (jobs s))"

definition logged :: "string \<Rightarrow> job_status \<Rightarrow> store \<Rightarrow> bool" where
  "logged i st s \<longleftrightarrow> (\<exists>e \<in> set (job_events s). ev_job e = i \<and> ev_status e = st)"

text \<open>Nothing else acts on this job: what the worker may rely on while it runs.\<close>

definition job_left_alone :: "string \<Rightarrow> string \<Rightarrow> store \<Rightarrow> store \<Rightarrow> bool" where
  "job_left_alone w i s t \<longleftrightarrow> (holding w i s \<longrightarrow> holding w i t) \<and>
     (delayed_entry i s \<longrightarrow> delayed_entry i t) \<and> status_of i t = status_of i s \<and>
     (\<forall>st. logged i st s \<longrightarrow> logged i st t)"

definition not_lost :: "string \<Rightarrow> string \<Rightarrow> store \<Rightarrow> bool" where
  "not_lost w i s \<longleftrightarrow> holding w i s \<or> delayed_entry i s \<or> status_of i s = Some Dead \<or>
     logged i Completed s"

definition kept :: "string \<Rightarrow> string \<Rightarrow> store \<Rightarrow> bool" where
  "kept w i s \<longleftrightarrow> holding w i s \<or> logged i Completed s"

lemma left_alone_refl: "reflp (job_left_alone w i)"
  by (simp add: reflp_def job_left_alone_def)

lemma left_alone_trans: "transp (job_left_alone w i)"
  by (simp add: transp_def job_left_alone_def)

lemma stable_left_alone [simp]:
  "stable (job_left_alone w i) (not_lost w i)"
  "stable (job_left_alone w i) (kept w i)"
  "stable (job_left_alone w i) (logged i st)"
  "stable (job_left_alone w i) (\<lambda>s. kept w i s \<and> status_of i s = Some Dead)"
  "stable (job_left_alone w i) (\<lambda>s. delayed_entry i s \<or> logged i Completed s)"
  by (auto simp: stable_def job_left_alone_def not_lost_def kept_def)

lemma kept_not_lost: "kept w i s \<Longrightarrow> not_lost w i s"
  by (auto simp: kept_def not_lost_def)

lemmas place_defs = holding_def delayed_entry_def logged_def kept_def not_lost_def status_of_def

abbreviation wsafe :: "service \<Rightarrow> string \<Rightarrow> string \<Rightarrow> (store \<Rightarrow> bool) \<Rightarrow> 'a prog \<Rightarrow> store \<Rightarrow> bool" where
  "wsafe svc w i Y p s \<equiv> safe svc (job_left_alone w i) (\<lambda>_ _. True) (not_lost w i)
     (\<lambda>_. Y) (\<lambda>_. Y) p s"

text \<open>
  A phase of the worker's run: \<open>P\<close> is what it has achieved, \<open>Y\<close> what holds if it stops.
  Within a phase every command keeps \<open>P\<close>; one command leads to the next phase.
\<close>

definition phase :: "string \<Rightarrow> string \<Rightarrow> (store \<Rightarrow> bool) \<Rightarrow> (store \<Rightarrow> bool) \<Rightarrow> bool" where
  "phase w i Y P \<longleftrightarrow> stable (job_left_alone w i) P \<and> stable (job_left_alone w i) Y \<and>
     (\<forall>t. P t \<longrightarrow> Y t) \<and> (\<forall>t. Y t \<longrightarrow> not_lost w i t)"

definition keeps :: "service \<Rightarrow> (store \<Rightarrow> bool) \<Rightarrow> cmd \<Rightarrow> bool" where
  "keeps svc P c \<longleftrightarrow> (\<forall>t. P t \<longrightarrow> P (snd (svc c t)))"

definition undecided :: "string \<Rightarrow> string \<Rightarrow> store \<Rightarrow> bool" where
  "undecided w i s \<longleftrightarrow> kept w i s \<and> status_of i s \<in> {None, Some Dead}"

definition is_dead :: "string \<Rightarrow> store \<Rightarrow> bool" where
  "is_dead i s \<longleftrightarrow> status_of i s = Some Dead"

lemma phases:
  "phase w i (kept w i) (kept w i)"
  "phase w i (not_lost w i) (kept w i)"
  "phase w i (kept w i) (logged i Completed)"
  "phase w i (not_lost w i) (delayed_entry i)"
  "phase w i (not_lost w i) (undecided w i)"
  "phase w i (not_lost w i) (is_dead i)"
  by (auto simp: phase_def stable_def job_left_alone_def place_defs undecided_def is_dead_def)

lemma phase_step:
  assumes "phase w i Y P" and "P s"
    and step: "\<And>t r t'. P t \<Longrightarrow> svc c t = (r, t') \<Longrightarrow> Y t' \<and> (\<forall>v. r = Inr v \<longrightarrow> P' t')"
    and cont: "\<And>v t. P' t \<Longrightarrow> wsafe svc w i Y (k v) t"
  shows "wsafe svc w i Y (call c k) s"
proof (rule safe_call [where P = P])
  fix t r t' assume "P t" and r: "svc c t = (r, t')"
  then show "True \<and> not_lost w i t' \<and> Y t' \<and>
      (case r of Inl e \<Rightarrow> Y t' | Inr v \<Rightarrow> wsafe svc w i Y (k v) t')"
    using step [OF _ r] cont assms(1) unfolding phase_def by (auto split: sum.split)
qed (use assms(1,2) in \<open>auto simp: phase_def\<close>)

lemma phase_keep:
  assumes "phase w i Y P" and "P s" and "keeps svc P c"
    and "\<And>v t. P t \<Longrightarrow> wsafe svc w i Y (k v) t"
  shows "wsafe svc w i Y (call c k) s"
proof (rule phase_step [OF assms(1,2)])
  fix t r t' assume "P t" and "svc c t = (r, t')"
  then have "P t'" using assms(3) unfolding keeps_def by (metis snd_conv)
  then show "Y t' \<and> (\<forall>v. r = Inr v \<longrightarrow> P t')" using assms(1) by (auto simp: phase_def)
qed (rule assms(4))

lemma phase_end:
  assumes "phase w i Y P" and "P s"
  shows "wsafe svc w i Y (Ret a) s" and "wsafe svc w i Y (Throw e) s"
  using assms by (auto simp: phase_def dest: stableD)

context services begin

lemma keeps_kept [simp]:
  "keeps svc (kept w i) (Pg (UPDATE_JOB asg j))"
  "keeps svc (kept w i) (Pg (INSERT_EVENT j st m))"
  "keeps svc (kept w i) (Redis (PUBLISH ch ev))"
  "keeps svc (kept w i) (Redis (HSET h f v))"
  "keeps svc (kept w i) (Redis (HDEL h f))"
  "keeps svc (kept w i) (Redis (ZADD z sc x))"
  "keeps svc (kept w i) Now"
  "keeps svc (kept w i) Random"
  "keeps svc (kept w i) (Sleep d)"
  by (auto simp: keeps_def laws kept_def holding_def logged_def)

lemma keeps_logged [simp]:
  "keeps svc (logged i st) (Redis (PUBLISH ch ev))"
  "keeps svc (logged i st) (Redis (HDEL h f))"
  "keeps svc (logged i st) (Redis (LREM l v))"
  "keeps svc (logged i st) Now"
  by (auto simp: keeps_def laws logged_def)

lemma keeps_delayed [simp]:
  "keeps svc (delayed_entry i) (Redis (LREM l v))"
  "keeps svc (delayed_entry i) (Redis (HDEL h f))"
  by (auto simp: keeps_def laws delayed_entry_def)

lemma keeps_dead [simp]:
  "keeps svc (is_dead i) (Redis (PUBLISH ch ev))"
  "keeps svc (is_dead i) (Redis (HDEL h f))"
  "keeps svc (is_dead i) (Redis (LREM l v))"
  "keeps svc (is_dead i) Now"
  by (auto simp: keeps_def laws is_dead_def status_of_def)

lemma wsafe_quiet:
  "quiet p \<Longrightarrow> kept w i s \<Longrightarrow> wsafe svc w i (kept w i) p s"
proof (induction p arbitrary: s)
  case (Await c k)
  have q: "quiet (k r)" for r using Await.prems by simp
  have "(\<exists>d. c = Sleep d) \<or> c = Random" using Await.prems by (auto split: cmd.splits)
  then have c: "kept w i (snd (svc c t))" if "kept w i t" for t
    using keeps_kept(8,9) that unfolding keeps_def by auto
  show ?case
    unfolding safe.simps
  proof (intro allI impI)
    fix t assume "job_left_alone w i s t"
    then have t: "kept w i t" using Await.prems(2) stableD [OF stable_left_alone(2)] by blast
    then show "not_lost w i t \<and> True \<and> wsafe svc w i (kept w i) (k (fst (svc c t))) (snd (svc c t)) \<and>
        wsafe svc w i (kept w i) (k (Inl ConnLost)) t \<and>
        wsafe svc w i (kept w i) (k (Inl ConnLost)) (snd (svc c t))"
      using Await.IH [OF _ q] c kept_not_lost by blast
  qed
qed (blast intro: phase_end phases)+

lemma wsafe_release:
  assumes "phase w i Y P" and "P s" and "\<And>l v. keeps svc P (Redis (LREM l v))"
    and "\<And>h f. keeps svc P (Redis (HDEL h f))" and "\<And>t. P t \<Longrightarrow> wsafe svc w i Y (k ()) t"
  shows "wsafe svc w i Y (and_then (releaseJob w i) k) s"
  unfolding releaseJob_def and_then_call and_then.simps
  by (rule phase_keep [OF assms(1)], rule assms(2), rule assms(3),
      rule phase_keep [OF assms(1)], assumption, rule assms(4), rule assms(5))

lemma wsafe_publish:
  assumes "phase w i Y P" and "P s" and "keeps svc P Now"
    and "\<And>ch e. keeps svc P (Redis (PUBLISH ch e))" and "\<And>t. P t \<Longrightarrow> wsafe svc w i Y (k ()) t"
  shows "wsafe svc w i Y (and_then (process_publish i st m) k) s"
  unfolding process_publish_def and_then_call and_then.simps
  by (rule phase_keep [OF assms(1)], rule assms(2), rule assms(3),
      rule phase_keep [OF assms(1)], assumption, rule assms(4), rule assms(5))

lemma wsafe_log:
  assumes "phase w i Y P" and "P s" and "\<And>j st m. keeps svc P (Pg (INSERT_EVENT j st m))"
    and "\<And>t. P t \<Longrightarrow> wsafe svc w i Y (k ()) t"
  shows "wsafe svc w i Y (and_then (process_logEvent i st m) k) s"
  unfolding process_logEvent_def and_then_call and_then.simps
  by (rule phase_keep [OF assms(1)], rule assms(2), rule assms(3), rule assms(4))

lemma wsafe_completed:
  assumes "logged i Completed s"
  shows "wsafe svc w i (kept w i) (and_then (process_publish i Completed m) (\<lambda>_.
      call (Redis (HDEL JOB_DATA_KEY i)) (\<lambda>_. and_then (releaseJob w i) (\<lambda>_. Ret v)))) s"
proof -
  note ph = phases(3) [of w i]
  show ?thesis
    by (rule wsafe_publish [OF ph assms], simp, simp, rule phase_keep [OF ph], assumption, simp,
        rule wsafe_release [OF ph], assumption, simp, simp, rule phase_end(1) [OF ph])
qed

lemma log_completed_step:
  assumes "kept w i t" and "svc (Pg (INSERT_EVENT i Completed m)) t = (r, t')"
  shows "kept w i t' \<and> (\<forall>v. r = Inr v \<longrightarrow> logged i Completed t')"
  using assms by (auto simp: laws kept_def holding_def logged_def split: if_splits)

lemma wsafe_execute_job:
  assumes "kept w i s" and "i = cl_id cl"
  shows "wsafe svc w i (kept w i) (execute_job w cl cfg) s"
proof -
  note ph = phases(1) [of w i]
  have after: "wsafe svc w i (kept w i) (call (Pg (UPDATE_JOB asg i)) (\<lambda>_.
      and_then (process_logEvent i Completed m) (\<lambda>_. and_then (process_publish i Completed m') (\<lambda>_.
      call (Redis (HDEL JOB_DATA_KEY i)) (\<lambda>_. and_then (releaseJob w i) (\<lambda>_. Ret v)))))) t"
    if "kept w i t" for t asg m m' and v :: outcome
    unfolding process_logEvent_def and_then_call and_then.simps
    by (rule phase_keep [OF ph], rule that, simp, rule phase_step [OF ph], assumption,
        erule (1) log_completed_step, rule wsafe_completed)
  have body: "wsafe svc w i (kept w i) (sync_call (getHandler ty) (\<lambda>h. and_then
      (withTimeout (call_handler h pl att) l l) g)) t"
    if "kept w i t" and "\<And>v u. kept w i u \<Longrightarrow> wsafe svc w i (kept w i) (g v) u"
    for t ty pl att l and g :: "json \<Rightarrow> outcome prog"
  proof (cases "getHandler ty")
    case (Inl e)
    then show ?thesis using phase_end(2) [OF ph that(1)] by simp
  next
    case (Inr h)
    have "wsafe svc w i (kept w i) (and_then (withTimeout (call_handler h pl att) l l) g) t"
      by (rule safe_and_then [OF left_alone_refl wsafe_quiet that(2)])
        (use that(1) in \<open>auto intro: quiet_withTimeout quiet_handler\<close>)
    then show ?thesis using Inr by simp
  qed
  show ?thesis
    unfolding execute_job_def Let_def assms(2) [symmetric]
    by (rule phase_keep [OF ph], rule assms(1), simp, rule wsafe_log [OF ph], assumption, simp,
        rule wsafe_publish [OF ph], assumption, simp, simp, rule body, assumption, rule after)
qed

lemma zadd_step:
  assumes "kept w i t" and "svc (Redis (ZADD DELAYED_KEY n i)) t = (r, t')"
  shows "not_lost w i t' \<and> (\<forall>v. r = Inr v \<longrightarrow> delayed_entry i t')"
  using assms by (auto simp: laws not_lost_def delayed_entry_def)

lemma status_of_update:
  "status_of i (s\<lparr>jobs := update_rows i (assign_all n (SetStatus st # asg)) (jobs s)\<rparr>)
     \<in> {None, Some st}"
  if "\<And>r. status (assign_all n asg r) = status r"
  using that by (cases "get_row i (jobs s)") (auto simp: status_of_def get_row_update_assign)

lemma update_dead_step:
  assumes "kept w i t"
    and "svc (Pg (UPDATE_JOB [SetStatus Dead, SetAttempt n, SetError m] i)) t = (r, t')"
  shows "not_lost w i t' \<and> (\<forall>v. r = Inr v \<longrightarrow> undecided w i t')"
proof -
  have k: "kept w i t'" using keeps_kept(1) assms unfolding keeps_def by (metis snd_conv)
  moreover have "status_of i t' \<in> {None, Some Dead}" if "r = Inr v" for v
    using assms(2) that status_of_update [of "clock t" "[SetAttempt n, SetError m]" i Dead t]
    by (auto simp: laws split: if_splits option.splits)
  ultimately show ?thesis using kept_not_lost by (auto simp: undecided_def)
qed

lemma log_dead_step:
  assumes "undecided w i t" and "svc (Pg (INSERT_EVENT i st m)) t = (r, t')"
  shows "not_lost w i t' \<and> (\<forall>v. r = Inr v \<longrightarrow> is_dead i t')"
proof -
  have "kept w i t'" using keeps_kept(2) assms unfolding keeps_def undecided_def by (metis snd_conv)
  moreover have "is_dead i t'" if "r = Inr v" for v
    using assms that get_row_None [of i "jobs t"]
    by (auto simp: laws undecided_def is_dead_def status_of_def split: if_splits)
  ultimately show ?thesis using kept_not_lost by auto
qed

lemma wsafe_dead:
  assumes "kept w i s"
  shows "wsafe svc w i (not_lost w i)
    (call (Pg (UPDATE_JOB [SetStatus Dead, SetAttempt n, SetError m] i)) (\<lambda>_.
      and_then (process_logEvent i Dead l) (\<lambda>_. and_then (process_publish i Dead a) (\<lambda>_.
      call (Redis (HDEL JOB_DATA_KEY i)) (\<lambda>_. and_then (releaseJob w i) (\<lambda>_. Ret v)))))) s"
proof -
  note ph = phases(2,5,6) [of w i]
  have dead: "wsafe svc w i (not_lost w i) (and_then (process_publish i Dead a) (\<lambda>_.
      call (Redis (HDEL JOB_DATA_KEY i)) (\<lambda>_. and_then (releaseJob w i) (\<lambda>_. Ret v)))) t"
    if "is_dead i t" for t
    by (rule wsafe_publish [OF ph(3) that], simp, simp, rule phase_keep [OF ph(3)], assumption,
        simp, rule wsafe_release [OF ph(3)], assumption, simp, simp, rule phase_end(1) [OF ph(3)])
  show ?thesis
    unfolding process_logEvent_def and_then_call and_then.simps
    by (rule phase_step [OF ph(1) assms], erule (1) update_dead_step, rule phase_step [OF ph(2)],
        assumption, erule (1) log_dead_step, rule dead)
qed

lemma wsafe_handleFailure:
  assumes "kept w i s" and "i = cl_id cl"
  shows "wsafe svc w i (not_lost w i) (handleFailure w cl cfg err) s"
proof -
  note ph = phases(2,4) [of w i]
  have release: "wsafe svc w i (not_lost w i) (call Now (\<lambda>now.
      call (Redis (ZADD DELAYED_KEY (the_int now + d) i)) (\<lambda>_.
      and_then (releaseJob w i) (\<lambda>_. Ret v)))) t"
    if "kept w i t" for t d and v :: outcome
    by (rule phase_keep [OF ph(1) that], simp, rule phase_step [OF ph(1)], assumption,
        erule (1) zadd_step, rule wsafe_release [OF ph(2)], assumption, simp, simp,
        rule phase_end(1) [OF ph(2)])
  have retry: "wsafe svc w i (not_lost w i) (call Random (\<lambda>x. sync_call (f x) (\<lambda>d.
      call (Pg (UPDATE_JOB (asg d) i)) (\<lambda>_. and_then (process_logEvent i Delayed (l d)) (\<lambda>_.
      and_then (process_publish i Delayed (a d)) (\<lambda>_. call (Redis (HSET JOB_DATA_KEY i e)) (\<lambda>_.
      call Now (\<lambda>now. call (Redis (ZADD DELAYED_KEY (the_int now + d) i)) (\<lambda>_.
      and_then (releaseJob w i) (\<lambda>_. Ret (v d)))))))))) ) s" for f asg l a e and v :: "int \<Rightarrow> outcome"
  proof (rule phase_keep [OF ph(1) assms(1)], simp)
    fix x t assume t: "kept w i t"
    show "wsafe svc w i (not_lost w i) (sync_call (f x) (\<lambda>d.
      call (Pg (UPDATE_JOB (asg d) i)) (\<lambda>_. and_then (process_logEvent i Delayed (l d)) (\<lambda>_.
      and_then (process_publish i Delayed (a d)) (\<lambda>_. call (Redis (HSET JOB_DATA_KEY i e)) (\<lambda>_.
      call Now (\<lambda>now. call (Redis (ZADD DELAYED_KEY (the_int now + d) i)) (\<lambda>_.
      and_then (releaseJob w i) (\<lambda>_. Ret (v d)))))))))) t"
      unfolding sync_call_def
      by (cases "f x", simp del: safe.simps, rule phase_end(2) [OF ph(1) t], simp del: safe.simps,
          rule phase_keep [OF ph(1) t], simp, rule wsafe_log [OF ph(1)], assumption, simp,
          rule wsafe_publish [OF ph(1)], assumption, simp, simp, rule phase_keep [OF ph(1)],
          assumption, simp, rule release)
  qed
  show ?thesis
    unfolding handleFailure_def Let_def assms(2) [symmetric]
    by (cases "cl_envelope cl")
      (auto simp del: safe.simps intro: wsafe_dead [OF assms(1)] retry)
qed

lemma wsafe_processJob:
  assumes "holding w i s" and "i = cl_id cl"
  shows "wsafe svc w i (not_lost w i) (processJob w cl cfg) s"
  unfolding processJob_def
proof (rule safe_catch [OF left_alone_refl])
  show "safe svc (job_left_alone w i) (\<lambda>_ _. True) (not_lost w i) (\<lambda>_. not_lost w i)
      (\<lambda>_. kept w i) (execute_job w cl cfg) s"
    by (rule safe_weaken [OF wsafe_execute_job])
      (use assms kept_not_lost in \<open>auto simp: kept_def\<close>)
  show "wsafe svc w i (not_lost w i) (handleFailure w cl cfg e) t" if "kept w i t" for e t
    by (rule wsafe_handleFailure [OF that assms(2)])
qed

end

section \<open>Properties\<close>

text \<open>
  A run that settles a job touches nothing of any other job, and of the lists only the
  worker's own processing list, which loses the job.
\<close>

definition only_job :: "string \<Rightarrow> string \<Rightarrow> store \<Rightarrow> store \<Rightarrow> bool" where
  "only_job w i s s' \<longleftrightarrow>
     (\<forall>j. j \<noteq> i \<longrightarrow> get_row j (jobs s') = get_row j (jobs s) \<and> (\<forall>h. hashes s' h j = hashes s h j)) \<and>
     lists s' = (lists s)(processingKey w := removeAll i (lists s (processingKey w))) \<and>
     strs s' = strs s \<and> sets s' = sets s \<and> scheduled_jobs s' = scheduled_jobs s"

lemma only_job_settled:
  "only_job w i s (released w i (without_data i (settled i st asg l a
     ((begun w i s)\<lparr>clock := c, draws := d\<rparr>))))"
  "only_job w i s (released w i (delayed_again e n i (settled i st asg l a
     ((begun w i s)\<lparr>clock := c, draws := d\<rparr>))))"
  by (simp_all add: only_job_def settle_defs)

definition demo_claim :: "string \<Rightarrow> claimed" where
  "demo_claim i = \<lparr>cl_id = i, cl_priority = ''high'', cl_envelope = Some (demo_envelope i 0)\<rparr>"

definition demo_worker :: worker_config where
  "demo_worker = \<lparr>concurrency = 5, defaultTimeoutMs = 30000, heartbeatIntervalMs = 5000,
     gracePeriodMs = 20000, backoffBaseMs = 1000, backoffMaxMs = 60000\<rparr>"

definition demo_running :: "string list \<Rightarrow> store" where
  "demo_running is = empty_store\<lparr>clock := 7, jobs := map (\<lambda>i. demo_row i Queued 0) is,
     lists := (\<lambda>_. [])(processingKey ''w1'' := is),
     hashes := (\<lambda>_. Map.empty)(JOB_DATA_KEY := [''a'' \<mapsto> VEnv (demo_envelope ''a'' 0)])\<rparr>"

lemmas demo_process_defs = demo_claim_def demo_worker_def demo_running_def demo_row_def
  demo_envelope_def empty_store_def

text \<open>
  C17: A job whose handler returns in time (FR-3.3) is settled as completed: the outcome
  carries the handler's result; the row gets status completed, its completion time and the
  worker, and loses its error; the job data and the heartbeat are deleted and the job leaves
  the worker's processing list. Nothing else changes.
\<close>

theorem process_completes:
  assumes "services svc out" and "get_row i (jobs s) = Some r" and "i = cl_id c"
    and "executes svc cfg c (begun w i s) = (Inr v, t)"
  shows "\<exists>s'. run svc (processJob w c cfg) s = (Inr (OutCompleted v), s') \<and>
    get_row i (jobs s') = Some (r\<lparr>status := Completed, worker_id := Some w,
      completed_at := Some (clock t), error := None, updated_at := clock t\<rparr>) \<and>
    hashes s' JOB_DATA_KEY i = None \<and> hashes s' HEARTBEATS_KEY i = None \<and>
    zsets s' = zsets s \<and> only_job w i s s'"
proof -
  obtain n d where t: "t = (begun w i s)\<lparr>clock := n, draws := d\<rparr>"
    using services.executes_frame [OF assms(1), of cfg c "begun w i s"] assms(4) by auto
  have "run svc (processJob w c cfg) s = (Inr (OutCompleted v), released w i (without_data i
      (settled i Completed [SetCompletedNow, SetError None] ''Job completed successfully''
        ''Job completed successfully'' t)))"
    using services.run_processJob [OF assms(1), of w c cfg s]
      services.run_execute_job [OF assms(1) _ assms(3,4)] get_row_in_ids [OF assms(2)] assms(3)
    by simp
  then show ?thesis using assms(2) t only_job_settled(1) by (auto simp: settle_defs)
qed

theorem process_completes_witness:
  "\<exists>s' r'. run mem_svc (processJob ''w1'' (demo_claim ''a'') demo_worker) (demo_running [''b'', ''a'']) =
       (Inr (OutCompleted (JObj [(''ok'', JBool True)])), s') \<and>
     lists s' (processingKey ''w1'') = [''b''] \<and>
     get_row ''a'' (jobs s') = Some r' \<and> status r' = Completed"
proof -
  let ?s = "demo_running [''b'', ''a'']"
  have ex: "executes mem_svc demo_worker (demo_claim ''a'') (begun ''w1'' ''a'' ?s) =
      (Inr (JObj [(''ok'', JBool True)]), begun ''w1'' ''a'' ?s)"
    by (simp add: executes_def getHandler_def handlers_def timed_handler_def noop_def demo_process_defs)
  have row: "get_row ''a'' (jobs ?s) = Some (demo_row ''a'' Queued 0)"
    by (simp add: demo_process_defs)
  show ?thesis
    using process_completes [OF mem.services_axioms row _ ex]
    by (auto simp: demo_claim_def only_job_def) (auto simp: demo_process_defs)
qed

definition unknown_job :: "int \<Rightarrow> claimed" where
  "unknown_job att = (demo_claim ''a'')\<lparr>cl_envelope :=
     Some ((demo_envelope ''a'' att)\<lparr>env_type := ''nope''\<rparr>)\<rparr>"

lemma unknown_job_fails:
  "executes mem_svc demo_worker (unknown_job att) s =
    (Inl (JsError (''No handler registered for job type '' @ [CHR 0x22] @ ''nope'' @ [CHR 0x22])), s)"
  by (simp add: executes_def getHandler_def handlers_def object_prototype_def unknown_job_def)

lemma unknown_job_simps [simp]:
  "cl_id (unknown_job att) = ''a''"
  "cl_envelope (unknown_job att) = Some ((demo_envelope ''a'' att)\<lparr>env_type := ''nope''\<rparr>)"
  by (simp_all add: unknown_job_def demo_claim_def)

lemma demo_running_row: "get_row ''a'' (jobs (demo_running [''a''])) = Some (demo_row ''a'' Queued 0)"
  by (simp add: demo_process_defs)

lemma settle_retry:
  assumes "services svc out" and "get_row i (jobs s) = Some r" and "i = cl_id c"
    and "cl_envelope c = Some e" and "executes svc cfg c (begun w i s) = (Inl err, t)"
    and "env_attempt e + 1 \<le> env_maxRetries e" and "0 \<le> env_attempt e"
    and "env_attempt e + 1 < 2 ^ 31" and "0 \<le> backoffBaseMs cfg" and "0 \<le> backoffMaxMs cfg"
  shows "\<exists>d s'. run svc (processJob w c cfg) s = (Inr (OutRetryScheduled d), s') \<and>
    0 \<le> d \<and> d \<le> min (backoffBaseMs cfg * 2 ^ nat (env_attempt e)) (backoffMaxMs cfg) \<and>
    get_row i (jobs s') = Some (r\<lparr>status := Delayed, worker_id := Some w,
      attempt := env_attempt e + 1, error := Some (message_of err),
      scheduled_for := Some (clock t + d), updated_at := clock t\<rparr>) \<and>
    data_of s' i = Some (e\<lparr>env_attempt := env_attempt e + 1\<rparr>) \<and>
    hashes s' HEARTBEATS_KEY i = None \<and>
    zsets s' = (zsets s)(DELAYED_KEY := zadd (clock t + d) i (zsets s DELAYED_KEY)) \<and>
    only_job w i s s'"
proof -
  obtain n k where t: "t = (begun w i s)\<lparr>clock := n, draws := k\<rparr>"
    using services.executes_frame [OF assms(1), of cfg c "begun w i s"] assms(5) by auto
  have ids: "cl_id c \<in> job_id ` set (jobs s)" "cl_id c \<in> job_id ` set (jobs t)"
    using get_row_in_ids [OF assms(2)] assms(3) t by (simp_all add: begun_def)
  let ?d = "backoff_of out (env_attempt e) (backoffBaseMs cfg) (backoffMaxMs cfg) t"
  have d: "0 \<le> ?d \<and> ?d \<le> min (backoffBaseMs cfg * 2 ^ nat (env_attempt e)) (backoffMaxMs cfg)"
    using floor_scale_bounds(1,2) [OF runtime_service.random_range [OF services.axioms(3) [OF assms(1)]],
        of "min (backoffBaseMs cfg * 2 ^ nat (env_attempt e)) (backoffMaxMs cfg)" t]
      assms(9,10) by (simp add: backoff_of_def)
  obtain l a where "run svc (handleFailure w c cfg err) t = (Inr (OutRetryScheduled ?d),
      released w i (delayed_again (e\<lparr>env_attempt := env_attempt e + 1\<rparr>) (clock t + ?d) i
       (settled i Delayed [SetAttempt (Some (env_attempt e + 1)),
           SetError (Some (message_of err)), SetScheduledIn ?d] l a (t\<lparr>draws := Suc (draws t)\<rparr>))))"
    using services.run_handleFailure_retry [OF assms(1) ids(2) assms(3,4,6-8) refl] by blast
  then have "run svc (processJob w c cfg) s = (Inr (OutRetryScheduled ?d),
      released w i (delayed_again (e\<lparr>env_attempt := env_attempt e + 1\<rparr>) (clock t + ?d) i
       (settled i Delayed [SetAttempt (Some (env_attempt e + 1)), SetError (Some (message_of err)),
          SetScheduledIn ?d] l a ((begun w i s)\<lparr>clock := n, draws := Suc k\<rparr>))))"
    using services.run_processJob [OF assms(1), of w c cfg s]
      services.run_execute_job [OF assms(1) ids(1) assms(3,5)] t by simp
  then show ?thesis
    using assms(2) t d only_job_settled(2) by (auto simp: settle_defs data_of_def)
qed

text \<open>
  A failed job with retries left (FR-4.1), the handler having thrown, timed out or not
  existed: the outcome is a delay between zero and the capped exponential ceiling, the row
  is delayed with the next attempt number, the error and the time of the retry, the job data
  carry the next attempt number and are otherwise unchanged, the delayed set holds the job
  at that time, and the job leaves the processing list and loses its heartbeat.
\<close>

theorem process_schedules_retry:
  assumes "services svc out" and "get_row i (jobs s) = Some r" and "i = cl_id c"
    and "cl_envelope c = Some e" and "executes svc cfg c (begun w i s) = (Inl err, t)"
    and "env_attempt e + 1 \<le> env_maxRetries e" and "0 \<le> env_attempt e"
    and "env_attempt e + 1 < 2 ^ 31" and "0 \<le> backoffBaseMs cfg" and "0 \<le> backoffMaxMs cfg"
  shows "\<exists>d s'. run svc (processJob w c cfg) s = (Inr (OutRetryScheduled d), s') \<and>
    0 \<le> d \<and> d \<le> min (backoffBaseMs cfg * 2 ^ nat (env_attempt e)) (backoffMaxMs cfg) \<and>
    get_row i (jobs s') = Some (r\<lparr>status := Delayed, worker_id := Some w,
      attempt := env_attempt e + 1, error := Some (message_of err),
      scheduled_for := Some (clock t + d), updated_at := clock t\<rparr>) \<and>
    data_of s' i = Some (e\<lparr>env_attempt := env_attempt e + 1\<rparr>) \<and>
    hashes s' HEARTBEATS_KEY i = None \<and>
    zsets s' = (zsets s)(DELAYED_KEY := zadd (clock t + d) i (zsets s DELAYED_KEY)) \<and>
    only_job w i s s'"
  by (rule settle_retry [OF assms])

theorem process_schedules_retry_witness:
  "\<exists>d s'. run mem_svc (processJob ''w1'' (unknown_job 0) demo_worker) (demo_running [''a'']) =
       (Inr (OutRetryScheduled d), s') \<and> 0 \<le> d \<and> d \<le> 1000 \<and>
     zsets s' DELAYED_KEY = [ZEntry (7 + d) ''a''] \<and> lists s' (processingKey ''w1'') = []"
  using process_schedules_retry [OF mem.services_axioms demo_running_row _ _
      unknown_job_fails [of 0 "begun ''w1'' ''a'' (demo_running [''a''])"]]
  by (fastforce simp: demo_envelope_def demo_worker_def demo_running_def begun_def only_job_def
      empty_store_def zadd_def)

lemma settle_dead:
  assumes "services svc out" and "get_row i (jobs s) = Some r" and "i = cl_id c"
    and "cl_envelope c = Some e" and "executes svc cfg c (begun w i s) = (Inl err, t)"
    and "env_maxRetries e < env_attempt e + 1" and "0 \<le> env_attempt e"
    and "env_attempt e + 1 < 2 ^ 31"
  shows "\<exists>s'. run svc (processJob w c cfg) s = (Inr OutDead, s') \<and>
    get_row i (jobs s') = Some (r\<lparr>status := Dead, worker_id := Some w,
      attempt := env_attempt e + 1, error := Some (message_of err), updated_at := clock t\<rparr>) \<and>
    hashes s' JOB_DATA_KEY i = None \<and> hashes s' HEARTBEATS_KEY i = None \<and>
    zsets s' = zsets s \<and> only_job w i s s'"
proof -
  obtain n k where t: "t = (begun w i s)\<lparr>clock := n, draws := k\<rparr>"
    using services.executes_frame [OF assms(1), of cfg c "begun w i s"] assms(5) by auto
  have ids: "cl_id c \<in> job_id ` set (jobs s)" "cl_id c \<in> job_id ` set (jobs t)"
    using get_row_in_ids [OF assms(2)] assms(3) t by (simp_all add: begun_def)
  obtain l where "run svc (processJob w c cfg) s = (Inr OutDead, released w i (without_data i
      (settled i Dead [SetAttempt (Some (env_attempt e + 1)), SetError (Some (message_of err))] l
       ''Moved to dead-letter queue (retries exhausted)'' t)))"
    using services.run_processJob [OF assms(1), of w c cfg s]
      services.run_execute_job [OF assms(1) ids(1) assms(3,5)]
      services.run_handleFailure_dead [OF assms(1) ids(2) assms(3,4,6-8), of w cfg err] by auto
  then show ?thesis using assms(2) t only_job_settled(1) by (auto simp: settle_defs)
qed

text \<open>
  A failed job without retries left (FR-4.2) is dead: the row says so with the attempt
  number and the last error, the job data and heartbeat are deleted, the delayed set does
  not change and the job leaves the processing list.
\<close>

theorem process_moves_to_dead:
  assumes "services svc out" and "get_row i (jobs s) = Some r" and "i = cl_id c"
    and "cl_envelope c = Some e" and "executes svc cfg c (begun w i s) = (Inl err, t)"
    and "env_maxRetries e < env_attempt e + 1" and "0 \<le> env_attempt e"
    and "env_attempt e + 1 < 2 ^ 31"
  shows "\<exists>s'. run svc (processJob w c cfg) s = (Inr OutDead, s') \<and>
    get_row i (jobs s') = Some (r\<lparr>status := Dead, worker_id := Some w,
      attempt := env_attempt e + 1, error := Some (message_of err), updated_at := clock t\<rparr>) \<and>
    hashes s' JOB_DATA_KEY i = None \<and> hashes s' HEARTBEATS_KEY i = None \<and>
    zsets s' = zsets s \<and> only_job w i s s'"
  by (rule settle_dead [OF assms])

theorem process_moves_to_dead_witness:
  "\<exists>s' r'. run mem_svc (processJob ''w1'' (unknown_job 3) demo_worker) (demo_running [''a'']) =
       (Inr OutDead, s') \<and> get_row ''a'' (jobs s') = Some r' \<and> status r' = Dead \<and> attempt r' = 4"
  using process_moves_to_dead [OF mem.services_axioms demo_running_row _ _
      unknown_job_fails [of 3 "begun ''w1'' ''a'' (demo_running [''a''])"]]
  by (fastforce simp: demo_envelope_def)

text \<open>
  A job claimed without its data (the hash entry was gone) is not settled: the run ends
  with the database's error for the attempt number \<open>NaN\<close>, the row is left active, and the
  job stays in the worker's processing list for the reaper.
\<close>

theorem process_without_data:
  assumes "services svc out" and "get_row i (jobs s) = Some r" and "i = cl_id c"
    and "cl_envelope c = None"
  shows "\<exists>m. run svc (processJob w c cfg) s = (Inl (PgError m), begun w i s)"
proof -
  have "executes svc cfg c (begun w i s) =
      (Inl (JsError (''No handler registered for job type '' @ [CHR 0x22] @ ''undefined'' @ [CHR 0x22])), begun w i s)"
    using assms(4) by (simp add: executes_def getHandler_def handlers_def object_prototype_def)
  then show ?thesis
    using services.run_processJob [OF assms(1), of w c cfg s]
      services.run_execute_job [OF assms(1) _ assms(3)] get_row_in_ids [OF assms(2)] assms(3)
      services.run_handleFailure_no_data [OF assms(1,4), of w cfg _ "begun w i s"]
    by auto
qed

theorem process_without_data_witness:
  "\<exists>m. run mem_svc (processJob ''w1'' ((demo_claim ''a'')\<lparr>cl_envelope := None\<rparr>) demo_worker)
     (demo_running [''a'']) = (Inl (PgError m), begun ''w1'' ''a'' (demo_running [''a'']))"
  by (rule process_without_data [OF mem.services_axioms, where r = "demo_row ''a'' Queued 0"])
    (simp_all add: demo_process_defs)



text \<open>
  C8: A worker that stops anywhere while it processes a claimed job, through a crash or
  through a Redis or Postgres connection lost before or after any command, never loses the
  job (NFR-3): it is still in the worker's processing list, where the reaper finds it, or
  already in the delayed set, or it is dead, or its completion is on record. The rest of the
  system may act in between as long as it leaves this job alone.
\<close>

theorem worker_crash_keeps_job:
  assumes "services svc out" and "cl_id c \<in> set (lists s (processingKey w))"
    and "reaches svc (job_left_alone w (cl_id c)) (processJob w c cfg) s q t"
  shows "cl_id c \<in> set (lists t (processingKey w)) \<or> cl_id c \<in> zmembers (zsets t DELAYED_KEY) \<or>
    map_option status (get_row (cl_id c) (jobs t)) = Some Dead \<or>
    (\<exists>e \<in> set (job_events t). ev_job e = cl_id c \<and> ev_status e = Completed)"
  using reaches_invariant [OF assms(3) left_alone_refl left_alone_trans
      services.wsafe_processJob [OF assms(1) _ refl]] assms(2)
  by (simp add: not_lost_def holding_def delayed_entry_def status_of_def logged_def)

theorem worker_crash_keeps_job_witness:
  "\<exists>q. reaches mem_svc (job_left_alone ''w1'' ''a'') (processJob ''w1'' (demo_claim ''a'') demo_worker)
       (demo_running [''a'']) q (demo_running [''a'']) \<and>
     (''a'' \<in> set (lists (demo_running [''a'']) (processingKey ''w1'')) \<or>
      ''a'' \<in> zmembers (zsets (demo_running [''a'']) DELAYED_KEY) \<or>
      map_option status (get_row ''a'' (jobs (demo_running [''a'']))) = Some Dead \<or>
      (\<exists>e \<in> set (job_events (demo_running [''a''])). ev_job e = ''a'' \<and> ev_status e = Completed))"
proof -
  let ?p = "processJob ''w1'' (demo_claim ''a'') demo_worker"
  obtain cm k where p: "?p = Await cm k"
    by (simp add: processJob_def execute_job_def call_def Let_def)
  have r: "reaches mem_svc (job_left_alone ''w1'' ''a'') ?p (demo_running [''a'']) (k (Inl ConnLost))
      (demo_running [''a''])"
    by (rule reaches.lost_before) (subst p [symmetric], rule reaches.start)
  have h: "cl_id (demo_claim ''a'') \<in> set (lists (demo_running [''a'']) (processingKey ''w1''))"
    by (simp add: demo_process_defs)
  show ?thesis
    using worker_crash_keeps_job [OF mem.services_axioms h, of demo_worker "k (Inl ConnLost)"
        "demo_running [''a'']"] r
    by (auto simp: demo_claim_def)
qed

text \<open>
  The registry lookup also finds what every object inherits: a job of the type
  \<open>toString\<close>, for which nothing is registered, is reported as completed instead of failing
  with \<open>No handler registered\<close>.
\<close>

theorem inherited_name_completes:
  assumes "services svc out" and "get_row i (jobs s) = Some r" and "i = cl_id c"
    and "cl_envelope c = Some e" and "env_type e = ''toString''"
  shows "\<exists>s'. run svc (processJob w c cfg) s =
      (Inr (OutCompleted (JStr ''[object Undefined]'')), s') \<and> status_of i s' = Some Completed"
proof -
  have "executes svc cfg c (begun w i s) = (Inr (JStr ''[object Undefined]''), begun w i s)"
    using assms(4,5)
    by (simp add: executes_def getHandler_def handlers_def object_prototype_def timed_handler_def)
  then show ?thesis
    using services.run_processJob [OF assms(1), of w c cfg s]
      services.run_execute_job [OF assms(1) _ assms(3)] get_row_in_ids [OF assms(2)] assms(2,3)
    by (auto simp: status_of_def settle_defs)
qed

theorem inherited_name_completes_witness:
  "\<exists>s'. run mem_svc (processJob ''w1'' ((demo_claim ''a'')\<lparr>cl_envelope :=
       Some ((demo_envelope ''a'' 0)\<lparr>env_type := ''toString''\<rparr>)\<rparr>) demo_worker)
     (demo_running [''a'']) = (Inr (OutCompleted (JStr ''[object Undefined]'')), s') \<and>
     status_of ''a'' s' = Some Completed"
  by (rule inherited_name_completes [OF mem.services_axioms demo_running_row,
      where e = "(demo_envelope ''a'' 0)\<lparr>env_type := ''toString''\<rparr>"])
    (simp_all add: demo_claim_def demo_envelope_def)

fun announces :: "job_status \<Rightarrow> cmd \<Rightarrow> bool" where
  "announces st (Redis (PUBLISH ch e)) = (e_status e = st)"
| "announces st _ = False"

text \<open>
  C24: The \<open>try\<close> block reaches past the completion: when only the message that announces the
  completion cannot be sent, the job, already completed and logged as such, is treated as a
  failed one. It is delayed with the connection error and the next attempt number, and its
  work will be done again.
\<close>

theorem lost_announcement_repeats_job:
  assumes "services svc out" and "get_row i (jobs s) = Some r" and "i = cl_id c"
    and "cl_envelope c = Some e" and "env_type e = ''noop''"
    and "env_attempt e + 1 \<le> env_maxRetries e" and "0 \<le> env_attempt e"
    and "env_attempt e + 1 < 2 ^ 31"
  shows "\<exists>d s'. run (losing (announces Completed) svc) (processJob w c cfg) s =
      (Inr (OutRetryScheduled d), s') \<and>
    get_row i (jobs s') = Some (r\<lparr>status := Delayed, worker_id := Some w,
      completed_at := Some (clock s), attempt := env_attempt e + 1,
      error := Some (message_of ConnLost), scheduled_for := Some (clock s + d),
      updated_at := clock s\<rparr>) \<and>
    logged i Completed s' \<and> delayed_entry i s'"
  using assms(2-) services.laws [OF assms(1)]
  by (simp add: processJob_def execute_job_def handleFailure_def process_logEvent_def
      process_publish_def releaseJob_def losing_def getHandler_def handlers_def noop_def Let_def
      prog_run backoff_value logged_def delayed_entry_def get_row_in_ids)

theorem lost_announcement_repeats_job_witness:
  "\<exists>d s'. run (losing (announces Completed) mem_svc) (processJob ''w1'' (demo_claim ''a'') demo_worker)
       (demo_running [''a'']) = (Inr (OutRetryScheduled d), s') \<and>
     logged ''a'' Completed s' \<and> delayed_entry ''a'' s'"
  using lost_announcement_repeats_job [OF mem.services_axioms demo_running_row,
      where c = "demo_claim ''a''" and e = "demo_envelope ''a'' 0" and w = "''w1''" and cfg = demo_worker]
  by (auto simp: demo_claim_def demo_envelope_def)

section \<open>The retries of a job that keeps failing\<close>

text \<open>
  The runs of one job, each with the data the run before it stored, until one settles it.
\<close>

primrec attempts :: "service \<Rightarrow> string \<Rightarrow> worker_config \<Rightarrow> nat \<Rightarrow> claimed \<Rightarrow> store \<Rightarrow> (err + outcome) list" where
  "attempts svc w cfg 0 c s = []"
| "attempts svc w cfg (Suc n) c s =
     (case run svc (processJob w c cfg) s of
        (Inr (OutRetryScheduled d), s') \<Rightarrow> Inr (OutRetryScheduled d) #
           attempts svc w cfg n (c\<lparr>cl_envelope := data_of s' (cl_id c)\<rparr>) s'
      | (r, s') \<Rightarrow> [r])"

definition always_fails :: "service \<Rightarrow> worker_config \<Rightarrow> claimed \<Rightarrow> envelope \<Rightarrow> bool" where
  "always_fails svc cfg c e \<longleftrightarrow>
     (\<forall>a s. \<exists>err t. executes svc cfg (c\<lparr>cl_envelope := Some (e\<lparr>env_attempt := a\<rparr>)\<rparr>) s = (Inl err, t))"

lemma always_fails_next: "always_fails svc cfg c e \<Longrightarrow>
    always_fails svc cfg (c\<lparr>cl_envelope := v\<rparr>) (e\<lparr>env_attempt := a\<rparr>)"
  by (simp add: always_fails_def)

lemma always_failsD: "always_fails svc cfg c e \<Longrightarrow> cl_envelope c = Some e \<Longrightarrow>
    \<exists>err t. executes svc cfg c s = (Inl err, t)"
  unfolding always_fails_def by (metis (mono_tags) claimed.surjective claimed.update_convs(3)
      envelope.surjective envelope.update_convs(5))

definition within_backoff :: "worker_config \<Rightarrow> int \<Rightarrow> int list \<Rightarrow> bool" where
  "within_backoff cfg a ds \<longleftrightarrow> (\<forall>k < length ds. 0 \<le> ds ! k \<and>
     ds ! k \<le> min (backoffBaseMs cfg * 2 ^ nat (a + int k)) (backoffMaxMs cfg))"

lemma within_backoff_Cons:
  assumes "0 \<le> d" and "d \<le> min (backoffBaseMs cfg * 2 ^ nat a) (backoffMaxMs cfg)"
    and "within_backoff cfg (a + 1) ds"
  shows "within_backoff cfg a (d # ds)"
  unfolding within_backoff_def
proof (intro allI impI)
  fix k assume k: "k < length (d # ds)"
  show "0 \<le> (d # ds) ! k \<and>
      (d # ds) ! k \<le> min (backoffBaseMs cfg * 2 ^ nat (a + int k)) (backoffMaxMs cfg)"
  proof (cases k)
    case (Suc m)
    have "a + 1 + int m = a + int k" using Suc by simp
    then show ?thesis using assms(3) k Suc unfolding within_backoff_def by (auto simp: add.assoc dest: spec [of _ m])
  qed (use assms(1,2) in simp)
qed

lemma attempts_Suc:
  assumes "run svc (processJob w c cfg) s = (r, s')"
  shows "attempts svc w cfg (Suc n) c s =
    (case r of Inr (OutRetryScheduled d) \<Rightarrow> r # attempts svc w cfg n (c\<lparr>cl_envelope := data_of s' (cl_id c)\<rparr>) s'
     | _ \<Rightarrow> [r])"
  using assms by (auto split: sum.split outcome.split)

declare attempts.simps(2) [simp del]


lemma unknown_always_fails: "always_fails mem_svc demo_worker (unknown_job 0)
    ((demo_envelope ''a'' 0)\<lparr>env_type := ''nope''\<rparr>)"
  by (simp add: always_fails_def executes_def getHandler_def handlers_def object_prototype_def
      demo_envelope_def)


end
