(* ===== verification/Reaper.thy ===== *)
theory Reaper
  imports Process
begin

text \<open>
  \<open>packages/reaper/src/index.js\<close>: the scan of the processing lists and the requeueing of
  jobs whose heartbeat is stale.
\<close>

record reaper_config =
  pollIntervalMs :: int
  orphanTimeoutMs :: int
  reaper_backoffBaseMs :: int
  reaper_backoffMaxMs :: int

definition LOCK_TTL_MS :: "reaper_config \<Rightarrow> int" where
  "LOCK_TTL_MS config = pollIntervalMs config * 4"

definition reaper_logEvent :: "string \<Rightarrow> job_status \<Rightarrow> string \<Rightarrow> unit prog" where
  "reaper_logEvent jobId st message =
     call (Pg (INSERT_EVENT jobId st (Some message))) (\<lambda>_. Ret ())"

definition reaper_publish :: "string \<Rightarrow> job_status \<Rightarrow> string \<Rightarrow> unit prog" where
  "reaper_publish jobId st message =
     call Now (\<lambda>t. call (Redis (PUBLISH EVENTS_CHANNEL
       \<lparr>e_jobId = jobId, e_status = st, e_message = message, e_ts = the_int t\<rparr>)) (\<lambda>_. Ret ()))"

text \<open>The envelope rebuilt from the row when the job data is gone.\<close>

definition envelope_of_row :: "string \<Rightarrow> job_row \<Rightarrow> envelope" where
  "envelope_of_row jobId job = \<lparr>env_id = jobId, env_type = job_type job,
     env_payload = payload job, env_priority = priority job, env_attempt = attempt job,
     env_maxRetries = max_retries job\<rparr>"

definition reap_message :: "string \<Rightarrow> int \<Rightarrow> string" where
  "reap_message workerId age = ''Reaped: worker '' @ workerId @ '' heartbeat stale ('' @
     str_of_int age @ ''ms) -- likely crash mid-execution.''"

definition requeueOrphan :: "reaper_config \<Rightarrow> string \<Rightarrow> string \<Rightarrow> int \<Rightarrow> unit prog" where
  "requeueOrphan config workerId jobId age =
     call (Redis (LREM (processingKey workerId) jobId)) (\<lambda>removed.
     if the_int removed = 0 then Ret () else
     call (Redis (HDEL HEARTBEATS_KEY jobId)) (\<lambda>_.
     call (Redis (HGET JOB_DATA_KEY jobId)) (\<lambda>raw.
     call (Pg (SELECT_JOB jobId)) (\<lambda>rows.
     case row0 rows of None \<Rightarrow> Ret () | Some job \<Rightarrow>
     (let envelope = (case parse_envelope raw of Some e \<Rightarrow> e | None \<Rightarrow> envelope_of_row jobId job);
          nextAttempt = env_attempt envelope + 1;
          message = reap_message workerId age in
      if nextAttempt \<le> env_maxRetries envelope then
        call Random (\<lambda>x.
        sync_call (computeBackoffMs (env_attempt envelope) (reaper_backoffBaseMs config)
                    (reaper_backoffMaxMs config) True (the_rat x)) (\<lambda>delayMs.
        call (Pg (UPDATE_JOB [SetStatus Delayed, SetAttempt (Some nextAttempt),
                    SetError (Some message), SetWorkerId None, SetScheduledIn delayMs] jobId)) (\<lambda>_.
        and_then (reaper_logEvent jobId Delayed (message @ '' Retry '' @ str_of_int nextAttempt @
                    ''/'' @ str_of_int (env_maxRetries envelope) @ '' in '' @
                    str_of_int delayMs @ ''ms.'')) (\<lambda>_.
        and_then (reaper_publish jobId Delayed (message @ '' Requeued (attempt '' @
                    str_of_int nextAttempt @ '').'')) (\<lambda>_.
        call (Redis (HSET JOB_DATA_KEY jobId (VEnv (envelope\<lparr>env_attempt := nextAttempt\<rparr>)))) (\<lambda>_.
        call Now (\<lambda>now.
        call (Redis (ZADD DELAYED_KEY (the_int now + delayMs) jobId)) (\<lambda>_.
        Ret ()))))))))
      else
        call (Pg (UPDATE_JOB [SetStatus Dead, SetAttempt (Some nextAttempt),
                    SetError (Some message), SetWorkerId None] jobId)) (\<lambda>_.
        and_then (reaper_logEvent jobId Dead (message @
                    '' Retries exhausted -- moved to DLQ.'')) (\<lambda>_.
        and_then (reaper_publish jobId Dead
                    ''Moved to dead-letter queue after crash + retry exhaustion'') (\<lambda>_.
        call (Redis (HDEL JOB_DATA_KEY jobId)) (\<lambda>_.
        Ret ())))))))))"

text \<open>A heartbeat field holds the decimal text of a time; absent is \<open>null\<close>.\<close>

fun heartbeat_time :: "reply \<Rightarrow> int option" where
  "heartbeat_time (RVal (VTime t)) = Some t"
| "heartbeat_time _ = None"

definition still_alive :: "reaper_config \<Rightarrow> int \<Rightarrow> int option \<Rightarrow> bool" where
  "still_alive config now hb =
     (case hb of None \<Rightarrow> False | Some lastBeat \<Rightarrow> now - lastBeat < orphanTimeoutMs config)"

primrec reap_each :: "reaper_config \<Rightarrow> string \<Rightarrow> int \<Rightarrow> string list \<Rightarrow> unit prog" where
  "reap_each config workerId now [] = Ret ()"
| "reap_each config workerId now (jobId # rest) =
     call (Redis (HGET HEARTBEATS_KEY jobId)) (\<lambda>r.
     let hb = heartbeat_time r;
         lastBeat = (case hb of None \<Rightarrow> 0 | Some t \<Rightarrow> t) in
     if still_alive config now hb then reap_each config workerId now rest
     else and_then (requeueOrphan config workerId jobId (now - lastBeat)) (\<lambda>_.
       reap_each config workerId now rest))"

definition reapWorker :: "reaper_config \<Rightarrow> string \<Rightarrow> unit prog" where
  "reapWorker config workerId =
     call (Redis (LRANGE_ALL (processingKey workerId))) (\<lambda>r.
     if the_ids r = [] then Ret () else
     call Now (\<lambda>now. reap_each config workerId (the_int now) (the_ids r)))"

primrec tick_workers :: "reaper_config \<Rightarrow> string list \<Rightarrow> unit prog" where
  "tick_workers config [] = Ret ()"
| "tick_workers config (workerId # rest) =
     call (Redis (SET_NX_PX (reaperLockKey workerId) ''1'' (LOCK_TTL_MS config))) (\<lambda>acquired.
     if the_str acquired = '''' then tick_workers config rest
     else and_then (catch_err (reapWorker config workerId) (\<lambda>_. Ret ())) (\<lambda>_.
       tick_workers config rest))"

definition reaper_tick :: "reaper_config \<Rightarrow> unit prog" where
  "reaper_tick config =
     call (Redis (SMEMBERS WORKERS_SET_KEY)) (\<lambda>workerIds. tick_workers config (the_ids workerIds))"

section \<open>Running a scan\<close>

text \<open>The data the reaper works from, and when a job of a processing list is left alone.\<close>

definition orphan_envelope :: "store \<Rightarrow> string \<Rightarrow> job_row \<Rightarrow> envelope" where
  "orphan_envelope s i job = (case data_of s i of Some e \<Rightarrow> e | None \<Rightarrow> envelope_of_row i job)"

definition last_beat :: "store \<Rightarrow> string \<Rightarrow> int option" where
  "last_beat s i = (case hashes s HEARTBEATS_KEY i of Some (VTime t) \<Rightarrow> Some t | _ \<Rightarrow> None)"

definition fresh :: "reaper_config \<Rightarrow> store \<Rightarrow> string \<Rightarrow> bool" where
  "fresh cfg s i \<longleftrightarrow> still_alive cfg (clock s) (last_beat s i)"

text \<open>The row is stored and its attempt number fits the column after one more.\<close>

definition reapable :: "store \<Rightarrow> string \<Rightarrow> bool" where
  "reapable s i \<longleftrightarrow> (\<exists>job. get_row i (jobs s) = Some job \<and>
     0 \<le> env_attempt (orphan_envelope s i job) \<and> env_attempt (orphan_envelope s i job) + 1 < 2 ^ 31)"

text \<open>What the reaper made of an orphan: delayed with one more attempt, or dead.\<close>

definition orphan_settled :: "store \<Rightarrow> string \<Rightarrow> store \<Rightarrow> bool" where
  "orphan_settled s i s' \<longleftrightarrow>
     (case (get_row i (jobs s), get_row i (jobs s')) of
        (Some job, Some job') \<Rightarrow>
          (let e = orphan_envelope s i job in
           worker_id job' = None \<and> attempt job' = env_attempt e + 1 \<and>
           hashes s' HEARTBEATS_KEY i = None \<and>
           (if env_attempt e + 1 \<le> env_maxRetries e
            then status job' = Delayed \<and> delayed_entry i s' \<and>
              data_of s' i = Some (e\<lparr>env_attempt := env_attempt e + 1\<rparr>)
            else status job' = Dead \<and> data_of s' i = None))
      | _ \<Rightarrow> False)"

text \<open>Nothing about job \<open>j\<close> changed outside the processing list.\<close>

definition same_job :: "string \<Rightarrow> store \<Rightarrow> store \<Rightarrow> bool" where
  "same_job j s s' \<longleftrightarrow> get_row j (jobs s') = get_row j (jobs s) \<and>
     (\<forall>h. hashes s' h j = hashes s h j) \<and> (delayed_entry j s' = delayed_entry j s)"

lemma same_job_refl [simp]: "same_job j s s"
  by (simp add: same_job_def)

lemma same_job_trans: "same_job j s t \<Longrightarrow> same_job j t u \<Longrightarrow> same_job j s u"
  by (auto simp: same_job_def)

lemma same_job_views:
  assumes "same_job j s t"
  shows "data_of t j = data_of s j" and "last_beat t j = last_beat s j"
    and "orphan_envelope t j job = orphan_envelope s j job"
    and "reapable t j = reapable s j"
  using assms by (simp_all add: same_job_def data_of_def last_beat_def orphan_envelope_def reapable_def)

lemma orphan_settled_later: "orphan_settled s i t \<Longrightarrow> same_job i t u \<Longrightarrow> orphan_settled s i u"
  unfolding orphan_settled_def using same_job_views(1) [of i t u]
  by (simp add: same_job_def Let_def split: option.splits)

lemma orphan_settled_earlier: "same_job i s t \<Longrightarrow> orphan_settled t i u \<Longrightarrow> orphan_settled s i u"
  unfolding orphan_settled_def using same_job_views(3) [of i s t]
  by (simp add: same_job_def Let_def split: option.splits)

context services begin

lemma run_reaper_logEvent [simp]:
  "run svc (reaper_logEvent i st m) s =
    (if i \<in> job_id ` set (jobs s) then
      (Inr (), s\<lparr>job_events := job_events s @ [\<lparr>ev_job = i, ev_status = st,
           ev_message = Some m, ev_created_at = clock s\<rparr>]\<rparr>)
     else (Inl (PgError ''violates foreign key constraint (job_events_job_id_fkey)''), s))"
  by (simp add: reaper_logEvent_def prog_run laws)

lemma run_reaper_publish [simp]:
  "run svc (reaper_publish i st m) s =
    (Inr (), s\<lparr>published := published s @ [(EVENTS_CHANNEL,
        \<lparr>e_jobId = i, e_status = st, e_message = m, e_ts = clock s\<rparr>)]\<rparr>)"
  by (simp add: reaper_publish_def prog_run laws)

lemma parse_data: "parse_envelope (case hashes s JOB_DATA_KEY i of None \<Rightarrow> RNil | Some v \<Rightarrow> RVal v) = data_of s i"
  by (auto simp: data_of_def split: option.split rval.split)

lemma run_requeue_absent:
  "i \<notin> set (lists s (processingKey w)) \<Longrightarrow> run svc (requeueOrphan cfg w i age) s = (Inr (), s)"
  by (simp add: requeueOrphan_def prog_run laws count_list_0_iff)

lemma run_requeue_no_row:
  "i \<in> set (lists s (processingKey w)) \<Longrightarrow> get_row i (jobs s) = None \<Longrightarrow>
    run svc (requeueOrphan cfg w i age) s = (Inr (), released w i s)"
  by (simp add: requeueOrphan_def prog_run laws count_list_0_iff released_def)

lemma run_requeue_retry:
  assumes "i \<in> set (lists s (processingKey w))" and "get_row i (jobs s) = Some job"
    and "e = orphan_envelope s i job" and "env_attempt e + 1 \<le> env_maxRetries e"
    and "0 \<le> env_attempt e" and "env_attempt e + 1 < 2 ^ 31"
    and "d = backoff_of out (env_attempt e) (reaper_backoffBaseMs cfg) (reaper_backoffMaxMs cfg) (released w i s)"
  shows "\<exists>l a. run svc (requeueOrphan cfg w i age) s =
    (Inr (), delayed_again (e\<lparr>env_attempt := env_attempt e + 1\<rparr>) (clock s + d) i
      (settled i Delayed [SetAttempt (Some (env_attempt e + 1)), SetError (Some (reap_message w age)),
          SetWorkerId None, SetScheduledIn d] l a ((released w i s)\<lparr>draws := Suc (draws s)\<rparr>)))"
  using assms get_row_in_ids [OF assms(2)]
  by (auto simp: requeueOrphan_def Let_def prog_run laws count_list_0_iff settle_defs parse_data
      backoff_value backoff_of_def orphan_envelope_def [symmetric])

lemma run_requeue_dead:
  assumes "i \<in> set (lists s (processingKey w))" and "get_row i (jobs s) = Some job"
    and "e = orphan_envelope s i job" and "env_maxRetries e < env_attempt e + 1"
    and "0 \<le> env_attempt e" and "env_attempt e + 1 < 2 ^ 31"
  shows "\<exists>l a. run svc (requeueOrphan cfg w i age) s =
    (Inr (), without_data i
      (settled i Dead [SetAttempt (Some (env_attempt e + 1)), SetError (Some (reap_message w age)),
          SetWorkerId None] l a (released w i s)))"
  using assms get_row_in_ids [OF assms(2)]
  by (auto simp: requeueOrphan_def Let_def prog_run laws count_list_0_iff settle_defs parse_data
      orphan_envelope_def [symmetric])

lemma requeue_settles:
  assumes "i \<in> set (lists s (processingKey w))" and "reapable s i"
  shows "\<exists>s'. run svc (requeueOrphan cfg w i age) s = (Inr (), s') \<and> clock s' = clock s \<and>
    strs s' = strs s \<and> lists s' = (lists s)(processingKey w := removeAll i (lists s (processingKey w))) \<and>
    (\<forall>j. j \<noteq> i \<longrightarrow> same_job j s s') \<and> orphan_settled s i s'"
proof -
  obtain job where job: "get_row i (jobs s) = Some job" and
    b: "0 \<le> env_attempt (orphan_envelope s i job)" "env_attempt (orphan_envelope s i job) + 1 < 2 ^ 31"
    using assms(2) by (auto simp: reapable_def)
  let ?e = "orphan_envelope s i job"
  show ?thesis
  proof (cases "env_attempt ?e + 1 \<le> env_maxRetries ?e")
    case True
    then show ?thesis
      using run_requeue_retry [OF assms(1) job refl True b refl, of cfg age] job
      by (auto simp: settle_defs same_job_def delayed_entry_def orphan_settled_def Let_def data_of_def)
  next
    case False
    then show ?thesis
      using run_requeue_dead [OF assms(1) job refl _ b, of cfg age] job
      by (auto simp: settle_defs same_job_def delayed_entry_def orphan_settled_def Let_def data_of_def)
  qed
qed

end

text \<open>The loop over a snapshot of the processing list.\<close>

definition scanned :: "reaper_config \<Rightarrow> string \<Rightarrow> string list \<Rightarrow> store \<Rightarrow> store \<Rightarrow> bool" where
  "scanned cfg w ids s s' \<longleftrightarrow> clock s' = clock s \<and> strs s' = strs s \<and>
     lists s' = (lists s)(processingKey w :=
       filter (\<lambda>i. i \<notin> set ids \<or> fresh cfg s i) (lists s (processingKey w))) \<and>
     (\<forall>i. if i \<in> set ids \<inter> set (lists s (processingKey w)) \<and> \<not> fresh cfg s i
          then orphan_settled s i s' else same_job i s s')"

lemma scanned_Nil: "scanned cfg w [] s s"
  by (simp add: scanned_def)

lemma fresh_same: "same_job i s t \<Longrightarrow> clock t = clock s \<Longrightarrow> fresh cfg t i = fresh cfg s i"
  by (simp add: fresh_def same_job_views(2))

lemma scanned_skip:
  assumes "fresh cfg s i \<or> i \<notin> set (lists s (processingKey w))" and "scanned cfg w ids s t"
  shows "scanned cfg w (i # ids) s t"
proof -
  have "filter (\<lambda>j. j \<notin> set ids \<or> fresh cfg s j) (lists s (processingKey w)) =
      filter (\<lambda>j. j \<notin> set (i # ids) \<or> fresh cfg s j) (lists s (processingKey w))"
    by (rule filter_cong) (use assms(1) in auto)
  then show ?thesis using assms unfolding scanned_def by auto
qed

lemma scanned_take:
  assumes i: "i \<in> set (lists s (processingKey w))" "\<not> fresh cfg s i"
    and t: "clock t = clock s \<and> strs t = strs s" "orphan_settled s i t" "\<And>j. j \<noteq> i \<Longrightarrow> same_job j s t"
      "lists t = (lists s)(processingKey w := removeAll i (lists s (processingKey w)))"
    and u: "scanned cfg w ids t u"
  shows "scanned cfg w (i # ids) s u"
proof -
  have fr: "fresh cfg t j = fresh cfg s j" if "j \<noteq> i" for j
    using fresh_same [OF t(3)] t(1) that by simp
  have kept_ids: "filter (\<lambda>j. j \<notin> set ids \<or> fresh cfg t j) (removeAll i (lists s (processingKey w))) =
      filter (\<lambda>j. j \<notin> set (i # ids) \<or> fresh cfg s j) (lists s (processingKey w))"
    unfolding removeAll_filter_not_eq filter_filter by (rule filter_cong) (use fr i in \<open>auto, metis\<close>)
  have this_one: "orphan_settled s i u"
    using u t(2,4) orphan_settled_later unfolding scanned_def by (auto split: if_splits)
  have others: "if j \<in> set ids \<inter> set (lists s (processingKey w)) \<and> \<not> fresh cfg s j
      then orphan_settled s j u else same_job j s u" if "j \<noteq> i" for j
    using u t(3) [OF that] t(4) fr [OF that] that
    unfolding scanned_def by (auto intro: orphan_settled_earlier same_job_trans dest: spec [of _ j])
  have "if j \<in> set (i # ids) \<inter> set (lists s (processingKey w)) \<and> \<not> fresh cfg s j
      then orphan_settled s j u else same_job j s u" for j
    using this_one others [of j] i by (cases "j = i") simp_all
  then show ?thesis using u t(1,4) kept_ids unfolding scanned_def by simp
qed

context services begin

lemma run_reap_each:
  assumes "\<And>i. i \<in> set (lists s (processingKey w)) \<Longrightarrow> reapable s i"
  shows "\<exists>s'. run svc (reap_each cfg w (clock s) ids) s = (Inr (), s') \<and> scanned cfg w ids s s'"
  using assms
proof (induction ids arbitrary: s)
  case (Cons i ids)
  have beat: "heartbeat_time (case hashes s HEARTBEATS_KEY i of None \<Rightarrow> RNil | Some v \<Rightarrow> RVal v) =
      last_beat s i"
    by (auto simp: last_beat_def split: option.split rval.split)
  consider (skip) "fresh cfg s i" | (gone) "\<not> fresh cfg s i" "i \<notin> set (lists s (processingKey w))"
    | (orphan) "\<not> fresh cfg s i" "i \<in> set (lists s (processingKey w))"
    by blast
  then show ?case
  proof cases
    case skip
    then show ?thesis
      using Cons.IH [of s] Cons.prems scanned_skip [of cfg s i w ids]
      by (auto simp: prog_run laws Let_def beat fresh_def)
  next
    case gone
    then show ?thesis
      using Cons.IH [of s] Cons.prems scanned_skip [of cfg s i w ids]
      by (auto simp: prog_run laws Let_def beat fresh_def run_requeue_absent)
  next
    case orphan
    obtain t where run: "run svc (requeueOrphan cfg w i
        (clock s - (case last_beat s i of None \<Rightarrow> 0 | Some n \<Rightarrow> n))) s = (Inr (), t)"
      and t: "clock t = clock s \<and> strs t = strs s" "orphan_settled s i t" "\<forall>j. j \<noteq> i \<longrightarrow> same_job j s t"
        "lists t = (lists s)(processingKey w := removeAll i (lists s (processingKey w)))"
      using requeue_settles [OF orphan(2) Cons.prems [OF orphan(2)]] by blast
    have "reapable t j" if "j \<in> set (lists t (processingKey w))" for j
      using that t(3,4) Cons.prems same_job_views(4) [of j s t] by auto
    then obtain u where "run svc (reap_each cfg w (clock s) ids) t = (Inr (), u)" "scanned cfg w ids t u"
      using Cons.IH [of t] t(1) by auto
    then show ?thesis
      using run orphan scanned_take [OF orphan(2,1) t(1,2) _ t(4)] t(3)
      by (auto simp: prog_run laws Let_def beat fresh_def)
  qed
qed (simp add: scanned_Nil)

lemma run_reapWorker:
  assumes "\<And>i. i \<in> set (lists s (processingKey w)) \<Longrightarrow> reapable s i"
  shows "\<exists>s'. run svc (reapWorker cfg w) s = (Inr (), s') \<and>
    scanned cfg w (lists s (processingKey w)) s s'"
proof (cases "lists s (processingKey w) = []")
  case True
  then show ?thesis using scanned_Nil by (simp add: reapWorker_def prog_run laws)
next
  case False
  then show ?thesis
    using run_reap_each [OF assms, of w cfg "lists s (processingKey w)"]
    by (simp add: reapWorker_def prog_run laws)
qed

lemma run_tick_locked:
  "str_get s (reaperLockKey w) \<noteq> None \<Longrightarrow>
    run svc (tick_workers cfg (w # ws)) s = run svc (tick_workers cfg ws) s"
  by (cases "str_get s (reaperLockKey w)") (simp_all add: prog_run laws)

end

context services begin

lemma run_reap_each_idle:
  "\<forall>i \<in> set ids. fresh cfg s i \<or> i \<notin> set (lists s (processingKey w)) \<Longrightarrow>
    run svc (reap_each cfg w (clock s) ids) s = (Inr (), s)"
proof (induction ids)
  case (Cons i ids)
  have beat: "heartbeat_time (case hashes s HEARTBEATS_KEY i of None \<Rightarrow> RNil | Some v \<Rightarrow> RVal v) =
      last_beat s i"
    by (auto simp: last_beat_def split: option.split rval.split)
  show ?case
    using Cons by (auto simp: prog_run laws Let_def beat fresh_def run_requeue_absent)
qed simp

lemma run_tick_one:
  assumes "str_get s (reaperLockKey w) = None"
  shows "run svc (tick_workers cfg [w]) s =
    (Inr (), snd (run svc (reapWorker cfg w)
       (s\<lparr>strs := (strs s)(reaperLockKey w \<mapsto> (''1'', clock s + LOCK_TTL_MS cfg))\<rparr>)))"
  using assms by (auto simp: prog_run laws split: prod.split sum.split)

end

text \<open>A claim that has moved the job but not yet set its heartbeat.\<close>

lemma reaches_trans: "reaches svc R q t q' t' \<Longrightarrow> reaches svc R p s q t \<Longrightarrow> reaches svc R p s q' t'"
  by (induction rule: reaches.induct) (auto intro: reaches.intros)

lemma reaches_call:
  "svc c s = (Inr v, s') \<Longrightarrow> reaches svc R (call c k) s (k v) s'"
  using reaches.answer [OF reaches.start, of svc R c "\<lambda>r. case r of Inl e \<Rightarrow> Throw e | Inr v \<Rightarrow> k v" s]
  by (simp add: call_def)

context services begin

lemma claim_reaches_move:
  assumes "find (\<lambda>p. lists s (queue_of p) \<noteq> []) ps = Some p" and "set ps \<subseteq> set PRIORITIES"
  shows "\<exists>q. reaches svc R (claim_from w b ps) s q (snd (move (queue_of p) (processingKey w) RIGHT LEFT s))"
  using assms
proof (induction ps)
  case (Cons x xs)
  have x: "queueKey x = Inr (queue_of x)" using Cons.prems(2) by (simp add: queueKey_ok)
  obtain c k where c: "claim_from w b (x # xs) = call (Redis
        (if c then BLMOVE (queue_of x) (processingKey w) RIGHT LEFT b
         else LMOVE (queue_of x) (processingKey w) RIGHT LEFT)) k" and k: "k RNil = claim_from w b xs"
    by (rule that, (unfold claim_from.simps x sync_call_simps Let_def)[1], rule refl, simp)
  have step: "reaches svc R (claim_from w b (x # xs)) s
      (k (fst (move (queue_of x) (processingKey w) RIGHT LEFT s)))
      (snd (move (queue_of x) (processingKey w) RIGHT LEFT s))"
    unfolding c by (rule reaches_call, rule move_either)
  show ?case
  proof (cases "lists s (queue_of x) = []")
    case True
    then obtain q where "reaches svc R (claim_from w b xs) s q
        (snd (move (queue_of p) (processingKey w) RIGHT LEFT s))"
      using Cons by auto
    then show ?thesis using reaches_trans [OF _ step [unfolded move_queue]] True k by auto
  next
    case False
    then show ?thesis using Cons.prems(1) step by auto
  qed
qed simp

end

section \<open>Properties\<close>

definition demo_reaper :: reaper_config where
  "demo_reaper = \<lparr>pollIntervalMs = 5000, orphanTimeoutMs = 30000, reaper_backoffBaseMs = 1000,
     reaper_backoffMaxMs = 300000\<rparr>"

text \<open>Worker \<open>w1\<close> holds a live job \<open>b\<close> and a job \<open>a\<close> it last beat for 40 seconds ago.\<close>

definition demo_orphans :: store where
  "demo_orphans = (demo_running [''b'', ''a''])\<lparr>clock := 50000,
     hashes := (\<lambda>_. Map.empty)(HEARTBEATS_KEY := [''a'' \<mapsto> VTime 10000, ''b'' \<mapsto> VTime 49000])\<rparr>"

lemmas demo_reaper_defs = demo_reaper_def demo_orphans_def demo_process_defs

lemma demo_orphans_reapable:
  "i \<in> set (lists demo_orphans (processingKey ''w1'')) \<Longrightarrow> reapable demo_orphans i"
  by (auto simp: reapable_def orphan_envelope_def data_of_def envelope_of_row_def demo_reaper_defs)

lemma demo_orphans_fresh:
  "fresh demo_reaper demo_orphans ''b''" "\<not> fresh demo_reaper demo_orphans ''a''"
  by (simp_all add: fresh_def still_alive_def last_beat_def demo_reaper_defs)

text \<open>
  C11: Crash recovery (NFR-3). A scan of a worker's processing list always finishes and
  settles exactly the orphans in it, the jobs without a heartbeat younger than the orphan
  timeout: each leaves the list, loses its heartbeat and its worker, and is delayed with one
  more attempt if retries are left, dead otherwise; missing job data are rebuilt from the
  row. Jobs with a fresh heartbeat stay in the list, and nothing of theirs or of any other
  job changes, nor any other list.
\<close>

theorem reaper_settles_orphans:
  assumes "services svc out"
    and "\<And>i. i \<in> set (lists s (processingKey w)) \<Longrightarrow> reapable s i"
  shows "\<exists>s'. run svc (reapWorker cfg w) s = (Inr (), s') \<and>
    lists s' = (lists s)(processingKey w := filter (fresh cfg s) (lists s (processingKey w))) \<and>
    (\<forall>i. if i \<in> set (lists s (processingKey w)) \<and> \<not> fresh cfg s i
         then orphan_settled s i s' else same_job i s s')"
proof -
  obtain s' where "run svc (reapWorker cfg w) s = (Inr (), s')"
    and s': "scanned cfg w (lists s (processingKey w)) s s'"
    using services.run_reapWorker [OF assms] by blast
  moreover have "filter (\<lambda>i. i \<notin> set (lists s (processingKey w)) \<or> fresh cfg s i)
      (lists s (processingKey w)) = filter (fresh cfg s) (lists s (processingKey w))"
    by (rule filter_cong) auto
  ultimately show ?thesis by (auto simp: scanned_def)
qed

theorem reaper_settles_orphans_witness:
  "\<exists>s'. run mem_svc (reapWorker demo_reaper ''w1'') demo_orphans = (Inr (), s') \<and>
     lists s' (processingKey ''w1'') = [''b''] \<and> delayed_entry ''a'' s' \<and>
     get_row ''b'' (jobs s') = Some (demo_row ''b'' Queued 0)"
proof -
  let ?s = demo_orphans
  obtain s' where run: "run mem_svc (reapWorker demo_reaper ''w1'') ?s = (Inr (), s')"
    and l: "lists s' = (lists ?s)(processingKey ''w1'' :=
          filter (fresh demo_reaper ?s) (lists ?s (processingKey ''w1'')))"
    and j: "\<forall>i. if i \<in> set (lists ?s (processingKey ''w1'')) \<and> \<not> fresh demo_reaper ?s i
         then orphan_settled ?s i s' else same_job i ?s s'"
    using reaper_settles_orphans [OF mem.services_axioms demo_orphans_reapable] by blast
  have held: "lists ?s (processingKey ''w1'') = [''b'', ''a'']" by (simp add: demo_reaper_defs)
  have "orphan_settled ?s ''a'' s'" and "same_job ''b'' ?s s'"
    using j held demo_orphans_fresh by (metis list.set_intros(1,2))+
  then have "delayed_entry ''a'' s'" and "get_row ''b'' (jobs s') = Some (demo_row ''b'' Queued 0)"
    by (auto simp: orphan_settled_def same_job_def orphan_envelope_def data_of_def Let_def
        envelope_of_row_def demo_reaper_defs split: option.splits)
  then show ?thesis using run l held demo_orphans_fresh by auto
qed

text \<open>
  Scanning twice does no harm: a second reaper that works from the same snapshot of the
  list at the same time changes nothing once the first one is through, since the jobs it
  finds stale are no longer in the list. No orphan is requeued twice.
\<close>

theorem reaper_requeues_once:
  assumes "services svc out"
    and "\<And>i. i \<in> set (lists s (processingKey w)) \<Longrightarrow> reapable s i"
    and "run svc (reapWorker cfg w) s = (Inr (), s')"
  shows "run svc (reap_each cfg w (clock s) (lists s (processingKey w))) s' = (Inr (), s')"
proof -
  have s': "scanned cfg w (lists s (processingKey w)) s s'"
    using services.run_reapWorker [OF assms(1), of s w cfg] assms(2,3) by auto
  have "fresh cfg s' i \<or> i \<notin> set (lists s' (processingKey w))" for i
    using s' fresh_same [of i s s' cfg] unfolding scanned_def by (auto split: if_splits)
  then show ?thesis
    using services.run_reap_each_idle [OF assms(1), of "lists s (processingKey w)" cfg s' w] s'
    by (simp add: scanned_def)
qed

theorem reaper_requeues_once_witness:
  "\<exists>s'. run mem_svc (reapWorker demo_reaper ''w1'') demo_orphans = (Inr (), s') \<and>
     run mem_svc (reap_each demo_reaper ''w1'' 50000 [''b'', ''a'']) s' = (Inr (), s')"
proof -
  obtain s' where r: "run mem_svc (reapWorker demo_reaper ''w1'') demo_orphans = (Inr (), s')"
    using mem.run_reapWorker [OF demo_orphans_reapable] by blast
  show ?thesis
    using reaper_requeues_once [OF mem.services_axioms demo_orphans_reapable r] r
    by (simp add: demo_reaper_defs)
qed

text \<open>
  The per-worker lock: once a reaper has started on a worker, no reaper's tick touches
  that worker until four poll intervals have passed, whatever else happened to the store,
  as long as the lock is left alone; it goes on with the other workers.
\<close>

theorem reaper_lock_excludes:
  assumes "services svc out" and "str_get s (reaperLockKey w) = None"
    and "\<And>i. i \<in> set (lists s (processingKey w)) \<Longrightarrow> reapable s i"
    and "run svc (tick_workers cfg [w]) s = (Inr (), s')"
    and "strs t (reaperLockKey w) = strs s' (reaperLockKey w)"
    and "clock t < clock s + pollIntervalMs cfg * 4"
  shows "run svc (tick_workers cfg' (w # ws)) t = run svc (tick_workers cfg' ws) t"
proof -
  let ?s = "s\<lparr>strs := (strs s)(reaperLockKey w \<mapsto> (''1'', clock s + LOCK_TTL_MS cfg))\<rparr>"
  have "reapable ?s i" if "i \<in> set (lists ?s (processingKey w))" for i
    using assms(3) [of i] that by (simp add: reapable_def orphan_envelope_def data_of_def)
  then have "strs (snd (run svc (reapWorker cfg w) ?s)) = strs ?s"
    using services.run_reapWorker [OF assms(1), of ?s w cfg] by (auto simp: scanned_def)
  then have "strs t (reaperLockKey w) = Some (''1'', clock s + LOCK_TTL_MS cfg)"
    using services.run_tick_one [OF assms(1,2), of cfg] assms(4,5) by simp
  then have "str_get t (reaperLockKey w) \<noteq> None"
    using assms(6) by (simp add: str_get_def LOCK_TTL_MS_def)
  then show ?thesis by (rule services.run_tick_locked [OF assms(1)])
qed

theorem reaper_lock_excludes_witness:
  "\<exists>s'. run mem_svc (tick_workers demo_reaper [''w1'']) demo_orphans = (Inr (), s') \<and>
     run mem_svc (tick_workers demo_reaper [''w1'']) (s'\<lparr>clock := 60000\<rparr>) = (Inr (), s'\<lparr>clock := 60000\<rparr>)"
proof -
  have free: "str_get demo_orphans (reaperLockKey ''w1'') = None"
    by (simp add: str_get_def demo_reaper_defs)
  note one = mem.run_tick_one [OF free, of demo_reaper]
  show ?thesis
    using reaper_lock_excludes [OF mem.services_axioms free demo_orphans_reapable one,
        of _ demo_reaper "[]"] one
    by (auto simp: demo_reaper_defs)
qed

text \<open>
  The reaper itself is not safe against a crash: it takes the orphan off the processing
  list before anything else, and if it stops right there the job is in no list and not in
  the delayed set, while its row and its data are as they were. Nothing looks for it again.
\<close>

theorem reaper_crash_loses_job:
  assumes "services svc out" and "i \<in> set (lists s (processingKey w))"
  shows "\<exists>q t. reaches svc (=) (requeueOrphan cfg w i age) s q t \<and>
    lists t = (lists s)(processingKey w := removeAll i (lists s (processingKey w))) \<and>
    zsets t = zsets s \<and> jobs t = jobs s \<and> hashes t = hashes s"
proof -
  let ?c = "Redis (LREM (processingKey w) i)"
  obtain k where k: "requeueOrphan cfg w i age = Await ?c k"
    by (simp add: requeueOrphan_def call_def)
  have "reaches svc (=) (requeueOrphan cfg w i age) s (k (fst (svc ?c s))) (snd (svc ?c s))"
    by (rule reaches.answer) (subst k [symmetric], rule reaches.start)
  then show ?thesis
    using services.laws [OF assms(1)] by (intro exI conjI) (assumption, simp_all)
qed

theorem reaper_crash_loses_job_witness:
  "\<exists>q t. reaches mem_svc (=) (requeueOrphan demo_reaper ''w1'' ''a'' 40000) demo_orphans q t \<and>
     lists t (processingKey ''w1'') = [''b''] \<and> \<not> delayed_entry ''a'' t"
proof -
  have held: "''a'' \<in> set (lists demo_orphans (processingKey ''w1''))"
    by (simp add: demo_reaper_defs)
  have "removeAll ''a'' (lists demo_orphans (processingKey ''w1'')) = [''b'']"
    and "zsets demo_orphans DELAYED_KEY = []"
    by (simp_all add: demo_reaper_defs)
  then show ?thesis
    using reaper_crash_loses_job [OF mem.services_axioms held, of demo_reaper 40000]
    by (fastforce simp: delayed_entry_def)
qed

text \<open>
  A worker sets the heartbeat only after the atomic move, and a job without a heartbeat
  counts as an orphan however young it is: a scan that falls between the two commands of a
  claim takes the job from the live worker, counts an attempt and delays or kills it, while
  the worker goes on to execute it.
\<close>

theorem reaper_takes_job_being_claimed:
  assumes "services svc out" and "first_ready s = Some p" and "i = last (lists s (queue_of p))"
    and "hashes s HEARTBEATS_KEY i = None"
    and "\<And>j. j \<in> insert i (set (lists s (processingKey w))) \<Longrightarrow> reapable s j"
  shows "\<exists>q t t'. reaches svc (=) (claimNextJob w b) s q t \<and>
    run svc (reapWorker cfg w) t = (Inr (), t') \<and> i \<notin> set (lists t' (processingKey w)) \<and>
    orphan_settled s i t'"
proof -
  let ?t = "snd (move (queue_of p) (processingKey w) RIGHT LEFT s)"
  have ne: "lists s (queue_of p) \<noteq> []" using first_ready_Some [OF assms(2)] by simp
  obtain q where q: "reaches svc (=) (claimNextJob w b) s q ?t"
    using services.claim_reaches_move [OF assms(1) assms(2) [unfolded first_ready_def]]
    unfolding claimNextJob_def by blast
  have same: "same_job j s ?t" for j
    using ne by (simp add: move_queue same_job_def delayed_entry_def)
  have l: "lists ?t (processingKey w) = i # lists s (processingKey w)"
    using ne assms(3) by (simp add: move_queue)
  have "reapable ?t j" if "j \<in> set (lists ?t (processingKey w))" for j
    using that l assms(5) same_job_views(4) [OF same] by simp
  then obtain t' where t': "run svc (reapWorker cfg w) ?t = (Inr (), t')"
    and sc: "scanned cfg w (lists ?t (processingKey w)) ?t t'"
    using services.run_reapWorker [OF assms(1), of ?t w cfg] by blast
  have "\<not> fresh cfg ?t i"
    using same_job_views(2) [OF same] assms(4) by (simp add: fresh_def still_alive_def last_beat_def)
  then have "i \<notin> set (lists t' (processingKey w)) \<and> orphan_settled s i t'"
    using sc l orphan_settled_earlier [OF same] by (auto simp: scanned_def split: if_splits)
  then show ?thesis using q t' by blast
qed

theorem reaper_takes_job_being_claimed_witness:
  "\<exists>q t t'. reaches mem_svc (=) (claimNextJob ''w1'' 1) demo_queues q t \<and>
     run mem_svc (reapWorker demo_reaper ''w1'') t = (Inr (), t') \<and> orphan_settled demo_queues ''a'' t'"
proof -
  have "reapable demo_queues ''a''" and "first_ready demo_queues = Some ''high''"
    and "last (lists demo_queues (queue_of ''high'')) = ''a''"
    and "hashes demo_queues HEARTBEATS_KEY ''a'' = None"
    and "lists demo_queues (processingKey ''w1'') = []"
    by (simp_all add: reapable_def orphan_envelope_def data_of_def demo_queues_def demo_row_def
        demo_envelope_def first_ready_def PRIORITIES_def empty_store_def)
  then show ?thesis
    using reaper_takes_job_being_claimed [OF mem.services_axioms, of demo_queues "''high''" "''a''" "''w1''"]
    by (metis empty_set insertE empty_iff)
qed

end
