(* ===== verification/Worker.thy ===== *)
theory Worker
  imports Process Reaper
begin

text \<open>
  \<open>packages/worker/src/index.js\<close> and \<open>shutdown.js\<close>: the claim loop of one lane, the registry
  of workers, and draining.
\<close>

section \<open>The program\<close>

definition registerWorker :: "string \<Rightarrow> unit prog" where
  "registerWorker workerId = call (Redis (SADD WORKERS_SET_KEY workerId)) (\<lambda>_. Ret ())"

definition deregisterWorker :: "string \<Rightarrow> unit prog" where
  "deregisterWorker workerId = call (Redis (SREM WORKERS_SET_KEY workerId)) (\<lambda>_. Ret ())"

text \<open>
  One turn of the loop: a failed claim waits a second, an empty one goes on, a claimed job is
  processed and whatever it throws is logged.
\<close>

definition lane_turn :: "string \<Rightarrow> worker_config \<Rightarrow> unit prog" where
  "lane_turn workerId config =
     and_then (catch_err (and_then (claimNextJob workerId 1) (\<lambda>claimed. Ret (Inr claimed)))
                (\<lambda>err. Ret (Inl err))) (\<lambda>r. case r of
       Inl err \<Rightarrow> call (Sleep 1000) (\<lambda>_. Ret ())
     | Inr None \<Rightarrow> Ret ()
     | Inr (Some claimed) \<Rightarrow>
         catch_err (and_then (processJob workerId claimed config) (\<lambda>outcome. Ret ()))
           (\<lambda>err. Ret ()))"

text \<open>
  The loop \<open>while (!isDraining())\<close>. The signal that sets the flag comes from outside: the list
  holds what the successive calls of \<open>isDraining\<close> answer, and the loop is followed as far as
  the list goes.
\<close>

primrec runLane :: "string \<Rightarrow> worker_config \<Rightarrow> bool list \<Rightarrow> unit prog" where
  "runLane workerId config [] = Ret ()"
| "runLane workerId config (draining # later) =
     (if draining then Ret ()
      else and_then (lane_turn workerId config) (\<lambda>_. runLane workerId config later))"

text \<open>
  The wait for the jobs in flight: \<open>sizes k\<close> is the number of jobs in flight at the k-th
  test, which the lanes lower meanwhile. The result is the number of tests that failed, or
  \<^term>\<open>None\<close> when the fuel does not suffice.
\<close>

primrec drain_loop :: "nat \<Rightarrow> (nat \<Rightarrow> nat) \<Rightarrow> nat \<Rightarrow> int \<Rightarrow> nat option prog" where
  "drain_loop 0 sizes k deadline = Ret None"
| "drain_loop (Suc fuel) sizes k deadline =
     (if sizes k > 0 then
        call Now (\<lambda>now.
        if the_int now < deadline
        then call (Sleep 200) (\<lambda>_. drain_loop fuel sizes (Suc k) deadline)
        else Ret (Some k))
      else Ret (Some k))"

definition drain :: "nat \<Rightarrow> bool \<Rightarrow> int \<Rightarrow> (nat \<Rightarrow> nat) \<Rightarrow> nat option prog" where
  "drain fuel draining graceMs sizes =
     (if draining then Ret (Some 0)
      else call Now (\<lambda>now. drain_loop fuel sizes 0 (the_int now + graceMs)))"

section \<open>Running the loops\<close>

text \<open>Waiting jobs that can all be run: each stored once, with data of the type \<open>noop\<close>.\<close>

definition noop_ready :: "store \<Rightarrow> bool" where
  "noop_ready s \<longleftrightarrow> ids_nonempty s \<and> distinct (claim_order s) \<and>
     (\<forall>i \<in> set (claim_order s). status_of i s \<noteq> None \<and>
        (\<exists>e. data_of s i = Some e \<and> env_type e = ''noop''))"

definition noop_done :: "string \<Rightarrow> string \<Rightarrow> string \<Rightarrow> store \<Rightarrow> store" where
  "noop_done w p i s = released w i (without_data i (settled i Completed [SetCompletedNow, SetError None]
     ''Job completed successfully'' ''Job completed successfully'' (begun w i (claim_store w p s))))"

lemma noop_done_order:
  assumes "first_ready s = Some p" and "i = last (lists s (queue_of p))"
  shows "claim_order s = i # claim_order (noop_done w p i s)"
proof -
  have "lists (noop_done w p i s) (queue_of q) = lists (claim_store w p s) (queue_of q)" for q
    by (simp add: noop_done_def settle_defs)
  then have "claim_order (noop_done w p i s) = claim_order (claim_store w p s)"
    by (simp add: claim_order_def)
  then show ?thesis using claim_order_claim [OF assms(1), of w] assms(2) by simp
qed

lemma noop_done_others:
  "j \<noteq> i \<Longrightarrow> i = last (lists s (queue_of p)) \<Longrightarrow> status_of j (noop_done w p i s) = status_of j s \<and>
     data_of (noop_done w p i s) j = data_of s j"
  by (simp add: noop_done_def settle_defs status_of_def data_of_def claim_store_def Let_def)

lemma noop_done_status:
  "status_of i s \<noteq> None \<Longrightarrow> status_of i (noop_done w p i s) = Some Completed"
  by (auto simp: noop_done_def settle_defs status_of_def claim_store_def Let_def)

lemma noop_done_held:
  "i = last (lists s (queue_of p)) \<Longrightarrow> lists (noop_done w p i s) (processingKey w) =
    removeAll i (lists s (processingKey w))"
  by (simp add: noop_done_def settle_defs claim_store_def Let_def)

lemma noop_done_ready:
  assumes "noop_ready s" and "first_ready s = Some p" and "i = last (lists s (queue_of p))"
  shows "noop_ready (noop_done w p i s)"
proof -
  note o = noop_done_order [OF assms(2,3), of w]
  have "ids_nonempty (noop_done w p i s)"
    using assms(1) ids_nonempty_claim [of s w p]
    by (simp add: noop_ready_def ids_nonempty_def noop_done_def settle_defs)
  moreover have "j \<noteq> i" if "j \<in> set (claim_order (noop_done w p i s))" for j
    using assms(1) o that by (auto simp: noop_ready_def)
  ultimately show ?thesis
    using assms(1) o noop_done_others [OF _ assms(3)] unfolding noop_ready_def by auto
qed

context services begin

lemma run_noop_turn:
  assumes "noop_ready s" and "first_ready s = Some p" and "i = last (lists s (queue_of p))"
  shows "run svc (lane_turn w cfg) s = (Inr (), noop_done w p i s)"
proof -
  let ?c = "\<lparr>cl_id = i, cl_priority = p, cl_envelope = data_of s i\<rparr>"
  let ?t = "claim_store w p s"
  have i: "i \<in> set (claim_order s)" using claim_order_claim [OF assms(2), of w] assms(3) by (metis list.set_intros(1))
  then obtain e where e: "data_of s i = Some e" "env_type e = ''noop''"
    and row: "status_of i s \<noteq> None"
    using assms(1) by (auto simp: noop_ready_def)
  have claim: "run svc (claimNextJob w 1) s = (Inr (Some ?c), ?t)"
    using run_claimNextJob [of s w 1] assms by (simp add: noop_ready_def)
  have ids: "i \<in> job_id ` set (jobs ?t)"
    using row by (auto simp: status_of_def claim_store_def Let_def dest: get_row_in_ids)
  have ex: "executes svc cfg ?c (begun w i ?t) = (Inr (JObj [(''ok'', JBool True)]), begun w i ?t)"
    using e by (simp add: executes_def getHandler_def handlers_def timed_handler_def noop_def)
  have "run svc (processJob w ?c cfg) ?t = (Inr (OutCompleted (JObj [(''ok'', JBool True)])), noop_done w p i s)"
    using run_execute_job [OF _ _ ex] ids by (simp add: run_processJob noop_done_def)
  then show ?thesis using claim by (simp add: lane_turn_def prog_run)
qed

lemma run_idle_turn:
  assumes "ids_nonempty s" and "claim_order s = []"
  shows "run svc (lane_turn w cfg) s = (Inr (), s)"
proof -
  have "first_ready s = None" using assms(2) first_ready_None by blast
  then show ?thesis using run_claimNextJob [OF assms(1), of w 1] by (simp add: lane_turn_def prog_run)
qed

lemma run_lane:
  assumes "noop_ready s"
  shows "\<exists>s'. run svc (runLane w cfg (replicate n False @ True # later)) s = (Inr (), s') \<and>
    claim_order s' = drop n (claim_order s) \<and>
    (\<forall>i. if i \<in> set (take n (claim_order s)) then status_of i s' = Some Completed
         else status_of i s' = status_of i s) \<and>
    lists s' (processingKey w) = filter (\<lambda>i. i \<notin> set (take n (claim_order s))) (lists s (processingKey w))"
  using assms
proof (induction n arbitrary: s)
  case (Suc n)
  show ?case
  proof (cases "first_ready s")
    case None
    then have "claim_order s = []" using first_ready_None by blast
    then show ?thesis
      using Suc.IH [OF Suc.prems] Suc.prems run_idle_turn [of s w cfg]
      by (simp add: prog_run noop_ready_def)
  next
    case (Some p)
    let ?i = "last (lists s (queue_of p))"
    let ?s = "noop_done w p ?i s"
    note o = noop_done_order [OF Some refl, of w]
    obtain s' where s': "run svc (runLane w cfg (replicate n False @ True # later)) ?s = (Inr (), s')"
      "claim_order s' = drop n (claim_order ?s)"
      "\<And>i. if i \<in> set (take n (claim_order ?s)) then status_of i s' = Some Completed
         else status_of i s' = status_of i ?s"
      "lists s' (processingKey w) = filter (\<lambda>i. i \<notin> set (take n (claim_order ?s))) (lists ?s (processingKey w))"
      using Suc.IH [OF noop_done_ready [OF Suc.prems Some refl, of w]] by blast
    have d: "?i \<notin> set (claim_order ?s)" and st: "status_of ?i s \<noteq> None"
      using Suc.prems unfolding noop_ready_def o by auto
    have "if i \<in> set (take (Suc n) (claim_order s)) then status_of i s' = Some Completed
         else status_of i s' = status_of i s" for i
      using s'(3) [of i] noop_done_others [of i ?i s p w] noop_done_status [OF st, of w p] d
        in_set_takeD [of ?i n "claim_order ?s"]
      unfolding o by (cases "i = ?i") (auto split: if_splits)
    moreover have "lists s' (processingKey w) =
        filter (\<lambda>i. i \<notin> set (take (Suc n) (claim_order s))) (lists s (processingKey w))"
      unfolding s'(4) o noop_done_held [OF refl] removeAll_filter_not_eq filter_filter
      by (rule filter_cong) auto
    ultimately show ?thesis
      using s'(1,2) run_noop_turn [OF Suc.prems Some refl] o by (simp add: prog_run)
  qed
qed simp

text \<open>Draining.\<close>

lemma run_drain_loop:
  assumes "clock s + int fuel * 200 \<ge> deadline + 200" and "0 < fuel"
  shows "\<exists>j s'. run svc (drain_loop fuel sizes k deadline) s = (Inr (Some (k + j)), s') \<and>
    (\<forall>m < j. sizes (k + m) > 0) \<and> (sizes (k + j) = 0 \<or> deadline \<le> clock s') \<and>
    int j * 200 \<le> max 0 (deadline - clock s + 199) \<and> lists s' = lists s \<and> jobs s' = jobs s"
  using assms
proof (induction fuel arbitrary: s k)
  case (Suc n)
  show ?case
  proof (cases "sizes k > 0 \<and> clock s < deadline")
    case True
    let ?s = "s\<lparr>clock := clock s + 200 + oversleep out s\<rparr>"
    have over: "0 \<le> oversleep out s" by (rule oversleep_nonneg)
    have "0 < n" using Suc.prems True by (cases n) auto
    then obtain j s' where j: "run svc (drain_loop n sizes (Suc k) deadline) ?s = (Inr (Some (Suc k + j)), s')"
      "\<forall>m < j. sizes (Suc k + m) > 0" "sizes (Suc k + j) = 0 \<or> deadline \<le> clock s'"
      "int j * 200 \<le> max 0 (deadline - clock ?s + 199)" "lists s' = lists ?s" "jobs s' = jobs ?s"
      using Suc.IH [of ?s "Suc k"] Suc.prems over by auto
    have "run svc (drain_loop (Suc n) sizes k deadline) s = (Inr (Some (k + Suc j)), s')"
      using True j(1) by (simp add: prog_run laws)
    moreover have "\<forall>m < Suc j. sizes (k + m) > 0"
      using j(2) True by (auto simp: less_Suc_eq_0_disj)
    moreover have "int (Suc j) * 200 \<le> max 0 (deadline - clock s + 199)"
      using j(4) over True by (auto simp: max_def split: if_splits)
    ultimately show ?thesis using j(3,5,6) by (intro exI [of _ "Suc j"] exI [of _ s']) simp
  next
    case False
    then have "run svc (drain_loop (Suc n) sizes k deadline) s = (Inr (Some (k + 0)), s)"
      by (auto simp: prog_run laws)
    then show ?thesis using False by (intro exI [of _ 0] exI [of _ s]) auto
  qed
qed simp

end

section \<open>Properties\<close>


definition demo_work :: store where
  "demo_work = demo_queues\<lparr>hashes := (\<lambda>_. Map.empty)(JOB_DATA_KEY :=
     [''a'' \<mapsto> VEnv (demo_envelope ''a'' 0), ''b'' \<mapsto> VEnv (demo_envelope ''b'' 0),
      ''c'' \<mapsto> VEnv (demo_envelope ''c'' 0)])\<rparr>"

lemma demo_work_order: "claim_order demo_work = [''a'', ''b'', ''c'']"
  by (simp add: claim_order_eq demo_work_def demo_queues_def empty_store_def)

lemma demo_work_ready: "noop_ready demo_work"
  unfolding noop_ready_def demo_work_order
  using demo_queues_nonempty
  by (simp add: ids_nonempty_def demo_work_def demo_queues_def status_of_def data_of_def
      demo_row_def demo_envelope_def empty_store_def)


text \<open>
  Draining ends (FR-7.1): with enough fuel (one unit for every 200 ms of the grace period,
  and one more) the wait returns at the first test that finds no job in flight, or else at the
  first one at or after the end of the grace period, after at most \<open>grace / 200 + 1\<close> sleeps.
  It moves no job. A second signal does not wait.
\<close>

theorem drain_returns:
  assumes "services svc out" and "0 \<le> graceMs" and "graceMs + 200 \<le> int fuel * 200"
  shows "\<exists>j s'. run svc (drain fuel False graceMs sizes) s = (Inr (Some j), s') \<and>
    (\<forall>m < j. sizes m > 0) \<and> (sizes j = 0 \<or> clock s + graceMs \<le> clock s') \<and>
    int j * 200 \<le> graceMs + 199 \<and> lists s' = lists s \<and> jobs s' = jobs s \<and>
    run svc (drain fuel True graceMs sizes) s = (Inr (Some 0), s)"
proof -
  have "0 < fuel" using assms(2,3) by (cases fuel) auto
  then show ?thesis
    using services.run_drain_loop [OF assms(1), of "clock s + graceMs" s fuel sizes 0] assms(2,3)
      services.laws [OF assms(1)]
    by (simp add: drain_def prog_run)
qed

theorem drain_returns_witness:
  "\<exists>j s'. run mem_svc (drain 76 False 15000 (\<lambda>k. 3 - k)) empty_store = (Inr (Some j), s') \<and> j \<le> 75"
  using drain_returns [OF mem.services_axioms, of 15000 76 "\<lambda>k. 3 - k" empty_store] by fastforce

section \<open>Leaving the registry\<close>

text \<open>What the commands of a program never change.\<close>

primrec all_commands :: "(cmd \<Rightarrow> bool) \<Rightarrow> 'a prog \<Rightarrow> bool" where
  "all_commands P (Ret a) = True"
| "all_commands P (Throw e) = True"
| "all_commands P (Await c k) = (P c \<and> (\<forall>r. all_commands P (k r)))"

lemma all_commands_call [simp]: "all_commands P (call c k) \<longleftrightarrow> P c \<and> (\<forall>v. all_commands P (k v))"
  by (auto simp: call_def split: sum.splits)

lemma all_commands_sync [simp]: "all_commands P (sync_call x k) \<longleftrightarrow> (\<forall>v. x = Inr v \<longrightarrow> all_commands P (k v))"
  by (cases x) auto

lemma all_commands_and_then: "all_commands P p \<Longrightarrow> (\<And>a. all_commands P (f a)) \<Longrightarrow> all_commands P (and_then p f)"
  by (induction p) auto

lemma all_commands_catch: "all_commands P p \<Longrightarrow> (\<And>e. all_commands P (h e)) \<Longrightarrow> all_commands P (catch_err p h)"
  by (induction p) auto

lemma run_all_commands:
  assumes "\<And>c s. P c \<Longrightarrow> f (snd (svc c s)) = f s"
  shows "all_commands P p \<Longrightarrow> f (snd (run svc p s)) = f s"
  by (induction p arbitrary: s) (simp_all add: assms)

text \<open>The commands a reaper issues for workers other than \<open>w\<close>.\<close>

fun spares :: "string \<Rightarrow> cmd \<Rightarrow> bool" where
  "spares w (Redis (LREM k v)) = (k \<noteq> processingKey w)"
| "spares w (Redis (LPUSH k v)) = (k \<noteq> processingKey w)"
| "spares w (Redis (LMOVE a b x y)) = False"
| "spares w (Redis (BLMOVE a b x y n)) = False"
| "spares w (Redis (EVAL f)) = False"
| "spares w _ = True"

lemma spares_reaper_helpers:
  "all_commands (spares w) (reaper_logEvent i st m)" "all_commands (spares w) (reaper_publish i st m)"
  by (simp_all add: reaper_logEvent_def reaper_publish_def)

lemma spares_requeue: "v \<noteq> w \<Longrightarrow> all_commands (spares w) (requeueOrphan cfg v i age)"
  by (auto simp: requeueOrphan_def Let_def processingKey_def
      intro!: all_commands_and_then spares_reaper_helpers split: option.split)

lemma spares_reap_each: "v \<noteq> w \<Longrightarrow> all_commands (spares w) (reap_each cfg v now ids)"
  by (induction ids) (auto simp: Let_def intro!: all_commands_and_then spares_requeue)

lemma spares_reapWorker: "v \<noteq> w \<Longrightarrow> all_commands (spares w) (reapWorker cfg v)"
  by (simp add: reapWorker_def spares_reap_each)

lemma spares_tick: "w \<notin> set ws \<Longrightarrow> all_commands (spares w) (tick_workers cfg ws)"
  by (induction ws) (auto intro!: all_commands_and_then all_commands_catch spares_reapWorker)

context services begin

lemma spared:
  assumes "spares w c"
  shows "lists (snd (svc c s)) (processingKey w) = lists s (processingKey w)"
proof (cases c)
  case (Redis r)
  then show ?thesis using assms by (cases r) (auto simp: laws split: option.split)
next
  case (Pg q)
  then show ?thesis by (cases q) (auto simp: laws Let_def split: option.split)
qed (simp_all add: laws)

lemma reaper_tick_spares:
  assumes "w \<notin> set (sets s WORKERS_SET_KEY)"
  shows "lists (snd (run svc (reaper_tick cfg) s)) (processingKey w) = lists s (processingKey w)"
  using run_all_commands [where f = "\<lambda>s. lists s (processingKey w)" and svc = svc, OF spared
      spares_tick [of w "set_order out (sets s WORKERS_SET_KEY)" cfg]] assms
  by (simp add: reaper_tick_def prog_run laws)

end

text \<open>
  A worker that leaves the registry, as it does at the end of its shutdown, is out of the
  reaper's sight: no tick of any reaper ever changes its processing list again. A job that is
  still in it (its data were gone, or Postgres could not be reached to settle it) stays there.
\<close>

theorem deregistered_worker_never_reaped:
  assumes "services svc out" and "run svc (deregisterWorker w) s = (r, s1)"
    and "sets t WORKERS_SET_KEY = sets s1 WORKERS_SET_KEY"
  shows "lists s1 (processingKey w) = lists s (processingKey w) \<and>
    lists (snd (run svc (reaper_tick cfg) t)) (processingKey w) = lists t (processingKey w)"
proof -
  have s1: "s1 = s\<lparr>sets := (sets s)(WORKERS_SET_KEY := removeAll w (sets s WORKERS_SET_KEY))\<rparr>"
    using assms(2) services.laws [OF assms(1)] by (auto simp: deregisterWorker_def prog_run)
  then show ?thesis
    using services.reaper_tick_spares [OF assms(1), of w t cfg] assms(3) by simp
qed

theorem deregistered_worker_never_reaped_witness:
  "let s1 = snd (run mem_svc (deregisterWorker ''w1'') (demo_orphans\<lparr>sets := (\<lambda>_. [''w1''])\<rparr>)) in
   lists (snd (run mem_svc (reaper_tick demo_reaper) s1)) (processingKey ''w1'') = [''b'', ''a'']"
  using deregistered_worker_never_reaped [OF mem.services_axioms prod.collapse [symmetric] refl,
      of "''w1''" "demo_orphans\<lparr>sets := (\<lambda>_. [''w1''])\<rparr>" demo_reaper]
  by (simp add: demo_orphans_def demo_running_def Let_def)

end
