(* ===== verification/Scheduler.thy ===== *)
theory Scheduler
  imports Shared
begin

text \<open>
  \<open>packages/scheduler/src/index.js\<close>: recurring definitions, fired by the one instance that
  holds the scheduler lock. \<open>cron-parser\<close> is not part of the repository: \<open>prev expr now\<close>
  stands for \<open>parseExpression(expr, {currentDate: now}).prev()\<close>, an error for an invalid
  expression.
\<close>

record scheduler_config =
  sched_pollIntervalMs :: int
  sched_maxRetriesDefault :: int

definition lockTtlMs :: "scheduler_config \<Rightarrow> int" where
  "lockTtlMs config = sched_pollIntervalMs config * 5"

type_synonym cron = "string \<Rightarrow> int \<Rightarrow> err + int"

text \<open>The script that deletes the lock only if it is still held by its owner.\<close>

definition release_lock_lua :: "string \<Rightarrow> string \<Rightarrow> store \<Rightarrow> reply \<times> store" where
  "release_lock_lua key arg s =
     (if str_get s key = Some arg then (RInt 1, s\<lparr>strs := (strs s)(key := None)\<rparr>)
      else (RInt 0, s))"

definition isDue :: "cron \<Rightarrow> sched_row \<Rightarrow> int \<Rightarrow> bool" where
  "isDue prev def_row now =
     (case prev (cron_expression def_row) now of
        Inl err \<Rightarrow> False
      | Inr prevFireTime \<Rightarrow>
          (case last_run_at def_row of
             None \<Rightarrow> prevFireTime \<le> now
           | Some lastRun \<Rightarrow> prevFireTime > lastRun))"

text \<open>\<open>def.max_retries || config.maxRetriesDefault\<close>: zero is false.\<close>

definition fired_job_row :: "scheduler_config \<Rightarrow> sched_row \<Rightarrow> string \<Rightarrow> int \<Rightarrow> job_row" where
  "fired_job_row config def_row i now =
     \<lparr>job_id = i, job_type = sched_type def_row, payload = payload_template def_row,
      priority = sched_priority def_row, status = Queued, attempt = 0,
      max_retries = (if sched_max_retries def_row = 0 then sched_maxRetriesDefault config
                     else sched_max_retries def_row),
      idempotency_key = None, scheduled_for = None, created_at = now, updated_at = now,
      completed_at = None, error = None, worker_id = None\<rparr>"

definition fireScheduledJob :: "scheduler_config \<Rightarrow> sched_row \<Rightarrow> int \<Rightarrow> unit prog" where
  "fireScheduledJob config def_row now =
     call NewUuid (\<lambda>u. let i = the_str u in
     call (Pg (INSERT_JOB (fired_job_row config def_row i now))) (\<lambda>rows.
     call (Pg (INSERT_EVENT i Queued (Some (''Enqueued by scheduler from recurring definition '' @
             sched_id def_row @ '' ('' @ cron_expression def_row @ '')'')))) (\<lambda>_.
     call (Pg (UPDATE_SCHEDULE_LAST_RUN (sched_id def_row) now)) (\<lambda>_.
     case row0 rows of None \<Rightarrow> Throw (JsError ''Cannot read properties of undefined'')
     | Some job \<Rightarrow>
     call (Redis (HSET JOB_DATA_KEY i (VEnv
        \<lparr>env_id = i, env_type = job_type job, env_payload = payload job,
         env_priority = priority job, env_attempt = 0, env_maxRetries = max_retries job\<rparr>))) (\<lambda>_.
     sync_call (queueKey (priority job)) (\<lambda>key.
     call (Redis (LPUSH key i)) (\<lambda>_.
     call (Redis (PUBLISH EVENTS_CHANNEL
        \<lparr>e_jobId = i, e_status = Queued, e_message = ''Recurring job fired'', e_ts = now\<rparr>)) (\<lambda>_.
     Ret ()))))))))"

primrec fire_due :: "scheduler_config \<Rightarrow> cron \<Rightarrow> int \<Rightarrow> sched_row list \<Rightarrow> unit prog" where
  "fire_due config prev now [] = Ret ()"
| "fire_due config prev now (d # ds) =
     (if \<not> isDue prev d now then fire_due config prev now ds
      else and_then (fireScheduledJob config d now) (\<lambda>_. fire_due config prev now ds))"

definition scheduler_tick :: "scheduler_config \<Rightarrow> cron \<Rightarrow> string \<Rightarrow> unit prog" where
  "scheduler_tick config prev instanceId =
     call (Redis (SET_NX_PX SCHEDULER_LOCK_KEY instanceId (lockTtlMs config))) (\<lambda>acquired.
     if the_str acquired = '''' then Ret () else
     and_then
       (catch_err
         (call (Pg SELECT_ENABLED_SCHEDULES) (\<lambda>defs.
          call Now (\<lambda>now. fire_due config prev (the_int now) (the_scheds defs))))
         (\<lambda>_. Ret ()))
       (\<lambda>_. call (Redis (EVAL (release_lock_lua SCHEDULER_LOCK_KEY instanceId))) (\<lambda>_. Ret ())))"

section \<open>Running a tick\<close>

text \<open>The store after one definition was fired.\<close>

definition mark_run :: "int \<Rightarrow> string \<Rightarrow> sched_row list \<Rightarrow> sched_row list" where
  "mark_run now i ss = update_scheds i now (last_run_at_update (\<lambda>_. Some now)) ss"

definition fired_envelope :: "string \<Rightarrow> job_row \<Rightarrow> envelope" where
  "fired_envelope i r = \<lparr>env_id = i, env_type = job_type r, env_payload = payload r,
     env_priority = priority r, env_attempt = 0, env_maxRetries = max_retries r\<rparr>"

definition fired :: "scheduler_config \<Rightarrow> sched_row \<Rightarrow> string \<Rightarrow> store \<Rightarrow> store" where
  "fired cfg d i s = (let r = fired_job_row cfg d i (clock s) in
     s\<lparr>jobs := jobs s @ [r],
       job_events := job_events s @ [\<lparr>ev_job = i, ev_status = Queued,
         ev_message = Some (''Enqueued by scheduler from recurring definition '' @ sched_id d @
           '' ('' @ cron_expression d @ '')''), ev_created_at = clock s\<rparr>],
       scheduled_jobs := mark_run (clock s) (sched_id d) (scheduled_jobs s),
       lists := (lists s)(queue_of (priority r) := i # lists s (queue_of (priority r))),
       hashes := (hashes s)(JOB_DATA_KEY := (hashes s JOB_DATA_KEY)(i \<mapsto> VEnv (fired_envelope i r))),
       published := published s @ [(EVENTS_CHANNEL, \<lparr>e_jobId = i, e_status = Queued,
         e_message = ''Recurring job fired'', e_ts = clock s\<rparr>)],
       issued := i # issued s\<rparr>)"

text \<open>
  What the \<open>scheduled_jobs\<close> table guarantees of its rows, and the ids of the jobs table
  among those handed out.
\<close>

definition sched_ok :: "scheduler_config \<Rightarrow> sched_row \<Rightarrow> bool" where
  "sched_ok cfg d \<longleftrightarrow> sched_priority d \<in> set job_priority \<and>
     (let m = (if sched_max_retries d = 0 then sched_maxRetriesDefault cfg else sched_max_retries d)
      in - (2 ^ 31) \<le> m \<and> m < 2 ^ 31)"

definition ids_issued :: "store \<Rightarrow> bool" where
  "ids_issued s \<longleftrightarrow> job_id ` set (jobs s) \<subseteq> set (issued s)"

lemma fired_row_simps [simp]:
  "job_id (fired_job_row cfg d i now) = i"
  "priority (fired_job_row cfg d i now) = sched_priority d"
  by (simp_all add: fired_job_row_def)

lemma fired_row_ok:
  assumes "sched_ok cfg d" and "i \<notin> job_id ` set js"
  shows "insert_job_error js (fired_job_row cfg d i now) = None"
  using assms by (auto simp: insert_job_error_def fired_job_row_def sched_ok_def Let_def)

lemma ids_issued_fired: "ids_issued s \<Longrightarrow> ids_issued (fired cfg d i s)"
  by (auto simp: ids_issued_def fired_def Let_def fired_job_row_def)

lemma fired_keeps [simp]:
  "clock (fired cfg d i s) = clock s" "strs (fired cfg d i s) = strs s"
  "zsets (fired cfg d i s) = zsets s"
  by (simp_all add: fired_def Let_def)

context services begin

lemma run_fire:
  assumes "sched_ok cfg d" and "ids_issued s" and "i = gen_uuid out s"
  shows "run svc (fireScheduledJob cfg d (clock s)) s = (Inr (), fired cfg d i s)"
proof -
  have i: "i \<notin> job_id ` set (jobs s)"
    using assms(2,3) uuid_fresh [of s] by (auto simp: ids_issued_def)
  have q: "queueKey (sched_priority d) = Inr (queue_of (sched_priority d))"
    using assms(1) by (simp add: sched_ok_def queueKey_ok PRIORITIES_is_enum)
  show ?thesis
    using fired_row_ok [OF assms(1) i] i assms(3) q
    by (simp add: fireScheduledJob_def Let_def prog_run laws fired_def mark_run_def
        fired_envelope_def)
qed

end

text \<open>Firing one after the other, with the ids drawn.\<close>

primrec fire_all :: "scheduler_config \<Rightarrow> (sched_row \<times> string) list \<Rightarrow> store \<Rightarrow> store" where
  "fire_all cfg [] s = s"
| "fire_all cfg (di # dis) s = fire_all cfg dis (fired cfg (fst di) (snd di) s)"

lemma fire_all_simps:
  "clock (fire_all cfg dis s) = clock s" "strs (fire_all cfg dis s) = strs s"
  "zsets (fire_all cfg dis s) = zsets s"
  by (induction dis arbitrary: s) simp_all

lemma fire_all_jobs:
  "jobs (fire_all cfg dis s) = jobs s @ map (\<lambda>(d, i). fired_job_row cfg d i (clock s)) dis"
  by (induction dis arbitrary: s) (auto simp: fired_def Let_def)

lemma fire_all_lists:
  "lists (fire_all cfg dis s) (queue_of p) =
     rev (map snd (filter (\<lambda>di. sched_priority (fst di) = p) dis)) @ lists s (queue_of p)"
  by (induction dis arbitrary: s) (auto simp: fired_def Let_def)

lemma mark_run_ids: "map sched_id (mark_run n i ss) = map sched_id ss"
  by (auto simp: mark_run_def update_scheds_def)

lemma fire_all_schedules:
  "scheduled_jobs (fire_all cfg dis s) =
     map (\<lambda>r. if sched_id r \<in> (sched_id \<circ> fst) ` set dis
             then r\<lparr>last_run_at := Some (clock s), sched_updated_at := clock s\<rparr> else r)
       (scheduled_jobs s)"
proof (induction dis arbitrary: s)
  case (Cons di dis)
  show ?case
    unfolding fire_all.simps Cons.IH
    by (auto simp: fired_def Let_def mark_run_def update_scheds_def)
qed (simp add: map_idI)

lemma fire_all_sched_ids:
  "map sched_id (scheduled_jobs (fire_all cfg dis s)) = map sched_id (scheduled_jobs s)"
  by (induction dis arbitrary: s) (simp_all add: fired_def Let_def mark_run_ids)

context services begin

lemma run_fire_due:
  assumes "\<And>d. d \<in> set ds \<Longrightarrow> sched_ok cfg d" and "ids_issued s"
  shows "\<exists>dis. map fst dis = filter (\<lambda>d. isDue prev d (clock s)) ds \<and>
    distinct (map snd dis) \<and> set (map snd dis) \<inter> set (issued s) = {} \<and>
    run svc (fire_due cfg prev (clock s) ds) s = (Inr (), fire_all cfg dis s)"
  using assms
proof (induction ds arbitrary: s)
  case (Cons d ds)
  show ?case
  proof (cases "isDue prev d (clock s)")
    case True
    let ?i = "gen_uuid out s"
    obtain dis where dis: "map fst dis = filter (\<lambda>d. isDue prev d (clock s)) ds"
      "distinct (map snd dis)" "set (map snd dis) \<inter> set (issued (fired cfg d ?i s)) = {}"
      "run svc (fire_due cfg prev (clock s) ds) (fired cfg d ?i s) =
        (Inr (), fire_all cfg dis (fired cfg d ?i s))"
      using Cons.IH [of "fired cfg d ?i s"] Cons.prems ids_issued_fired by auto
    then show ?thesis
      using True run_fire [of cfg d s ?i] Cons.prems uuid_fresh [of s]
      by (intro exI [of _ "(d, ?i) # dis"]) (auto simp: prog_run fired_def Let_def)
  next
    case False
    then show ?thesis using Cons by simp
  qed
qed (simp add: exI [of _ "[]"])

lemma run_tick_held:
  "str_get s SCHEDULER_LOCK_KEY \<noteq> None \<Longrightarrow> run svc (scheduler_tick cfg prev me) s = (Inr (), s)"
  by (cases "str_get s SCHEDULER_LOCK_KEY") (simp_all add: scheduler_tick_def prog_run laws)

lemma run_tick_free:
  assumes "str_get s SCHEDULER_LOCK_KEY = None" and "0 < sched_pollIntervalMs cfg"
    and "\<And>d. d \<in> set (scheduled_jobs s) \<Longrightarrow> enabled d \<Longrightarrow> sched_ok cfg d" and "ids_issued s"
  shows "\<exists>dis. mset (map fst dis) =
      mset (filter (\<lambda>d. enabled d \<and> isDue prev d (clock s)) (scheduled_jobs s)) \<and>
    distinct (map snd dis) \<and> set (map snd dis) \<inter> set (issued s) = {} \<and>
    run svc (scheduler_tick cfg prev me) s = (Inr (), (fire_all cfg dis
      (s\<lparr>strs := (strs s)(SCHEDULER_LOCK_KEY \<mapsto> (me, clock s + lockTtlMs cfg))\<rparr>))
        \<lparr>strs := (strs s)(SCHEDULER_LOCK_KEY := None)\<rparr>)"
proof -
  let ?s = "s\<lparr>strs := (strs s)(SCHEDULER_LOCK_KEY \<mapsto> (me, clock s + lockTtlMs cfg))\<rparr>"
  let ?ds = "scheds_any out (filter enabled (scheduled_jobs s))"
  have m: "mset ?ds = mset (filter enabled (scheduled_jobs s))" by (rule scheds_any)
  then have "set ?ds = set (filter enabled (scheduled_jobs s))" by (metis set_mset_mset)
  then have ok: "sched_ok cfg d" if "d \<in> set ?ds" for d using that assms(3) by auto
  have iss: "ids_issued ?s" using assms(4) by (simp add: ids_issued_def)
  obtain dis where dis: "map fst dis = filter (\<lambda>d. isDue prev d (clock s)) ?ds"
    "distinct (map snd dis)" "set (map snd dis) \<inter> set (issued s) = {}"
    "run svc (fire_due cfg prev (clock s) ?ds) ?s = (Inr (), fire_all cfg dis ?s)"
    using run_fire_due [of ?ds cfg ?s prev] ok iss by auto
  have "mset (map fst dis) = mset (filter (\<lambda>d. enabled d \<and> isDue prev d (clock s)) (scheduled_jobs s))"
    unfolding dis(1) mset_filter m by (simp add: filter_filter_mset conj_commute)
  then show ?thesis
    using dis(2-4) assms(1,2)
    by (intro exI [of _ dis]) (simp add: scheduler_tick_def prog_run laws release_lock_lua_def
        str_get_def fire_all_simps lockTtlMs_def)
qed

end

section \<open>Properties\<close>

definition demo_cron :: cron where
  "demo_cron e n = (if e = ''* * * * *'' then Inr ((n - 1) div 60000 * 60000)
                    else Inl (JsError ''Invalid cron expression''))"

definition demo_sched :: "string \<Rightarrow> string \<Rightarrow> sched_row" where
  "demo_sched i expr = \<lparr>sched_id = i, sched_type = ''noop'', cron_expression = expr,
     payload_template = JObj [], sched_priority = ''low'', sched_max_retries = 0, enabled = True,
     last_run_at = Some 60000, sched_created_at = 0, sched_updated_at = 0\<rparr>"

definition demo_schedules :: store where
  "demo_schedules = empty_store\<lparr>clock := 120500,
     scheduled_jobs := [demo_sched ''m'' ''* * * * *'', demo_sched ''x'' ''nonsense'']\<rparr>"

definition demo_scheduler :: scheduler_config where
  "demo_scheduler = \<lparr>sched_pollIntervalMs = 1000, sched_maxRetriesDefault = 3\<rparr>"

lemmas demo_sched_defs = demo_cron_def demo_sched_def demo_schedules_def demo_scheduler_def
  empty_store_def

lemma demo_schedules_ok:
  "str_get demo_schedules SCHEDULER_LOCK_KEY = None" "0 < sched_pollIntervalMs demo_scheduler"
  "ids_issued demo_schedules"
  "d \<in> set (scheduled_jobs demo_schedules) \<Longrightarrow> enabled d \<Longrightarrow> sched_ok demo_scheduler d"
  by (auto simp: demo_sched_defs str_get_def ids_issued_def sched_ok_def job_priority_def)

text \<open>
  C14: One tick of the lock holder (FR-5.1) fires every enabled definition that is due, each
  exactly once, and no other: for each there is one new queued row with the definition's
  type, payload and priority and a fresh id, its id is pushed on the list of its priority,
  behind the jobs already there, and the definition's last run is the present. Definitions
  with an invalid expression are skipped, and the lock is free again at the end.
\<close>

theorem scheduler_tick_fires:
  assumes "services svc out" and "str_get s SCHEDULER_LOCK_KEY = None"
    and "0 < sched_pollIntervalMs cfg" and "ids_issued s"
    and "\<And>d. d \<in> set (scheduled_jobs s) \<Longrightarrow> enabled d \<Longrightarrow> sched_ok cfg d"
  shows "\<exists>dis s'. run svc (scheduler_tick cfg prev me) s = (Inr (), s') \<and>
    mset (map fst dis) = mset (filter (\<lambda>d. enabled d \<and> isDue prev d (clock s)) (scheduled_jobs s)) \<and>
    distinct (map snd dis) \<and> set (map snd dis) \<inter> set (issued s) = {} \<and>
    jobs s' = jobs s @ map (\<lambda>(d, i). fired_job_row cfg d i (clock s)) dis \<and>
    (\<forall>p. lists s' (queue_of p) =
       rev (map snd (filter (\<lambda>di. sched_priority (fst di) = p) dis)) @ lists s (queue_of p)) \<and>
    scheduled_jobs s' = map (\<lambda>r. if sched_id r \<in> (sched_id \<circ> fst) ` set dis
       then r\<lparr>last_run_at := Some (clock s), sched_updated_at := clock s\<rparr> else r) (scheduled_jobs s) \<and>
    str_get s' SCHEDULER_LOCK_KEY = None \<and> zsets s' = zsets s"
proof -
  obtain dis where dis: "mset (map fst dis) =
      mset (filter (\<lambda>d. enabled d \<and> isDue prev d (clock s)) (scheduled_jobs s))"
    "distinct (map snd dis)" "set (map snd dis) \<inter> set (issued s) = {}"
    and run: "run svc (scheduler_tick cfg prev me) s = (Inr (), (fire_all cfg dis
      (s\<lparr>strs := (strs s)(SCHEDULER_LOCK_KEY \<mapsto> (me, clock s + lockTtlMs cfg))\<rparr>))
        \<lparr>strs := (strs s)(SCHEDULER_LOCK_KEY := None)\<rparr>)"
    using services.run_tick_free [OF assms(1,2,3,5,4)] by blast
  show ?thesis
    by (rule exI [of _ dis], rule exI, intro conjI, rule run)
      (use dis in \<open>simp_all add: fire_all_jobs fire_all_lists fire_all_schedules fire_all_simps str_get_def\<close>)
qed

theorem scheduler_tick_fires_witness:
  "\<exists>i s'. run mem_svc (scheduler_tick demo_scheduler demo_cron ''me'') demo_schedules = (Inr (), s') \<and>
     jobs s' = [fired_job_row demo_scheduler (demo_sched ''m'' ''* * * * *'') i 120500] \<and>
     lists s' (queue_of ''low'') = [i]"
proof -
  have due: "filter (\<lambda>d. enabled d \<and> isDue demo_cron d (clock demo_schedules)) (scheduled_jobs demo_schedules) =
      [demo_sched ''m'' ''* * * * *'']"
    by (simp add: isDue_def demo_sched_defs)
  obtain dis s' where run: "run mem_svc (scheduler_tick demo_scheduler demo_cron ''me'') demo_schedules = (Inr (), s')"
    and m: "mset (map fst dis) = mset [demo_sched ''m'' ''* * * * *'']"
    and j: "jobs s' = jobs demo_schedules @
      map (\<lambda>(d, i). fired_job_row demo_scheduler d i (clock demo_schedules)) dis"
    and l: "\<forall>p. lists s' (queue_of p) =
       rev (map snd (filter (\<lambda>di. sched_priority (fst di) = p) dis)) @ lists demo_schedules (queue_of p)"
    using scheduler_tick_fires [OF mem.services_axioms demo_schedules_ok, of demo_cron "''me''"]
    unfolding due by blast
  have "map fst dis = [demo_sched ''m'' ''* * * * *'']"
    using m by (simp add: mset_single_iff del: mset_map)
  then obtain i where "dis = [(demo_sched ''m'' ''* * * * *'', i)]" by auto
  then show ?thesis using run j l by (auto simp: demo_schedules_def demo_sched_def empty_store_def)
qed

text \<open>
  Only the lock holder acts (FR-5.2): while the lock is live, held by whatever instance,
  a tick changes nothing, and the release script of one instance never removes the lock
  another has taken.
\<close>

theorem scheduler_lock_excludes:
  assumes "services svc out" and "str_get s SCHEDULER_LOCK_KEY = Some holder"
  shows "run svc (scheduler_tick cfg prev me) s = (Inr (), s) \<and>
    (me \<noteq> holder \<longrightarrow> release_lock_lua SCHEDULER_LOCK_KEY me s = (RInt 0, s)) \<and>
    str_get (snd (release_lock_lua SCHEDULER_LOCK_KEY holder s)) SCHEDULER_LOCK_KEY = None"
  using services.run_tick_held [OF assms(1)] assms(2)
  by (auto simp: release_lock_lua_def str_get_def)

theorem scheduler_lock_excludes_witness:
  "run mem_svc (scheduler_tick demo_scheduler demo_cron ''me'')
     (demo_schedules\<lparr>strs := [SCHEDULER_LOCK_KEY \<mapsto> (''you'', 125000)]\<rparr>) =
   (Inr (), demo_schedules\<lparr>strs := [SCHEDULER_LOCK_KEY \<mapsto> (''you'', 125000)]\<rparr>)"
  by (rule scheduler_lock_excludes [OF mem.services_axioms, THEN conjunct1])
    (simp add: str_get_def demo_schedules_def)

text \<open>
  A definition that a tick has fired is due again exactly when its expression has a fire
  time after that tick: later ticks before it, by any instance, do not fire it twice.
\<close>

theorem scheduler_due_again:
  assumes "services svc out" and "str_get s SCHEDULER_LOCK_KEY = None"
    and "0 < sched_pollIntervalMs cfg" and "ids_issued s"
    and "\<And>d. d \<in> set (scheduled_jobs s) \<Longrightarrow> enabled d \<Longrightarrow> sched_ok cfg d"
    and "run svc (scheduler_tick cfg prev me) s = (Inr (), s')"
    and "d \<in> set (scheduled_jobs s)" and "enabled d" and "isDue prev d (clock s)"
    and "r \<in> set (scheduled_jobs s')" and "sched_id r = sched_id d"
  shows "isDue prev r later \<longleftrightarrow> (\<exists>n. prev (cron_expression r) later = Inr n \<and> clock s < n)"
proof -
  obtain dis where dis: "mset (map fst dis) =
      mset (filter (\<lambda>d. enabled d \<and> isDue prev d (clock s)) (scheduled_jobs s))"
    and run: "s' = (fire_all cfg dis
      (s\<lparr>strs := (strs s)(SCHEDULER_LOCK_KEY \<mapsto> (me, clock s + lockTtlMs cfg))\<rparr>))
        \<lparr>strs := (strs s)(SCHEDULER_LOCK_KEY := None)\<rparr>"
    using services.run_tick_free [OF assms(1,2,3,5,4), of prev me] assms(6) by auto
  have "d \<in> set (map fst dis)"
    using mset_eq_setD [OF dis] assms(7-9) by auto
  then have "sched_id r \<in> (sched_id \<circ> fst) ` set dis" using assms(11) by force
  then have "last_run_at r = Some (clock s)"
    using assms(10) unfolding run by (auto simp: fire_all_schedules)
  then show ?thesis by (auto simp: isDue_def split: sum.split)
qed

theorem scheduler_due_again_witness:
  "\<exists>s' r. run mem_svc (scheduler_tick demo_scheduler demo_cron ''me'') demo_schedules = (Inr (), s') \<and>
     r \<in> set (scheduled_jobs s') \<and> sched_id r = ''m'' \<and> \<not> isDue demo_cron r 179000"
proof -
  let ?d = "demo_sched ''m'' ''* * * * *''"
  obtain dis where run: "run mem_svc (scheduler_tick demo_scheduler demo_cron ''me'') demo_schedules = (Inr (),
      (fire_all demo_scheduler dis (demo_schedules\<lparr>strs := (strs demo_schedules)(SCHEDULER_LOCK_KEY \<mapsto>
         (''me'', clock demo_schedules + lockTtlMs demo_scheduler))\<rparr>))
       \<lparr>strs := (strs demo_schedules)(SCHEDULER_LOCK_KEY := None)\<rparr>)" (is "_ = (_, ?s')")
    using mem.run_tick_free [OF demo_schedules_ok(1,2,4,3)] by blast
  have d: "?d \<in> set (scheduled_jobs demo_schedules)" "enabled ?d"
    "isDue demo_cron ?d (clock demo_schedules)"
    by (simp_all add: isDue_def demo_sched_defs)
  have "''m'' \<in> set (map sched_id (scheduled_jobs ?s'))"
    using fire_all_sched_ids [of demo_scheduler dis] by (simp add: demo_sched_defs del: set_map)
  then obtain r where r: "r \<in> set (scheduled_jobs ?s')" "sched_id r = sched_id ?d"
    by (auto simp: demo_sched_def)
  have "\<not> isDue demo_cron r 179000"
    using scheduler_due_again [OF mem.services_axioms demo_schedules_ok run d r, of 179000]
    by (auto simp: demo_cron_def demo_schedules_def split: if_splits)
  then show ?thesis using run r by (auto simp: demo_sched_def)
qed

text \<open>
  A recurring definition that asks for no retries gets the default number: the job a
  firing inserts never has \<open>max_retries\<close> zero when the default is positive.
\<close>

theorem scheduler_zero_retries_ignored:
  assumes "services svc out" and "sched_ok cfg d" and "ids_issued s" and "sched_max_retries d = 0"
  shows "\<exists>r s'. run svc (fireScheduledJob cfg d (clock s)) s = (Inr (), s') \<and>
    jobs s' = jobs s @ [r] \<and> max_retries r = sched_maxRetriesDefault cfg"
  using services.run_fire [OF assms(1-3) refl] assms(4)
  by (simp add: fired_def Let_def fired_job_row_def)

theorem scheduler_zero_retries_ignored_witness:
  "\<exists>r s'. run mem_svc (fireScheduledJob demo_scheduler (demo_sched ''m'' ''* * * * *'')
       (clock demo_schedules)) demo_schedules = (Inr (), s') \<and>
     jobs s' = jobs demo_schedules @ [r] \<and> max_retries r = sched_maxRetriesDefault demo_scheduler"
  by (rule scheduler_zero_retries_ignored [OF mem.services_axioms])
    (use demo_schedules_ok in \<open>auto simp: demo_sched_def demo_schedules_def\<close>)

end
