(* ===== verification/Access.thy ===== *)
theory Access
  imports Queue
begin

text \<open>
  \<open>packages/server/src/middleware\<close> and the key list of \<open>config.js\<close>: who may call the API
  and how often.
\<close>

section \<open>Responses\<close>

text \<open>
  What a handler sends: the status code and the body. A body keeps the fields the source
  serialises; the text of a JSON document and of a date is left to the runtime.
\<close>

record job_view =
  jv_id :: string
  jv_type :: string
  jv_payload :: json
  jv_priority :: string
  jv_status :: job_status
  jv_attempt :: int
  jv_maxRetries :: int
  jv_idempotencyKey :: "string option"
  jv_scheduledFor :: "int option"
  jv_createdAt :: int
  jv_updatedAt :: int
  jv_completedAt :: "int option"
  jv_error :: "string option"
  jv_workerId :: "string option"

record sched_view =
  sv_id :: string
  sv_type :: string
  sv_cronExpression :: string
  sv_payloadTemplate :: json
  sv_priority :: string
  sv_maxRetries :: int
  sv_enabled :: bool
  sv_lastRunAt :: "int option"
  sv_createdAt :: int
  sv_updatedAt :: int

datatype body =
    BError string "string option"
  | BSubmitted string job_status string int bool
  | BJob job_view
  | BJobEvents job_view "event_row list"
  | BJobs "job_view list" int int int
  | BSchedule sched_view
  | BSchedules "sched_view list"
  | BStats queue_stats
  | BHealth string bool bool bool
  | BText "string list"
  | BEmpty

record response =
  rs_code :: nat
  rs_body :: body

definition send :: "nat \<Rightarrow> body \<Rightarrow> response" where
  "send c b = \<lparr>rs_code = c, rs_body = b\<rparr>"

section \<open>API keys\<close>

text \<open>\<open>s.split(',')\<close>, \<open>trim\<close> and \<open>filter(Boolean)\<close>.\<close>

fun split_comma :: "string \<Rightarrow> string list" where
  "split_comma [] = [[]]"
| "split_comma (c # cs) =
     (if c = CHR '','' then [] # split_comma cs
      else (case split_comma cs of [] \<Rightarrow> [[c]] | w # ws \<Rightarrow> (c # w) # ws))"

definition is_space :: "char \<Rightarrow> bool" where
  "is_space c \<longleftrightarrow> c \<in> {CHR '' '', CHR 0x09, CHR 0x0A, CHR 0x0B, CHR 0x0C, CHR 0x0D, CHR 0xA0}"

definition trim :: "string \<Rightarrow> string" where
  "trim xs = rev (dropWhile is_space (rev (dropWhile is_space xs)))"

definition parse_api_keys :: "string option \<Rightarrow> string list" where
  "parse_api_keys env =
     filter (\<lambda>k. k \<noteq> '''')
       (map trim (split_comma (case given env of None \<Rightarrow> ''dev-key-123'' | Some v \<Rightarrow> v)))"

text \<open>\<^term>\<open>Inl\<close> is the answer that ends the request, \<^term>\<open>Inr\<close> the key attached to it.\<close>

definition apiKeyAuth :: "server_config \<Rightarrow> string option \<Rightarrow> response + string" where
  "apiKeyAuth cfg header =
     (case given header of
        None \<Rightarrow> Inl (send 401 (BError ''unauthorized'' (Some ''A valid x-api-key header is required.'')))
      | Some key \<Rightarrow>
          if key \<notin> set (apiKeys cfg)
          then Inl (send 401 (BError ''unauthorized'' (Some ''A valid x-api-key header is required.'')))
          else Inr key)"

section \<open>The rate limit\<close>

text \<open>
  The Lua script. A bucket past its expiry is gone: both fields read as \<open>nil\<close>. Lua and the
  hash keep the level as a number; here it is exact.
\<close>

definition live_bucket :: "store \<Rightarrow> string \<Rightarrow> bucket option" where
  "live_bucket s key =
     (case buckets s key of None \<Rightarrow> None | Some b \<Rightarrow> if clock s < b_expires b then Some b else None)"

definition token_bucket_lua :: "string \<Rightarrow> rat \<Rightarrow> rat \<Rightarrow> int \<Rightarrow> int \<Rightarrow> store \<Rightarrow> reply \<times> store" where
  "token_bucket_lua key capacity refillPerMs now ttlMs s =
     (let b = live_bucket s key;
          start = (case b of None \<Rightarrow> capacity | Some x \<Rightarrow> tokens x);
          since = (case b of None \<Rightarrow> now | Some x \<Rightarrow> ts x);
          elapsed = max 0 (now - since);
          level = min capacity (start + of_int elapsed * refillPerMs);
          allowed = (if 1 \<le> level then 1 else 0 :: int);
          left = (if 1 \<le> level then level - 1 else level)
      in (RPair allowed (of_int \<lfloor>left\<rfloor>),
          s\<lparr>buckets := (buckets s)(key \<mapsto> \<lparr>tokens = left, ts = now, b_expires = clock s + ttlMs\<rparr>)\<rparr>))"

text \<open>\<open>options.perMinute || config.rateLimitPerMin\<close>.\<close>

definition rate_capacity :: "server_config \<Rightarrow> int option \<Rightarrow> int" where
  "rate_capacity cfg perMinute =
     (case perMinute of None \<Rightarrow> rateLimitPerMin cfg
      | Some n \<Rightarrow> if n = 0 then rateLimitPerMin cfg else n)"

definition bucketKey :: "string option \<Rightarrow> string \<Rightarrow> string" where
  "bucketKey apiKey ip = ''ratelimit:'' @ (case given apiKey of None \<Rightarrow> ip | Some k \<Rightarrow> k)"

text \<open>\<^term>\<open>None\<close> lets the request pass.\<close>

definition rateLimit :: "server_config \<Rightarrow> int option \<Rightarrow> string option \<Rightarrow> string \<Rightarrow> response option prog" where
  "rateLimit cfg perMinute apiKey ip =
     (let capacity = rate_capacity cfg perMinute;
          refillPerMs = of_int capacity / 60000
      in call Now (\<lambda>now.
         call (Redis (EVAL (token_bucket_lua (bucketKey apiKey ip) (of_int capacity) refillPerMs
                 (the_int now) 120000))) (\<lambda>r.
         if fst (the_pair r) = 0
         then Ret (Some (send 429 (BError ''rate_limited'' (Some (''Rate limit of '' @
                str_of_int capacity @ ''/min exceeded for this API key.'')))))
         else Ret None)))"

section \<open>The bucket over time\<close>

text \<open>
  The tokens a request at time \<open>t\<close> finds, and a bucket as the script leaves it: the expiry
  is two minutes after the last request, twice the time an empty bucket needs to fill up,
  so that losing the bucket and keeping it make no difference.
\<close>

definition level_at :: "rat \<Rightarrow> bucket option \<Rightarrow> int \<Rightarrow> rat" where
  "level_at cap b t =
     (case b of None \<Rightarrow> cap
      | Some x \<Rightarrow> min cap (tokens x + of_int (max 0 (t - ts x)) * (cap / 60000)))"

definition bucket_ok :: "rat \<Rightarrow> string \<Rightarrow> store \<Rightarrow> bool" where
  "bucket_ok cap key s \<longleftrightarrow> (\<forall>b. buckets s key = Some b \<longrightarrow>
     0 \<le> tokens b \<and> tokens b \<le> cap \<and> ts b \<le> clock s \<and> b_expires b = ts b + 120000)"

lemma level_full:
  assumes "0 \<le> cap" and "0 \<le> tokens x" and "ts x + 120000 \<le> t"
  shows "level_at cap (Some x) t = cap"
proof -
  have "cap = 60000 * (cap / 60000)" by simp
  also have "\<dots> \<le> of_int (max 0 (t - ts x)) * (cap / 60000)"
    by (rule mult_right_mono) (use assms in auto)
  finally show ?thesis using assms(2) by (simp add: level_at_def)
qed

lemma level_live:
  assumes "0 \<le> cap" and "bucket_ok cap key s" and "clock s \<le> t"
  shows "level_at cap (live_bucket (s\<lparr>clock := t\<rparr>) key) t = level_at cap (buckets s key) t"
proof (cases "buckets s key")
  case (Some b)
  then have "0 \<le> tokens b" "b_expires b = ts b + 120000" using assms(2) by (auto simp: bucket_ok_def)
  then show ?thesis
    using Some level_full [OF assms(1), of b t] by (auto simp: live_bucket_def level_at_def)
qed (simp add: live_bucket_def level_at_def)

lemma level_bounds:
  assumes "0 \<le> cap" and "bucket_ok cap key s"
  shows "0 \<le> level_at cap (buckets s key) t" and "level_at cap (buckets s key) t \<le> cap"
proof -
  have "0 \<le> of_int (max 0 (t - u)) * (cap / 60000)" for u
    by (rule mult_nonneg_nonneg) (use assms(1) in auto)
  then show "0 \<le> level_at cap (buckets s key) t"
    using assms unfolding bucket_ok_def level_at_def by (auto split: option.split)
  show "level_at cap (buckets s key) t \<le> cap"
    using assms by (auto simp: level_at_def split: option.split)
qed

lemma level_later:
  assumes "0 \<le> cap" and "ts b = t" and "t \<le> t'"
  shows "level_at cap (Some b) t' \<le> tokens b + of_int (t' - t) * (cap / 60000)"
  using assms by (simp add: level_at_def max_def)

lemma lua_level:
  "token_bucket_lua key cap (cap / 60000) now ttl s =
    (let l = level_at cap (live_bucket s key) now in
     (RPair (if 1 \<le> l then 1 else 0) (of_int \<lfloor>if 1 \<le> l then l - 1 else l\<rfloor>),
      s\<lparr>buckets := (buckets s)(key \<mapsto>
        \<lparr>tokens = (if 1 \<le> l then l - 1 else l), ts = now, b_expires = clock s + ttl\<rparr>)\<rparr>))"
  by (cases "live_bucket s key") (simp_all only: token_bucket_lua_def level_at_def Let_def option.case
      diff_self max.idem of_int_0 mult_zero_left add_0_right min.idem)

text \<open>A request at time \<open>t\<close> to a server whose clock is the clock of Redis.\<close>

definition admits :: "service \<Rightarrow> server_config \<Rightarrow> int option \<Rightarrow> string option \<Rightarrow> string \<Rightarrow> int \<Rightarrow> store \<Rightarrow> bool \<times> store" where
  "admits svc cfg perMinute apiKey ip t s =
     (case run svc (rateLimit cfg perMinute apiKey ip) (s\<lparr>clock := t\<rparr>) of
        (r, s') \<Rightarrow> (r = Inr None, s'))"

primrec admits_all :: "service \<Rightarrow> server_config \<Rightarrow> int option \<Rightarrow> string option \<Rightarrow> string \<Rightarrow> int list \<Rightarrow> store \<Rightarrow> bool list \<times> store" where
  "admits_all svc cfg perMinute apiKey ip [] s = ([], s)"
| "admits_all svc cfg perMinute apiKey ip (t # tms) s =
     (case admits svc cfg perMinute apiKey ip t s of
        (a, s1) \<Rightarrow> (case admits_all svc cfg perMinute apiKey ip tms s1 of (xs, s2) \<Rightarrow> (a # xs, s2)))"

context services begin

lemma run_rateLimit:
  "run svc (rateLimit cfg pm apiKey ip) s =
    (let cap = rate_capacity cfg pm;
         r = token_bucket_lua (bucketKey apiKey ip) (of_int cap) (of_int cap / 60000) (clock s) 120000 s
     in (Inr (if fst (the_pair (fst r)) = 0 then Some (send 429 (BError ''rate_limited''
            (Some (''Rate limit of '' @ str_of_int cap @ ''/min exceeded for this API key.''))))
          else None), snd r))"
  by (simp add: rateLimit_def prog_run laws Let_def)

lemma admits_step:
  assumes "0 \<le> cap" and "cap = of_int (rate_capacity cfg pm)" and "key = bucketKey apiKey ip"
    and "bucket_ok cap key s" and "clock s \<le> t"
    and "l = level_at cap (buckets s key) t"
  shows "admits svc cfg pm apiKey ip t s = (1 \<le> l, s\<lparr>clock := t, buckets := (buckets s)(key \<mapsto>
    \<lparr>tokens = (if 1 \<le> l then l - 1 else l), ts = t, b_expires = t + 120000\<rparr>)\<rparr>)"
proof -
  have "token_bucket_lua key cap (cap / 60000) t 120000 (s\<lparr>clock := t\<rparr>) =
    (RPair (if 1 \<le> l then 1 else 0) (of_int \<lfloor>if 1 \<le> l then l - 1 else l\<rfloor>),
     s\<lparr>clock := t, buckets := (buckets s)(key \<mapsto>
       \<lparr>tokens = (if 1 \<le> l then l - 1 else l), ts = t, b_expires = t + 120000\<rparr>)\<rparr>)"
    using lua_level [of key cap t 120000 "s\<lparr>clock := t\<rparr>"] level_live [OF assms(1,4,5)] assms(6)
    by (simp add: Let_def)
  then show ?thesis
    unfolding admits_def run_rateLimit Let_def assms(2,3) [symmetric] by simp
qed

lemma admits_ok:
  assumes "0 \<le> cap" and "cap = of_int (rate_capacity cfg pm)" and "key = bucketKey apiKey ip"
    and "bucket_ok cap key s" and "clock s \<le> t" and "admits svc cfg pm apiKey ip t s = (a, s')"
  shows "bucket_ok cap key s'" and "clock s' = t"
    and "t \<le> t' \<Longrightarrow> level_at cap (buckets s' key) t' \<le>
      level_at cap (buckets s key) t - (if a then 1 else 0) + of_int (t' - t) * (cap / 60000)"
    and "a \<longleftrightarrow> 1 \<le> level_at cap (buckets s key) t"
proof -
  let ?l = "level_at cap (buckets s key) t"
  note st = admits_step [OF assms(1-5) refl] assms(6)
  then show "bucket_ok cap key s'" "clock s' = t" "a \<longleftrightarrow> 1 \<le> ?l"
    using level_bounds [OF assms(1,4), of t] by (auto simp: bucket_ok_def)
  let ?b = "\<lparr>tokens = (if 1 \<le> ?l then ?l - 1 else ?l), ts = t, b_expires = t + 120000\<rparr>"
  have "buckets s' key = Some ?b" and "a = (1 \<le> ?l)" using st by auto
  then show "level_at cap (buckets s' key) t' \<le> ?l - (if a then 1 else 0) + of_int (t' - t) * (cap / 60000)"
    if "t \<le> t'"
    using level_later [OF assms(1) _ that, of ?b] by (simp split: if_splits)
qed

lemma admitted_bound:
  assumes "0 \<le> cap" and "cap = of_int (rate_capacity cfg pm)" and "key = bucketKey apiKey ip"
    and "bucket_ok cap key s" and "clock s \<le> t" and "sorted (t # tms)"
  shows "of_nat (length (filter id (fst (admits_all svc cfg pm apiKey ip (t # tms) s)))) \<le>
    level_at cap (buckets s key) t + of_int (last (t # tms) - t) * (cap / 60000)"
  using assms(4-6)
proof (induction tms arbitrary: s t)
  case Nil
  obtain a s' where a: "admits svc cfg pm apiKey ip t s = (a, s')" by fastforce
  then show ?case
    using admits_ok(4) [OF assms(1-3) Nil.prems(1,2) a] level_bounds [OF assms(1) Nil.prems(1), of t] by simp
next
  case (Cons t' tms)
  obtain a s' where a: "admits svc cfg pm apiKey ip t s = (a, s')" by fastforce
  note ok = admits_ok [OF assms(1-3) Cons.prems(1,2) a]
  have le: "t \<le> t'" and so: "sorted (t' # tms)" using Cons.prems(3) by auto
  let ?n = "length (filter id (fst (admits_all svc cfg pm apiKey ip (t' # tms) s')))"
  have "of_nat ?n \<le> level_at cap (buckets s' key) t' + of_int (last (t' # tms) - t') * (cap / 60000)"
    by (rule Cons.IH) (use ok le so in auto)
  also have "\<dots> \<le> level_at cap (buckets s key) t - (if a then 1 else 0) +
      of_int (t' - t) * (cap / 60000) + of_int (last (t' # tms) - t') * (cap / 60000)"
    using ok(3) [OF le] by simp
  also have "\<dots> = level_at cap (buckets s key) t - (if a then 1 else 0) +
      of_int (last (t # t' # tms) - t) * (cap / 60000)"
    by (simp add: algebra_simps add_divide_distrib diff_divide_distrib)
  finally show ?case
    by (subst admits_all.simps(2)) (auto simp: a case_prod_beta simp del: admits_all.simps)
qed

end

text \<open>A burst: requests that all arrive at the same time.\<close>

context services begin

lemma admits_burst:
  assumes "0 \<le> cap" and "cap = of_int (rate_capacity cfg pm)" and "key = bucketKey apiKey ip"
    and "bucket_ok cap key s" and "clock s \<le> t" and "level_at cap (buckets s key) t = of_nat k"
  shows "fst (admits_all svc cfg pm apiKey ip (replicate n t) s) =
    replicate (min n k) True @ replicate (n - k) False"
  using assms(4-6)
proof (induction n arbitrary: s k)
  case (Suc n)
  obtain a s' where a: "admits svc cfg pm apiKey ip t s = (a, s')" by fastforce
  note ok = admits_ok [OF assms(1-3) Suc.prems(1,2) a] and step = admits_step [OF assms(1-3) Suc.prems(1,2) refl]
  have "level_at cap (buckets s' key) t = of_nat (k - 1)" and "a \<longleftrightarrow> 0 < k"
    using step a Suc.prems(3) level_bounds(2) [OF assms(1) Suc.prems(1), of t]
    by (auto simp: level_at_def of_nat_diff min_def)
  then show ?case
    using Suc.IH [OF ok(1), of "k - 1"] ok(2) a by (cases k) (auto simp: case_prod_beta)
qed simp

end

text \<open>The script as servers with clocks of their own call it, one time stamp per request.\<close>

primrec lua_all :: "string \<Rightarrow> rat \<Rightarrow> int list \<Rightarrow> store \<Rightarrow> bool list \<times> store" where
  "lua_all key cap [] s = ([], s)"
| "lua_all key cap (n # ns) s =
     (case token_bucket_lua key cap (cap / 60000) n 120000 s of
        (r, s1) \<Rightarrow> (case lua_all key cap ns s1 of (xs, s2) \<Rightarrow> ((fst (the_pair r) = 1) # xs, s2)))"

lemma lua_two_clocks:
  assumes "2 \<le> cap" and "1 \<le> level_at cap (live_bucket s key) a"
    and "\<And>b. live_bucket s key = Some b \<Longrightarrow> 0 \<le> tokens b"
  shows "\<exists>s'. fst (lua_all key cap (a # (a + 60000) # ns) s) = True # True # fst (lua_all key cap ns s') \<and>
    1 \<le> level_at cap (live_bucket s' key) a \<and> (\<forall>b. live_bucket s' key = Some b \<longrightarrow> 0 \<le> tokens b)"
proof -
  let ?l = "level_at cap (live_bucket s key) a"
  let ?s1 = "s\<lparr>buckets := (buckets s)(key \<mapsto> \<lparr>tokens = ?l - 1, ts = a, b_expires = clock s + 120000\<rparr>)\<rparr>"
  let ?s2 = "s\<lparr>buckets := (buckets s)(key \<mapsto> \<lparr>tokens = cap - 1, ts = a + 60000, b_expires = clock s + 120000\<rparr>)\<rparr>"
  have one: "token_bucket_lua key cap (cap / 60000) a 120000 s = (RPair 1 (of_int \<lfloor>?l - 1\<rfloor>), ?s1)"
    using assms(2) by (simp add: lua_level Let_def)
  have "level_at cap (live_bucket ?s1 key) (a + 60000) = cap"
    using assms(2) by (simp add: live_bucket_def level_at_def)
  then have two: "token_bucket_lua key cap (cap / 60000) (a + 60000) 120000 ?s1 = (RPair 1 (of_int \<lfloor>cap - 1\<rfloor>), ?s2)"
    using assms(1) by (simp add: lua_level Let_def)
  show ?thesis
    using assms(1) by (intro exI [of _ ?s2])
      (simp add: one two case_prod_beta, simp add: live_bucket_def level_at_def)
qed

lemma lua_alternating:
  assumes "2 \<le> cap" and "1 \<le> level_at cap (live_bucket s key) a"
    and "\<And>b. live_bucket s key = Some b \<Longrightarrow> 0 \<le> tokens b"
  shows "fst (lua_all key cap (concat (replicate n [a, a + 60000])) s) = replicate (2 * n) True"
  using assms(2,3)
proof (induction n arbitrary: s)
  case (Suc n)
  then show ?case
    using lua_two_clocks [OF assms(1) Suc.prems(1), of "concat (replicate n [a, a + 60000])"] by auto
qed simp

section \<open>Properties\<close>

definition demo_server :: server_config where
  "demo_server = demo_config\<lparr>rateLimitPerMin := 2\<rparr>"

lemma demo_bucket: "bucket_ok cap key empty_store"
  by (simp add: bucket_ok_def empty_store_def)

lemma demo_capacity: "rate_capacity demo_server None = 2"
  by (simp add: rate_capacity_def demo_server_def)

text \<open>
  C25: The rate limit (FR-8.2). Whatever the pattern of requests of one key, from any state of
  its bucket and with the bucket expiring or not, the number admitted between the first and
  the last request is at most the capacity plus the capacity per minute times the time
  between them. So no minute sees more than twice the limit.
\<close>

theorem rate_limit_bound:
  assumes "services svc out" and "cap = rate_capacity cfg perMinute" and "0 \<le> cap"
    and "bucket_ok (of_int cap) (bucketKey apiKey ip) s" and "clock s \<le> t" and "sorted (t # tms)"
  shows "of_nat (length (filter id (fst (admits_all svc cfg perMinute apiKey ip (t # tms) s)))) \<le>
    of_int cap + of_int (last (t # tms) - t) * (of_int cap / 60000 :: rat)"
proof -
  have cap: "(0 :: rat) \<le> of_int cap" "of_int cap = (of_int (rate_capacity cfg perMinute) :: rat)"
    using assms(2,3) by simp_all
  show ?thesis
    using services.admitted_bound [OF assms(1) cap refl assms(4-6)]
      level_bounds(2) [OF cap(1) assms(4), of t] by linarith
qed

theorem rate_limit_bound_witness:
  "length (filter id (fst (admits_all mem_svc demo_server None (Some ''k'') ''ip'' [0, 0, 0, 30000] empty_store))) \<le> 3"
proof -
  have "of_nat (length (filter id (fst (admits_all mem_svc demo_server None (Some ''k'') ''ip''
      [0, 0, 0, 30000] empty_store)))) \<le> (3 :: rat)"
    using rate_limit_bound [OF mem.services_axioms demo_capacity [symmetric] _ demo_bucket,
        of 0 "[0, 0, 30000]" "Some ''k''" "''ip''"]
    by (simp add: empty_store_def del: admits_all.simps)
  then show ?thesis by simp
qed

text \<open>
  A fresh key has its full capacity at once: of any number of simultaneous first
  requests exactly the first \<open>capacity\<close> are admitted, the others get 429.
\<close>

theorem rate_limit_burst:
  assumes "services svc out" and "cap = rate_capacity cfg perMinute" and "0 \<le> cap"
    and "buckets s (bucketKey apiKey ip) = None" and "clock s \<le> t"
  shows "fst (admits_all svc cfg perMinute apiKey ip (replicate n t) s) =
    replicate (min n (nat cap)) True @ replicate (n - nat cap) False"
proof -
  have cap: "(0 :: rat) \<le> of_int cap" "of_int cap = (of_int (rate_capacity cfg perMinute) :: rat)"
    using assms(2,3) by simp_all
  show ?thesis
    by (rule services.admits_burst [OF assms(1) cap refl _ assms(5)])
      (use assms(3,4) in \<open>simp_all add: bucket_ok_def level_at_def\<close>)
qed

theorem rate_limit_burst_witness:
  "fst (admits_all mem_svc demo_server None (Some ''k'') ''ip'' (replicate 4 0) empty_store) =
     [True, True, False, False]"
  by (subst rate_limit_burst [OF mem.services_axioms demo_capacity [symmetric]])
    (simp_all add: empty_store_def numeral_eq_Suc)

text \<open>
  The bound needs one clock. The script takes the time from the calling server and stores
  it even when it is behind the one stored, so two servers whose clocks differ by a minute,
  asked in turn, refill the bucket at every other request: any number of requests is
  admitted in no time.
\<close>

theorem rate_limit_needs_one_clock:
  assumes "2 \<le> cap" and "buckets s key = None"
  shows "fst (lua_all key cap (concat (replicate n [now, now + 60000])) s) = replicate (2 * n) True"
  by (rule lua_alternating [OF assms(1)]) (use assms in \<open>auto simp: live_bucket_def level_at_def\<close>)

theorem rate_limit_needs_one_clock_witness:
  "fst (lua_all ''k'' 2 (concat (replicate 100 [0, 60000])) empty_store) = replicate 200 True"
  using rate_limit_needs_one_clock [of 2 empty_store "''k''" 100 0] by (simp add: empty_store_def)

text \<open>A list of keys as the environment variable holds it.\<close>

fun join_commas :: "string list \<Rightarrow> string" where
  "join_commas [] = []"
| "join_commas [k] = k"
| "join_commas (k # ks) = k @ CHR '','' # join_commas ks"

lemma split_plain: "CHR '','' \<notin> set k \<Longrightarrow> split_comma k = [k]"
  by (induction k) auto

lemma split_append: "CHR '','' \<notin> set k \<Longrightarrow> split_comma (k @ CHR '','' # xs) = k # split_comma xs"
  by (induction k) auto

lemma split_join: "ks \<noteq> [] \<Longrightarrow> \<forall>k \<in> set ks. CHR '','' \<notin> set k \<Longrightarrow> split_comma (join_commas ks) = ks"
  by (induction ks rule: join_commas.induct) (auto simp: split_plain split_append)

lemma parse_joined:
  assumes "ks \<noteq> []" and "\<forall>k \<in> set ks. k \<noteq> '''' \<and> CHR '','' \<notin> set k \<and> trim k = k"
  shows "parse_api_keys (Some (join_commas ks)) = ks"
proof -
  have "join_commas ks \<noteq> ''''" using assms by (induction ks rule: join_commas.induct) auto
  then have "given (Some (join_commas ks)) = Some (join_commas ks)" by (cases "join_commas ks") auto
  moreover have "map trim ks = ks" using assms(2) by (simp add: map_idI)
  moreover have "filter (\<lambda>k. k \<noteq> '''') ks = ks" using assms(2) by (simp add: filter_id_conv)
  ultimately show ?thesis using split_join assms by (simp add: parse_api_keys_def)
qed

text \<open>
  Authentication (FR-8.1). With \<open>API_KEYS\<close> set to a comma-separated list of keys (none
  empty, with a comma or with outer blanks), a request passes exactly when its \<open>x-api-key\<close>
  header is one of them; any other request, with no header or an empty one among them, is
  answered with 401.
\<close>

theorem api_key_auth:
  assumes "ks \<noteq> []" and "\<forall>k \<in> set ks. k \<noteq> '''' \<and> CHR '','' \<notin> set k \<and> trim k = k"
    and "apiKeys cfg = parse_api_keys (Some (join_commas ks))"
  shows "apiKeyAuth cfg header =
    (if header \<in> Some ` set ks then Inr (the header)
     else Inl (send 401 (BError ''unauthorized'' (Some ''A valid x-api-key header is required.''))))"
proof -
  have "'''' \<notin> set ks" using assms(2) by blast
  then have "k \<noteq> '''' \<and> given (Some k) = Some k" if "k \<in> set ks" for k using that by (cases k) auto
  moreover have "given h = Some k \<Longrightarrow> h = Some k" for h k
    by (cases h; cases "the h") auto
  ultimately show ?thesis
    using parse_joined [OF assms(1,2)] assms(3)
    by (force simp: apiKeyAuth_def split: option.split)
qed

theorem api_key_auth_witness:
  "apiKeyAuth (demo_server\<lparr>apiKeys := parse_api_keys (Some ''k1,k2'')\<rparr>) (Some ''k2'') = Inr ''k2''"
  by (subst api_key_auth [of "[''k1'', ''k2'']"]) (simp_all add: trim_def is_space_def)

end
