(* ===== verification/Routes.thy ===== *)
theory Routes
  imports Access
begin

text \<open>
  \<open>packages/server/src/routes\<close> and \<open>app.js\<close>: the HTTP API. Fastify validates a request
  against the schema of its route, runs the \<open>preHandler\<close> hooks in order (authentication, then
  the rate limit), calls the handler and hands whatever is thrown to the error handler. Paths,
  the parsing of bodies and the coercion of their values are Fastify's: a request is given as
  its route with the values the schema lets through to the handler.
\<close>

section \<open>Requests and their schemas\<close>

record list_query =
  lq_status :: "job_status option"
  lq_type :: "string option"
  lq_page :: "int option"
  lq_pageSize :: "int option"

record sched_request =
  sr_type :: string
  sr_cronExpression :: string
  sr_payloadTemplate :: "json option"
  sr_priority :: "string option"
  sr_maxRetries :: "int option"
  sr_enabled :: "bool option"

datatype route =
    PostJobs enqueue_request
  | GetJob string
  | GetJobs list_query
  | PostRetry string
  | DeleteJob string
  | GetStats
  | PostSchedules sched_request
  | GetSchedules
  | PatchSchedule string "json option"
  | DeleteSchedule string

definition length_ok :: "nat \<Rightarrow> string \<Rightarrow> bool" where
  "length_ok m x \<longleftrightarrow> 1 \<le> length x \<and> length x \<le> m"

definition int_within :: "int \<Rightarrow> int option \<Rightarrow> int option \<Rightarrow> bool" where
  "int_within lo hi v = (case v of None \<Rightarrow> True
     | Some n \<Rightarrow> lo \<le> n \<and> (case hi of None \<Rightarrow> True | Some h \<Rightarrow> n \<le> h))"

definition optional :: "('a \<Rightarrow> bool) \<Rightarrow> 'a option \<Rightarrow> bool" where
  "optional P v = (case v of None \<Rightarrow> True | Some x \<Rightarrow> P x)"

fun is_plain_object :: "json \<Rightarrow> bool" where
  "is_plain_object (JObj _) = True"
| "is_plain_object _ = False"

definition enqueueSchema :: "enqueue_request \<Rightarrow> bool" where
  "enqueueSchema rq \<longleftrightarrow> length_ok 255 (rq_type rq) \<and> optional is_plain_object (rq_payload rq) \<and>
     optional (\<lambda>p. p \<in> set [''high'', ''normal'', ''low'']) (rq_priority rq) \<and>
     int_within 0 None (rq_delay rq) \<and> int_within 0 (Some 50) (rq_maxRetries rq) \<and>
     optional (length_ok 255) (rq_idempotencyKey rq)"

text \<open>The status is one of the enumeration by its type.\<close>

definition listSchema :: "list_query \<Rightarrow> bool" where
  "listSchema q \<longleftrightarrow> int_within 1 None (lq_page q) \<and> int_within 1 (Some 100) (lq_pageSize q)"

definition createSchema :: "sched_request \<Rightarrow> bool" where
  "createSchema rq \<longleftrightarrow> length_ok 255 (sr_type rq) \<and> length_ok 120 (sr_cronExpression rq) \<and>
     optional is_plain_object (sr_payloadTemplate rq) \<and>
     optional (\<lambda>p. p \<in> set [''high'', ''normal'', ''low'']) (sr_priority rq) \<and>
     int_within 0 (Some 50) (sr_maxRetries rq)"

fun schema_ok :: "route \<Rightarrow> bool" where
  "schema_ok (PostJobs rq) = enqueueSchema rq"
| "schema_ok (GetJobs q) = listSchema q"
| "schema_ok (PostSchedules rq) = createSchema rq"
| "schema_ok _ = True"

section \<open>Jobs\<close>

definition serializeJob :: "job_row \<Rightarrow> job_view" where
  "serializeJob job = \<lparr>jv_id = job_id job, jv_type = job_type job, jv_payload = payload job,
     jv_priority = priority job, jv_status = status job, jv_attempt = attempt job,
     jv_maxRetries = max_retries job, jv_idempotencyKey = idempotency_key job,
     jv_scheduledFor = scheduled_for job, jv_createdAt = created_at job,
     jv_updatedAt = updated_at job, jv_completedAt = completed_at job,
     jv_error = error job, jv_workerId = worker_id job\<rparr>"

definition not_found :: response where
  "not_found = send 404 (BError ''not_found'' None)"

definition post_jobs :: "server_config \<Rightarrow> enqueue_request \<Rightarrow> response prog" where
  "post_jobs cfg rq =
     and_then (enqueueJob cfg rq) (\<lambda>res. let job = res_job res; deduped = res_deduped res in
     Ret (send (if deduped then 200 else 201)
            (BSubmitted (job_id job) (status job) (priority job) (created_at job) deduped)))"

definition get_job :: "string \<Rightarrow> response prog" where
  "get_job i =
     and_then (getJobById i) (\<lambda>found. case found of
       None \<Rightarrow> Ret not_found
     | Some job \<Rightarrow> and_then (getJobEvents (job_id job)) (\<lambda>events.
         Ret (send 200 (BJobEvents (serializeJob job) events))))"

definition get_jobs :: "list_query \<Rightarrow> response prog" where
  "get_jobs q =
     (let page = (case lq_page q of None \<Rightarrow> 1 | Some n \<Rightarrow> n);
          pageSize = (case lq_pageSize q of None \<Rightarrow> 25 | Some n \<Rightarrow> n) in
      and_then (listJobs (lq_status q) (lq_type q) page pageSize) (\<lambda>result.
      Ret (send 200 (BJobs (map serializeJob (lr_jobs result)) (lr_total result)
             (lr_page result) (lr_pageSize result)))))"

text \<open>Both state-changing routes turn an \<open>INVALID_STATE\<close> error into 409.\<close>

definition invalid_state :: "err \<Rightarrow> response prog" where
  "invalid_state err = (case err of
     InvalidState m \<Rightarrow> Ret (send 409 (BError ''invalid_state'' (Some m)))
   | _ \<Rightarrow> Throw err)"

definition post_retry :: "string \<Rightarrow> response prog" where
  "post_retry i = catch_err
     (and_then (retryJob i) (\<lambda>found. case found of
        None \<Rightarrow> Ret not_found
      | Some job \<Rightarrow> Ret (send 200 (BJob (serializeJob job))))) invalid_state"

definition delete_job :: "string \<Rightarrow> response prog" where
  "delete_job i = catch_err
     (and_then (cancelJob i) (\<lambda>found. case found of
        None \<Rightarrow> Ret not_found
      | Some job \<Rightarrow> Ret (send 200 (BJob (serializeJob job))))) invalid_state"

definition get_stats :: "response prog" where
  "get_stats = and_then getQueueStats (\<lambda>stats. Ret (send 200 (BStats stats)))"

section \<open>Schedules\<close>

definition serialize_sched :: "sched_row \<Rightarrow> sched_view" where
  "serialize_sched row = \<lparr>sv_id = sched_id row, sv_type = sched_type row,
     sv_cronExpression = cron_expression row, sv_payloadTemplate = payload_template row,
     sv_priority = sched_priority row, sv_maxRetries = sched_max_retries row,
     sv_enabled = enabled row, sv_lastRunAt = last_run_at row,
     sv_createdAt = sched_created_at row, sv_updatedAt = sched_updated_at row\<rparr>"

text \<open>The columns the \<open>INSERT\<close> names; the others take their defaults.\<close>

definition new_sched_row :: "sched_request \<Rightarrow> sched_row" where
  "new_sched_row rq = \<lparr>sched_id = '''', sched_type = sr_type rq,
     cron_expression = sr_cronExpression rq,
     payload_template = (case sr_payloadTemplate rq of None \<Rightarrow> JObj [] | Some p \<Rightarrow> p),
     sched_priority = (case sr_priority rq of None \<Rightarrow> ''normal'' | Some p \<Rightarrow> p),
     sched_max_retries = (case sr_maxRetries rq of None \<Rightarrow> 3 | Some n \<Rightarrow> n),
     enabled = (case sr_enabled rq of None \<Rightarrow> True | Some b \<Rightarrow> b),
     last_run_at = None, sched_created_at = 0, sched_updated_at = 0\<rparr>"

definition first_sched :: "reply \<Rightarrow> sched_row option" where
  "first_sched r = (case the_scheds r of [] \<Rightarrow> None | row # _ \<Rightarrow> Some row)"

definition post_schedules :: "sched_request \<Rightarrow> response prog" where
  "post_schedules rq =
     call (Pg (INSERT_SCHEDULE (new_sched_row rq))) (\<lambda>rows. case first_sched rows of
       None \<Rightarrow> Throw undefined_row
     | Some row \<Rightarrow> Ret (send 201 (BSchedule (serialize_sched row))))"

definition get_schedules :: "response prog" where
  "get_schedules = call (Pg SELECT_SCHEDULES) (\<lambda>rows.
     Ret (send 200 (BSchedules (map serialize_sched (the_scheds rows)))))"

text \<open>\<open>const { enabled } = request.body || {}\<close> and the \<open>typeof\<close> test.\<close>

definition patch_enabled :: "json option \<Rightarrow> bool option" where
  "patch_enabled b =
     (case (case b of Some j \<Rightarrow> if truthy b then prop_of j ''enabled'' else None | None \<Rightarrow> None) of
        Some (JBool v) \<Rightarrow> Some v
      | _ \<Rightarrow> None)"

definition patch_schedule :: "string \<Rightarrow> json option \<Rightarrow> response prog" where
  "patch_schedule i b =
     (case patch_enabled b of
        None \<Rightarrow> Ret (send 400 (BError ''validation_error''
          (Some ([CHR 0x22] @ ''enabled'' @ [CHR 0x22] @ '' boolean required''))))
      | Some v \<Rightarrow> call (Pg (UPDATE_SCHEDULE_ENABLED v i)) (\<lambda>rows. case first_sched rows of
          None \<Rightarrow> Ret not_found
        | Some row \<Rightarrow> Ret (send 200 (BSchedule (serialize_sched row)))))"

definition delete_schedule_route :: "string \<Rightarrow> response prog" where
  "delete_schedule_route i = call (Pg (DELETE_SCHEDULE i)) (\<lambda>rowCount.
     if the_int rowCount = 0 then Ret not_found else Ret (send 204 BEmpty))"

section \<open>The application\<close>

fun handle :: "server_config \<Rightarrow> route \<Rightarrow> response prog" where
  "handle cfg (PostJobs rq) = post_jobs cfg rq"
| "handle cfg (GetJob i) = get_job i"
| "handle cfg (GetJobs q) = get_jobs q"
| "handle cfg (PostRetry i) = post_retry i"
| "handle cfg (DeleteJob i) = delete_job i"
| "handle cfg GetStats = get_stats"
| "handle cfg (PostSchedules rq) = post_schedules rq"
| "handle cfg GetSchedules = get_schedules"
| "handle cfg (PatchSchedule i b) = patch_schedule i b"
| "handle cfg (DeleteSchedule i) = delete_schedule_route i"

text \<open>\<open>setErrorHandler\<close>: a schema violation is 400, with the validator's text, the rest 500.\<close>

definition validation_error :: response where
  "validation_error = send 400 (BError ''validation_error'' None)"

definition internal_error :: "err \<Rightarrow> response prog" where
  "internal_error err = Ret (send 500 (BError ''internal_error'' (Some ''Something went wrong.'')))"

definition serve :: "server_config \<Rightarrow> string option \<Rightarrow> string \<Rightarrow> route \<Rightarrow> response prog" where
  "serve cfg header ip r =
     (if \<not> schema_ok r then Ret validation_error
      else case apiKeyAuth cfg header of
        Inl answer \<Rightarrow> Ret answer
      | Inr key \<Rightarrow> catch_err
          (and_then (rateLimit cfg None (Some key) ip) (\<lambda>limited. case limited of
             Some answer \<Rightarrow> Ret answer
           | None \<Rightarrow> handle cfg r)) internal_error)"

text \<open>\<open>/health\<close> and \<open>/metrics\<close> are outside the authenticated part.\<close>

definition health :: "response prog" where
  "health =
     and_then (catch_err (call (Redis PING) (\<lambda>_. Ret True)) (\<lambda>_. Ret False)) (\<lambda>redis_ok.
     and_then (catch_err (call (Pg SELECT_1) (\<lambda>_. Ret True)) (\<lambda>_. Ret False)) (\<lambda>pg_ok.
     let healthy = (redis_ok \<and> pg_ok) in
     Ret (send (if healthy then 200 else 503)
       (BHealth (if healthy then ''ok'' else ''degraded'') True redis_ok pg_ok))))"

text \<open>A rate with four decimals, as a JavaScript number prints.\<close>

definition str_of_rate :: "rat \<Rightarrow> string" where
  "str_of_rate x =
     (let n = \<lfloor>x * 10000\<rfloor>; frac = n mod 10000;
          digits = drop 1 (str_of_int (10000 + frac))
      in str_of_int (n div 10000) @
         (if frac = 0 then '''' else CHR ''.'' # rev (dropWhile (\<lambda>c. c = CHR ''0'') (rev digits))))"

definition metrics :: "response prog" where
  "metrics = catch_err (and_then getQueueStats (\<lambda>stats.
     let label = (\<lambda>p. ''jobqueue_queue_depth{priority='' @ [CHR 0x22] @ p @ [CHR 0x22] @ ''} '') in
     Ret (send 200 (BText
       [''# HELP jobqueue_queue_depth Current queue depth by priority'',
        ''# TYPE jobqueue_queue_depth gauge'',
        label ''high'' @ str_of_int (depth_high stats),
        label ''normal'' @ str_of_int (depth_normal stats),
        label ''low'' @ str_of_int (depth_low stats),
        label ''delayed'' @ str_of_int (depth_delayed stats),
        ''# HELP jobqueue_dlq_count Jobs currently in the dead-letter queue'',
        ''# TYPE jobqueue_dlq_count gauge'',
        ''jobqueue_dlq_count '' @ str_of_int (dlqCount stats),
        ''# HELP jobqueue_throughput_per_min Completed jobs in the last minute'',
        ''# TYPE jobqueue_throughput_per_min gauge'',
        ''jobqueue_throughput_per_min '' @ str_of_int (throughputPerMin stats),
        ''# HELP jobqueue_failure_rate_last_hour Failure rate over the last hour'',
        ''# TYPE jobqueue_failure_rate_last_hour gauge'',
        ''jobqueue_failure_rate_last_hour '' @ str_of_rate (failureRateLastHour stats),
        '''']))))
     internal_error"

section \<open>Every request is answered\<close>

text \<open>What a program can return, whatever the service answers.\<close>

primrec returns :: "('a \<Rightarrow> bool) \<Rightarrow> 'a prog \<Rightarrow> bool" where
  "returns P (Ret a) = P a"
| "returns P (Throw e) = True"
| "returns P (Await c k) = (\<forall>r. returns P (k r))"

lemma returns_call [simp]: "returns P (call c k) = (\<forall>v. returns P (k v))"
  by (auto simp: call_def split: sum.split)

lemma returns_sync [simp]: "returns P (sync_call x k) = (\<forall>v. x = Inr v \<longrightarrow> returns P (k v))"
  by (cases x) auto

lemma returns_and_then: "(\<And>a. returns P (f a)) \<Longrightarrow> returns P (and_then p f)"
  by (induction p) auto

lemma returns_catch: "returns P p \<Longrightarrow> (\<And>e. returns P (h e)) \<Longrightarrow> returns P (catch_err p h)"
  by (induction p) auto

lemma run_returns: "returns P p \<Longrightarrow> run svc p s = (Inr a, t) \<Longrightarrow> P a"
  by (induction p arbitrary: s) auto

definition api_code :: "response \<Rightarrow> bool" where
  "api_code r \<longleftrightarrow> rs_code r \<in> {200, 201, 204, 400, 401, 404, 409, 429, 500}"

lemma api_code_send [simp]: "api_code (send c b) \<longleftrightarrow> c \<in> {200, 201, 204, 400, 401, 404, 409, 429, 500}"
  by (simp add: api_code_def send_def)

lemma send_inj [simp]: "send c b = send c' b' \<longleftrightarrow> c = c' \<and> b = b'"
  by (simp add: send_def)

lemma returns_invalid_state: "returns api_code (invalid_state e)"
  by (cases e) (simp_all add: invalid_state_def)

lemma returns_jobs:
  "returns api_code (post_jobs cfg rq)" "returns api_code (get_job i)" "returns api_code (get_jobs q)"
  unfolding post_jobs_def get_job_def get_jobs_def Let_def
  by (intro returns_and_then; simp add: not_found_def returns_and_then split: option.split)+

lemma returns_changes: "returns api_code (post_retry i)" "returns api_code (delete_job i)"
  unfolding post_retry_def delete_job_def
  by (intro returns_catch returns_and_then returns_invalid_state;
      simp add: not_found_def split: option.split)+

lemma returns_schedules:
  "returns api_code (post_schedules rq)" "returns api_code get_schedules"
  "returns api_code (patch_schedule i b)" "returns api_code (delete_schedule_route i)"
  by (simp_all add: post_schedules_def get_schedules_def patch_schedule_def
      delete_schedule_route_def not_found_def split: option.split)

lemma returns_handle: "returns api_code (handle cfg r)"
proof -
  have "returns api_code get_stats"
    unfolding get_stats_def by (intro returns_and_then) simp
  then show ?thesis by (cases r) (simp_all add: returns_jobs returns_changes returns_schedules)
qed

lemma returns_serve: "returns api_code (serve cfg header ip r)"
proof -
  have limit: "returns api_code (and_then (rateLimit cfg None (Some key) ip) (\<lambda>limited. case limited of
      Some answer \<Rightarrow> Ret answer | None \<Rightarrow> handle cfg r))" for key
    by (auto simp: rateLimit_def Let_def returns_handle)
  show ?thesis
    by (auto simp: serve_def validation_error_def internal_error_def apiKeyAuth_def
        intro!: returns_catch limit split: sum.split option.splits if_splits)
qed

lemma run_catch_ret:
  "(\<And>e. \<exists>b. h e = Ret b) \<Longrightarrow> \<exists>a t. run svc (catch_err p h) s = (Inr a, t)"
proof (induction p arbitrary: s)
  case (Throw e)
  then obtain b where "h e = Ret b" by blast
  then show ?case by simp
qed auto

lemma serve_answers: "\<exists>a t. run svc (serve cfg header ip r) s = (Inr a, t)"
proof (cases "apiKeyAuth cfg header")
  case (Inr key)
  then show ?thesis
    using run_catch_ret [of internal_error svc] by (simp add: serve_def internal_error_def)
qed (simp add: serve_def)

section \<open>Submission and lookup\<close>

context services begin

lemma post_jobs_created:
  assumes "run svc (post_jobs cfg rq) s = (Inr (send 201 (BSubmitted i st p created deduped)), s1)"
  shows "\<exists>row. run svc (enqueueJob cfg rq) s = (Inr \<lparr>res_job = row, res_deduped = False\<rparr>, s1) \<and>
    i = job_id row \<and> st = status row \<and> p = priority row"
proof (cases "run svc (enqueueJob cfg rq) s")
  case (Pair res t)
  then obtain job dd where r: "res = Inr \<lparr>res_job = job, res_deduped = dd\<rparr>"
    using assms by (cases res; cases "projr res") (auto simp: post_jobs_def prog_run)
  then show ?thesis
    using assms Pair by (auto simp: post_jobs_def prog_run send_def Let_def split: if_splits)
qed

lemma submit_then_get:
  assumes "run svc (post_jobs cfg rq) s = (Inr (send 201 (BSubmitted i st p created deduped)), s1)"
    and "\<forall>e \<in> set (job_events s). ev_job e \<in> job_id ` set (jobs s)"
  shows "\<exists>view event. run svc (get_job i) s1 = (Inr (send 200 (BJobEvents view [event])), s1) \<and>
    jv_id view = i \<and> jv_type view = rq_type rq \<and> jv_status view = st \<and> jv_priority view = p \<and>
    p = (case rq_priority rq of None \<Rightarrow> ''normal'' | Some x \<Rightarrow> x) \<and>
    jv_payload view = (case rq_payload rq of None \<Rightarrow> JObj [] | Some x \<Rightarrow> x) \<and>
    jv_maxRetries view = (case rq_maxRetries rq of None \<Rightarrow> maxRetriesDefault cfg | Some n \<Rightarrow> n) \<and>
    jv_idempotencyKey view = given (rq_idempotencyKey rq) \<and> jv_attempt view = 0 \<and>
    st = (if (case rq_delay rq of None \<Rightarrow> 0 | Some d \<Rightarrow> d) > 0 then Delayed else Queued) \<and>
    ev_job event = i \<and> ev_status event = st \<and> ev_message event = Some ''Job created''"
proof -
  obtain row where en: "run svc (enqueueJob cfg rq) s = (Inr \<lparr>res_job = row, res_deduped = False\<rparr>, s1)"
    and i: "i = job_id row" and st: "st = status row" and p: "p = priority row"
    using post_jobs_created [OF assms(1)] by blast
  note r = enqueue_fresh_result [OF en]
  let ?ev = "\<lparr>ev_job = i, ev_status = st, ev_message = Some ''Job created'', ev_created_at = clock s\<rparr>"
  have s1: "jobs s1 = jobs s @ [row]" "job_events s1 = job_events s @ [?ev]"
    using r(3) by (auto simp: run_enqueue_new [OF r(1,2) refl] i st)
  have new: "i \<notin> job_id ` set (jobs s)"
    using r(2) i by (auto simp: insert_job_error_def split: if_splits)
  have row: "get_row i (jobs s1) = Some row" using s1(1) new i get_row_None [of i "jobs s"] by auto
  have "filter (\<lambda>e. ev_job e = i) (job_events s1) = [?ev]"
    using s1(2) assms(2) new by (auto simp: filter_empty_conv)
  then have "mset (events_asc out (filter (\<lambda>e. ev_job e = i) (job_events s1))) = {#?ev#}"
    using events_asc(1) by simp
  then have ev: "events_asc out (filter (\<lambda>e. ev_job e = i) (job_events s1)) = [?ev]"
    by (simp only: mset_single_iff)
  have get: "run svc (get_job i) s1 = (Inr (send 200 (BJobEvents (serializeJob row) [?ev])), s1)"
    using row ev i by (simp add: get_job_def prog_run laws getJobEvents_def)
  show ?thesis
    by (rule exI [of _ "serializeJob row"], rule exI [of _ ?ev], intro conjI, rule get)
      (use r(1) i st p in \<open>simp_all add: serializeJob_def new_job_row_def Let_def\<close>)
qed

end

section \<open>The life of a schedule\<close>

definition patched :: "bool \<Rightarrow> int \<Rightarrow> sched_view \<Rightarrow> sched_view" where
  "patched b now v = v\<lparr>sv_enabled := b, sv_updatedAt := now\<rparr>"

lemma patch_body: "patch_enabled (Some (JObj [(''enabled'', JBool b)])) = Some b"
  by (simp add: patch_enabled_def)

context services begin

lemma post_schedule_row:
  assumes "run svc (post_schedules rq) s = (Inr (send 201 (BSchedule v)), s1)"
    and "sched_id ` set (scheduled_jobs s) \<subseteq> set (issued s)"
  shows "\<exists>row. scheduled_jobs s1 = scheduled_jobs s @ [row] \<and> v = serialize_sched row \<and>
    sched_id row \<notin> sched_id ` set (scheduled_jobs s)"
  using assms uuid_fresh [of s]
  by (auto simp: post_schedules_def prog_run laws Let_def first_sched_def split: if_splits)

lemma run_get_schedules:
  "\<exists>rows. run svc get_schedules s = (Inr (send 200 (BSchedules (map serialize_sched rows))), s) \<and>
     mset rows = mset (scheduled_jobs s)"
  using scheds_desc(1) [of "scheduled_jobs s"] by (auto simp: get_schedules_def prog_run laws)

end

section \<open>Properties\<close>


text \<open>
  A request that violates its schema, or has no valid key, never reaches Redis or
  Postgres: it is answered 400 or 401 before any command, for every service, and leaves the
  state as it was. The schema comes first.
\<close>

theorem api_rejects_early:
  assumes "\<not> schema_ok r \<or> header \<notin> Some ` (set (apiKeys cfg) - {''''})"
  shows "\<exists>response. run svc (serve cfg header ip r) s = (Inr response, s) \<and>
    rs_code response = (if schema_ok r then 401 else 400)"
proof (cases "schema_ok r")
  case True
  have "\<exists>b. apiKeyAuth cfg header = Inl (send 401 b)"
  proof (cases "given header")
    case (Some k)
    then have "header = Some k" "k \<noteq> ''''" by (cases header; cases "the header"; simp)+
    then show ?thesis using assms True Some by (auto simp: apiKeyAuth_def)
  qed (auto simp: apiKeyAuth_def)
  then show ?thesis using True by (auto simp: serve_def send_def)
qed (simp add: serve_def validation_error_def send_def)

theorem api_rejects_early_witness:
  "\<exists>response. run mem_svc (serve demo_server (Some ''wrong'') ''ip'' GetStats) empty_store = (Inr response, empty_store) \<and>
     rs_code response = 401"
  using api_rejects_early [of GetStats "Some ''wrong''" demo_server mem_svc "''ip''" empty_store]
  by (auto simp: demo_server_def demo_config_def)

lemma demo_created:
  "\<exists>i s1. run mem_svc (post_jobs demo_server demo_request) empty_store =
     (Inr (send 201 (BSubmitted i Queued ''high'' 0 False)), s1)"
  using mem.run_enqueueJob_new [of empty_store demo_request demo_server]
    mem.run_enqueue_new [OF refl _ refl, of empty_store demo_server demo_request]
  by (simp add: post_jobs_def prog_run existing_job_def demo_server_def demo_defs str_get_def row_defs Let_def)

text \<open>
  C26: Submit, then look up: after \<open>POST /jobs\<close> has answered 201, \<open>GET /jobs/:id\<close> with the id
  from the answer returns 200 with the job as it was asked for (type, payload, priority,
  retries and key of the request or their defaults), the status of the answer, no attempt
  made, and exactly one event, its creation.
\<close>

theorem api_submit_then_get:
  assumes "services svc out"
    and "run svc (post_jobs cfg rq) s = (Inr (send 201 (BSubmitted i st p created deduped)), s1)"
    and "\<forall>e \<in> set (job_events s). ev_job e \<in> job_id ` set (jobs s)"
  shows "\<exists>view event. run svc (get_job i) s1 = (Inr (send 200 (BJobEvents view [event])), s1) \<and>
    jv_id view = i \<and> jv_type view = rq_type rq \<and> jv_status view = st \<and> jv_priority view = p \<and>
    p = (case rq_priority rq of None \<Rightarrow> ''normal'' | Some x \<Rightarrow> x) \<and>
    jv_payload view = (case rq_payload rq of None \<Rightarrow> JObj [] | Some x \<Rightarrow> x) \<and>
    jv_maxRetries view = (case rq_maxRetries rq of None \<Rightarrow> maxRetriesDefault cfg | Some n \<Rightarrow> n) \<and>
    jv_idempotencyKey view = given (rq_idempotencyKey rq) \<and> jv_attempt view = 0 \<and>
    st = (if (case rq_delay rq of None \<Rightarrow> 0 | Some d \<Rightarrow> d) > 0 then Delayed else Queued) \<and>
    ev_job event = i \<and> ev_status event = st \<and> ev_message event = Some ''Job created''"
  by (rule services.submit_then_get [OF assms])

theorem api_submit_then_get_witness:
  "\<exists>i s1 view event. run mem_svc (post_jobs demo_server demo_request) empty_store =
       (Inr (send 201 (BSubmitted i Queued ''high'' 0 False)), s1) \<and>
     run mem_svc (get_job i) s1 = (Inr (send 200 (BJobEvents view [event])), s1) \<and>
     jv_id view = i \<and> jv_type view = ''noop''"
proof -
  obtain i s1 where r: "run mem_svc (post_jobs demo_server demo_request) empty_store =
      (Inr (send 201 (BSubmitted i Queued ''high'' 0 False)), s1)"
    using demo_created by blast
  show ?thesis
    using api_submit_then_get [OF mem.services_axioms r] r by (auto simp: demo_defs)
qed



text \<open>
  The health check (unauthenticated): 200 and \<open>ok\<close> exactly when both Redis and Postgres
  answer, 503 and \<open>degraded\<close> otherwise, each check reported on its own; it never fails
  itself, whichever of the two connections is down.
\<close>

theorem health_reports_both:
  assumes "services svc out"
  shows "run (losing (\<lambda>c. (redis_down \<and> c = Redis PING) \<or> (pg_down \<and> c = Pg SELECT_1)) svc) health s =
    (Inr (send (if redis_down \<or> pg_down then 503 else 200)
       (BHealth (if redis_down \<or> pg_down then ''degraded'' else ''ok'') True (\<not> redis_down) (\<not> pg_down))), s)"
  using services.laws [OF assms]
  by (simp add: health_def prog_run losing_def Let_def)

theorem health_reports_both_witness:
  "run (losing (\<lambda>c. (True \<and> c = Redis PING) \<or> (False \<and> c = Pg SELECT_1)) mem_svc) health empty_store =
     (Inr (send 503 (BHealth ''degraded'' True False True)), empty_store)"
  by (subst health_reports_both [OF mem.services_axioms]) simp

text \<open>
  A recurring definition over HTTP: after \<open>POST /schedules\<close> has answered 201 the listing
  shows the definition of the answer once more than before; \<open>PATCH\<close> with a boolean answers 200
  with that definition switched and nothing else but its time of update changed; \<open>DELETE\<close>
  answers 204 and the listing is again what it was before the submission, and a second
  \<open>DELETE\<close> answers 404.
\<close>

theorem api_schedule_lifecycle:
  assumes "services svc out" and "sched_id ` set (scheduled_jobs s) \<subseteq> set (issued s)"
    and "run svc (post_schedules rq) s = (Inr (send 201 (BSchedule v)), s1)"
  shows "\<exists>all s2. run svc get_schedules s1 = (Inr (send 200 (BSchedules all)), s1) \<and>
    mset all = add_mset v (image_mset serialize_sched (mset (scheduled_jobs s))) \<and>
    fst (run svc (patch_schedule (sv_id v) (Some (JObj [(''enabled'', JBool b)]))) s1) =
      Inr (send 200 (BSchedule (patched b (clock s1) v))) \<and>
    run svc (delete_schedule_route (sv_id v)) s1 = (Inr (send 204 BEmpty), s2) \<and>
    scheduled_jobs s2 = scheduled_jobs s \<and>
    run svc (delete_schedule_route (sv_id v)) s2 = (Inr not_found, s2)"
proof -
  obtain row where row: "scheduled_jobs s1 = scheduled_jobs s @ [row]" "v = serialize_sched row"
    and new: "sched_id row \<notin> sched_id ` set (scheduled_jobs s)"
    using services.post_schedule_row [OF assms(1,3,2)] by blast
  obtain rows where get: "run svc get_schedules s1 = (Inr (send 200 (BSchedules (map serialize_sched rows))), s1)"
    and rows: "mset rows = mset (scheduled_jobs s1)"
    using services.run_get_schedules [OF assms(1)] by blast
  have id: "sv_id v = sched_id row" by (simp add: row(2) serialize_sched_def)
  have other: "sched_id r \<noteq> sched_id row" if "r \<in> set (scheduled_jobs s)" for r
    using new imageI [OF that, of sched_id] by auto
  have none: "filter (\<lambda>r. sched_id r = sched_id row) (scheduled_jobs s) = []"
    using other by (simp add: filter_empty_conv)
  have rest: "filter (\<lambda>r. sched_id r \<noteq> sched_id row) (scheduled_jobs s) = scheduled_jobs s"
    using other by (simp add: filter_id_conv)
  have upd: "update_scheds (sched_id row) n f (scheduled_jobs s) = scheduled_jobs s" for n f
    unfolding update_scheds_def using other by (intro map_idI) simp
  have patch: "fst (run svc (patch_schedule (sv_id v) (Some (JObj [(''enabled'', JBool b)]))) s1) =
      Inr (send 200 (BSchedule (patched b (clock s1) v)))"
    using row id none upd services.laws [OF assms(1)]
    by (simp add: patch_schedule_def patch_body prog_run Let_def first_sched_def update_scheds_def
        patched_def serialize_sched_def)
  note laws = services.laws [OF assms(1)]
  have del: "run svc (delete_schedule_route (sv_id v)) s1 =
      (Inr (send 204 BEmpty), s1\<lparr>scheduled_jobs := scheduled_jobs s\<rparr>)"
    using row(1) id none rest by (simp add: delete_schedule_route_def prog_run laws)
  have again: "run svc (delete_schedule_route (sv_id v)) (s1\<lparr>scheduled_jobs := scheduled_jobs s\<rparr>) =
      (Inr not_found, s1\<lparr>scheduled_jobs := scheduled_jobs s\<rparr>)"
    using id none rest by (simp add: delete_schedule_route_def prog_run laws)
  have all: "mset (map serialize_sched rows) = add_mset v (image_mset serialize_sched (mset (scheduled_jobs s)))"
    using rows row by simp
  show ?thesis
    by (rule exI [of _ "map serialize_sched rows"], rule exI [of _ "s1\<lparr>scheduled_jobs := scheduled_jobs s\<rparr>"])
      (intro conjI get all patch del again, simp)
qed

theorem api_schedule_lifecycle_witness:
  "\<exists>v s1. run mem_svc (post_schedules \<lparr>sr_type = ''noop'', sr_cronExpression = ''* * * * *'',
        sr_payloadTemplate = None, sr_priority = None, sr_maxRetries = None, sr_enabled = None\<rparr>)
       empty_store = (Inr (send 201 (BSchedule v)), s1) \<and>
     fst (run mem_svc (patch_schedule (sv_id v) (Some (JObj [(''enabled'', JBool False)]))) s1) =
       Inr (send 200 (BSchedule (patched False (clock s1) v)))"
proof -
  let ?rq = "\<lparr>sr_type = ''noop'', sr_cronExpression = ''* * * * *'', sr_payloadTemplate = None,
    sr_priority = None, sr_maxRetries = None, sr_enabled = None\<rparr>"
  obtain v s1 where r: "run mem_svc (post_schedules ?rq) empty_store = (Inr (send 201 (BSchedule v)), s1)"
    by (simp add: post_schedules_def prog_run Let_def first_sched_def new_sched_row_def job_priority_def)
  show ?thesis
    using api_schedule_lifecycle [OF mem.services_axioms _ r, of False] r by (auto simp: empty_store_def)
qed

end
