(* ===== verification/Invariant.thy ===== *)
theory Invariant
  imports Worker Scheduler Routes
begin

text \<open>
  What holds of the shared state whatever the processes do, which commands keep it, and the
  rules by which a program is shown to issue only such commands among all the others. Postgres
  is written before Redis everywhere, so what Redis holds always refers to stored rows and
  agrees with them.
\<close>

section \<open>The invariant\<close>

definition known :: "store \<Rightarrow> string \<Rightarrow> bool" where
  "known s i \<longleftrightarrow> i \<in> job_id ` set (jobs s)"

text \<open>What no update of a row changes, and an envelope that agrees with a row on it.\<close>

definition same_identity :: "job_row \<Rightarrow> job_row \<Rightarrow> bool" where
  "same_identity r r' \<longleftrightarrow> job_id r' = job_id r \<and> job_type r' = job_type r \<and>
     payload r' = payload r \<and> priority r' = priority r \<and> max_retries r' = max_retries r \<and>
     idempotency_key r' = idempotency_key r \<and> created_at r' = created_at r"

definition agrees :: "envelope \<Rightarrow> job_row \<Rightarrow> bool" where
  "agrees e r \<longleftrightarrow> env_id e = job_id r \<and> env_type e = job_type r \<and> env_payload e = payload r \<and>
     env_priority e = priority r \<and> env_maxRetries e = max_retries r"

definition described :: "store \<Rightarrow> envelope \<Rightarrow> string \<Rightarrow> bool" where
  "described s e i \<longleftrightarrow> (\<exists>r. get_row i (jobs s) = Some r \<and> agrees e r)"

definition reserved :: "store \<Rightarrow> string \<Rightarrow> string \<Rightarrow> bool" where
  "reserved s k i \<longleftrightarrow> (\<exists>r. get_row i (jobs s) = Some r \<and> idempotency_key r = Some k)"

text \<open>No two rows hold the same idempotency key: the partial unique index.\<close>

definition keys_unique :: "job_row list \<Rightarrow> bool" where
  "keys_unique js \<longleftrightarrow> (\<forall>k. \<forall>r \<in> set js. \<forall>r' \<in> set js. idempotency_key r = Some k \<longrightarrow>
     idempotency_key r' = Some k \<longrightarrow> job_id r = job_id r')"

definition rows_ok :: "store \<Rightarrow> bool" where
  "rows_ok s \<longleftrightarrow> distinct (map job_id (jobs s)) \<and> '''' \<notin> job_id ` set (jobs s) \<and>
     job_id ` set (jobs s) \<subseteq> set (issued s) \<and> priority ` set (jobs s) \<subseteq> set PRIORITIES \<and>
     ev_job ` set (job_events s) \<subseteq> job_id ` set (jobs s) \<and> keys_unique (jobs s)"

definition redis_ok :: "store \<Rightarrow> bool" where
  "redis_ok s \<longleftrightarrow> (\<forall>k. \<forall>i \<in> set (lists s k). known s i) \<and>
     (\<forall>k. zset_wf (zsets s k) \<and> (\<forall>i \<in> zmembers (zsets s k). known s i)) \<and>
     (\<forall>i v. hashes s JOB_DATA_KEY i = Some v \<longrightarrow> (\<exists>e. v = VEnv e \<and> described s e i)) \<and>
     (\<forall>i v. hashes s HEARTBEATS_KEY i = Some v \<longrightarrow> known s i \<and> (\<exists>t. v = VTime t)) \<and>
     (\<forall>k i t. strs s (idempotencyKey k) = Some (i, t) \<longrightarrow> reserved s k i)"

definition sys_inv :: "store \<Rightarrow> bool" where
  "sys_inv s \<longleftrightarrow> rows_ok s \<and> redis_ok s"

text \<open>What every process may do to the others: rows stay and keep their identity.\<close>

definition kept_rows :: "store \<Rightarrow> store \<Rightarrow> bool" where
  "kept_rows s t \<longleftrightarrow> (\<forall>i r. get_row i (jobs s) = Some r \<longrightarrow>
     (\<exists>r'. get_row i (jobs t) = Some r' \<and> same_identity r r'))"

definition sys_rely :: "store \<Rightarrow> store \<Rightarrow> bool" where
  "sys_rely s t \<longleftrightarrow> (sys_inv s \<longrightarrow> sys_inv t) \<and> set (issued s) \<subseteq> set (issued t) \<and> kept_rows s t"

lemma same_identity_refl [simp]: "same_identity r r"
  by (simp add: same_identity_def)

lemma same_identity_assign: "same_identity r (assign_row n a r)"
  by (cases a) (auto simp: same_identity_def split: option.split)

lemma same_identity_trans: "same_identity a b \<Longrightarrow> same_identity b c \<Longrightarrow> same_identity a c"
  by (simp add: same_identity_def)

lemma same_identity_assign_all: "same_identity r (assign_all n asg r)"
proof (induction asg arbitrary: r)
  case (Cons a asg)
  show ?case
    unfolding assign_all_simps by (rule same_identity_trans [OF same_identity_assign Cons.IH])
qed (simp add: same_identity_def)

lemma agrees_identity: "agrees e r \<Longrightarrow> same_identity r r' \<Longrightarrow> agrees e r'"
  by (simp add: agrees_def same_identity_def)

lemma kept_rows_refl: "kept_rows s s"
  by (simp add: kept_rows_def)

lemma kept_rows_trans: "kept_rows s t \<Longrightarrow> kept_rows t u \<Longrightarrow> kept_rows s u"
  unfolding kept_rows_def using same_identity_trans by meson

lemma sys_rely_refl: "reflp sys_rely"
  by (simp add: reflp_def sys_rely_def kept_rows_refl)

lemma sys_rely_trans: "transp sys_rely"
  unfolding transp_def sys_rely_def using kept_rows_trans by blast

lemma kept_known: "kept_rows s t \<Longrightarrow> known s i \<Longrightarrow> known t i"
  unfolding known_def ids_get_row kept_rows_def by blast

lemma kept_described: "kept_rows s t \<Longrightarrow> described s e i \<Longrightarrow> described t e i"
  unfolding described_def kept_rows_def using agrees_identity by blast

lemma kept_reserved: "kept_rows s t \<Longrightarrow> reserved s k i \<Longrightarrow> reserved t k i"
  unfolding reserved_def kept_rows_def same_identity_def by metis

lemma rely_kept: "sys_rely s t \<Longrightarrow> kept_rows s t"
  by (simp add: sys_rely_def)

lemmas rely_known = kept_known [OF rely_kept]
lemmas rely_described = kept_described [OF rely_kept]
lemmas rely_reserved = kept_reserved [OF rely_kept]

lemma described_known: "described s e i \<Longrightarrow> known s i"
  by (auto simp: described_def known_def dest: get_row_in_ids)

lemma reserved_known: "reserved s k i \<Longrightarrow> known s i"
  by (auto simp: reserved_def known_def dest: get_row_in_ids)

lemma stable_known [simp]:
  "stable sys_rely (\<lambda>s. known s i)" "stable sys_rely (\<lambda>s. described s e i)"
  "stable sys_rely (\<lambda>s. reserved s k i)" "stable sys_rely (\<lambda>s. i \<in> set (issued s))"
  "stable sys_rely sys_inv"
  using rely_known rely_described rely_reserved by (auto simp: stable_def sys_rely_def)

section \<open>Which commands keep it\<close>

text \<open>
  What a process has to know before it issues a command. It never becomes false through the
  others.
\<close>

fun legal :: "cmd \<Rightarrow> store \<Rightarrow> bool" where
  "legal (Redis (SET_EX k i n)) s = (\<exists>x. k = idempotencyKey x \<and> reserved s x i)"
| "legal (Redis (SET_NX_PX k v n)) s = (\<forall>x. k \<noteq> idempotencyKey x)"
| "legal (Redis (HSET h f v)) s =
     ((h = JOB_DATA_KEY \<and> (\<exists>e. v = VEnv e \<and> described s e f)) \<or>
      (h = HEARTBEATS_KEY \<and> known s f \<and> (\<exists>t. v = VTime t)))"
| "legal (Redis (ZADD k n i)) s = known s i"
| "legal (Redis (LPUSH k i)) s = known s i"
| "legal (Redis (EVAL f)) s = (\<forall>t. sys_rely t (snd (f t)))"
| "legal (Pg (INSERT_JOB r)) s = (job_id r \<noteq> '''' \<and> job_id r \<in> set (issued s))"
| "legal _ s = True"

text \<open>A change of Redis alone.\<close>

lemma rows_ok_same:
  assumes "jobs t = jobs s" and "job_events t = job_events s" and "set (issued s) \<subseteq> set (issued t)"
    and "rows_ok s"
  shows "rows_ok t"
  using assms(3,4) unfolding rows_ok_def assms(1,2) by blast

lemma redis_ok_parts:
  assumes "redis_ok s"
  shows "i \<in> set (lists s k) \<Longrightarrow> known s i" and "i \<in> zmembers (zsets s k) \<Longrightarrow> known s i"
    and "zset_wf (zsets s k)"
    and "hashes s JOB_DATA_KEY i = Some v \<Longrightarrow> \<exists>e. v = VEnv e \<and> described s e i"
    and "hashes s HEARTBEATS_KEY i = Some v \<Longrightarrow> known s i \<and> (\<exists>t. v = VTime t)"
    and "strs s (idempotencyKey x) = Some (i, t) \<Longrightarrow> reserved s x i"
  using assms by (simp_all add: redis_ok_def)

lemma redis_ok_kept:
  assumes "kept_rows s t" and "lists t = lists s" and "zsets t = zsets s" and "hashes t = hashes s"
    and "\<And>k. strs t (idempotencyKey k) = strs s (idempotencyKey k)" and "redis_ok s"
  shows "redis_ok t"
  unfolding redis_ok_def assms(2-5)
proof (intro conjI allI ballI impI)
  note parts = redis_ok_parts [OF assms(6)]
  show "known t i" if "i \<in> set (lists s k)" for i k by (rule kept_known [OF assms(1) parts(1) [OF that]])
  show "known t i" if "i \<in> zmembers (zsets s k)" for i k by (rule kept_known [OF assms(1) parts(2) [OF that]])
  show "zset_wf (zsets s k)" for k by (rule parts(3))
  show "\<exists>e. v = VEnv e \<and> described t e i" if "hashes s JOB_DATA_KEY i = Some v" for i v
    using parts(4) [OF that] kept_described [OF assms(1)] by blast
  show "known t i" and "\<exists>x. v = VTime x" if "hashes s HEARTBEATS_KEY i = Some v" for i v
    using parts(5) [OF that] kept_known [OF assms(1)] by blast+
  show "reserved t k i" if "strs s (idempotencyKey k) = Some (i, x)" for k i x
    by (rule kept_reserved [OF assms(1) parts(6) [OF that]])
qed

lemma kept_rows_same: "jobs t = jobs s \<Longrightarrow> kept_rows s t"
  by (simp add: kept_rows_def)

lemma rely_kept_rows:
  assumes "jobs t = jobs s" and "set (issued s) \<subseteq> set (issued t)" and "sys_inv s \<Longrightarrow> sys_inv t"
  shows "sys_rely s t"
  using assms kept_rows_same unfolding sys_rely_def by auto

lemma rely_redis:
  assumes "jobs t = jobs s" and "job_events t = job_events s" and "issued t = issued s"
    and "redis_ok s \<Longrightarrow> redis_ok t"
  shows "sys_rely s t"
  by (rule rely_kept_rows) (use assms rows_ok_same [OF assms(1,2)] in \<open>auto simp: sys_inv_def\<close>)

lemma rely_other:
  assumes "jobs t = jobs s" and "job_events t = job_events s" and "set (issued s) \<subseteq> set (issued t)"
    and "lists t = lists s" and "zsets t = zsets s" and "hashes t = hashes s"
    and "\<And>k. strs t (idempotencyKey k) = strs s (idempotencyKey k)"
  shows "sys_rely s t"
  by (rule rely_kept_rows)
    (use assms(1,3) rows_ok_same [OF assms(1-3)] redis_ok_kept [OF kept_rows_same [OF assms(1)] assms(4-7)]
      in \<open>simp_all add: sys_inv_def\<close>)

lemma redis_ok_lists:
  "redis_ok s \<Longrightarrow> \<forall>k. \<forall>i \<in> set (ls k). known s i \<Longrightarrow> redis_ok (s\<lparr>lists := ls\<rparr>)"
  by (simp add: redis_ok_def known_def described_def reserved_def)

lemma redis_ok_zsets:
  "redis_ok s \<Longrightarrow> \<forall>k. zset_wf (zs k) \<and> (\<forall>i \<in> zmembers (zs k). known s i) \<Longrightarrow> redis_ok (s\<lparr>zsets := zs\<rparr>)"
  by (simp add: redis_ok_def known_def described_def reserved_def)

lemma redis_ok_hashes:
  "redis_ok s \<Longrightarrow> \<forall>i v. hs JOB_DATA_KEY i = Some v \<longrightarrow> (\<exists>e. v = VEnv e \<and> described s e i) \<Longrightarrow>
    \<forall>i v. hs HEARTBEATS_KEY i = Some v \<longrightarrow> known s i \<and> (\<exists>t. v = VTime t) \<Longrightarrow>
    redis_ok (s\<lparr>hashes := hs\<rparr>)"
  by (simp add: redis_ok_def known_def described_def reserved_def)

lemma redis_ok_strs:
  "redis_ok s \<Longrightarrow> \<forall>k i t. ss (idempotencyKey k) = Some (i, t) \<longrightarrow> reserved s k i \<Longrightarrow>
    redis_ok (s\<lparr>strs := ss\<rparr>)"
  by (simp add: redis_ok_def known_def described_def reserved_def)

lemma pop_subset: "pop_side a xs = Some (x, ys) \<Longrightarrow> x \<in> set xs \<and> set ys \<subseteq> set xs"
  by (cases xs; cases a) (auto dest: in_set_butlastD split: if_splits)

lemma push_subset [simp]: "set (push_side a x xs) = insert x (set xs)"
  by (cases a) auto

lemma rely_move: "sys_rely s (snd (move a b x y s))"
proof (rule rely_redis)
  assume ok: "redis_ok s"
  show "redis_ok (snd (move a b x y s))"
  proof (cases "pop_side x (lists s a)")
    case (Some p)
    then obtain v ys where p: "pop_side x (lists s a) = Some (v, ys)" by (cases p) auto
    show ?thesis
      unfolding move_def Let_def p option.case prod.case snd_conv
      by (rule redis_ok_lists [OF ok]) (use redis_ok_parts(1) [OF ok] pop_subset [OF p] in auto)
  qed (simp add: move_def ok)
qed (auto simp: move_def Let_def split: option.split)

lemma data_heartbeats [simp]: "JOB_DATA_KEY \<noteq> HEARTBEATS_KEY" "HEARTBEATS_KEY \<noteq> JOB_DATA_KEY"
  by (simp_all add: JOB_DATA_KEY_def HEARTBEATS_KEY_def)

text \<open>A new row: its identifier and its key are unused, or Postgres refuses it.\<close>

lemma insert_error_None:
  "insert_job_error js r = None \<Longrightarrow> priority r \<in> set PRIORITIES \<and> job_id r \<notin> job_id ` set js \<and>
    (idempotency_key r = None \<or> idempotency_key r \<notin> idempotency_key ` set js)"
  by (auto simp: insert_job_error_def job_priority_def PRIORITIES_def split: if_splits)

lemma keys_unique_snoc:
  assumes "keys_unique js" and "idempotency_key r = None \<or> idempotency_key r \<notin> idempotency_key ` set js"
  shows "keys_unique (js @ [r])"
  unfolding keys_unique_def set_append list.set Un_insert_right Un_empty_right
proof (intro allI ballI impI)
  fix k x y assume x: "x \<in> insert r (set js)" "idempotency_key x = Some k"
    and y: "y \<in> insert r (set js)" "idempotency_key y = Some k"
  have "idempotency_key z \<noteq> Some k" if "z \<in> set js" "idempotency_key r = Some k" for z
    using assms(2) that by force
  then have "x = y \<or> x \<in> set js \<and> y \<in> set js" using x y by blast
  then show "job_id x = job_id y"
    using assms(1) x(2) y(2) unfolding keys_unique_def by blast
qed

lemma rows_ok_insert:
  assumes "rows_ok s" and "insert_job_error (jobs s) r = None" and "job_id r \<noteq> ''''"
    and "job_id r \<in> set (issued s)"
  shows "rows_ok (s\<lparr>jobs := jobs s @ [r]\<rparr>)"
  using assms insert_error_None [OF assms(2)] keys_unique_snoc [of "jobs s" r]
  by (simp add: rows_ok_def subset_insertI2)

lemma rely_insert_job:
  assumes "insert_job_error (jobs s) r = None" and "job_id r \<noteq> ''''" and "job_id r \<in> set (issued s)"
  shows "sys_rely s (s\<lparr>jobs := jobs s @ [r]\<rparr>)"
proof -
  let ?t = "s\<lparr>jobs := jobs s @ [r]\<rparr>"
  have k: "kept_rows s ?t" by (simp add: kept_rows_def)
  then show ?thesis
    using rows_ok_insert [OF _ assms] redis_ok_kept [OF k] by (simp add: sys_rely_def sys_inv_def)
qed

text \<open>An update keeps every row's identity.\<close>

lemma assigned_fields:
  "priority (assign_all n asg r) = priority r"
  "idempotency_key (assign_all n asg r) = idempotency_key r"
  using same_identity_assign_all [of r n asg] by (simp_all add: same_identity_def)

lemma assigned_rows:
  "priority ` set (update_rows i (assign_all n asg) js) = priority ` set js"
  "keys_unique js \<Longrightarrow> keys_unique (update_rows i (assign_all n asg) js)"
proof -
  show "priority ` set (update_rows i (assign_all n asg) js) = priority ` set js"
    by (induction js) (auto simp: assigned_fields)
  assume k: "keys_unique js"
  have "\<exists>y \<in> set js. idempotency_key x = idempotency_key y \<and> job_id x = job_id y"
    if "x \<in> set (update_rows i (assign_all n asg) js)" for x
    using that unfolding update_rows_def by (auto simp: assigned_fields split: if_splits)
  then show "keys_unique (update_rows i (assign_all n asg) js)"
    using k unfolding keys_unique_def by metis
qed

lemma rely_update_job: "sys_rely s (s\<lparr>jobs := update_rows i (assign_all n asg) (jobs s)\<rparr>)"
proof -
  let ?t = "s\<lparr>jobs := update_rows i (assign_all n asg) (jobs s)\<rparr>"
  have k: "kept_rows s ?t" using same_identity_assign_all by (auto simp: kept_rows_def)
  have "rows_ok s \<Longrightarrow> rows_ok ?t" by (simp add: rows_ok_def assigned_rows)
  then show ?thesis using k redis_ok_kept [OF k] by (simp add: sys_rely_def sys_inv_def)
qed

lemma rely_reflexive [simp]: "sys_rely s s"
  using reflpD [OF sys_rely_refl] .

lemma redis_ok_hset:
  assumes "redis_ok s" and "(h = JOB_DATA_KEY \<and> (\<exists>e. v = VEnv e \<and> described s e f)) \<or>
      (h = HEARTBEATS_KEY \<and> known s f \<and> (\<exists>t. v = VTime t))"
  shows "redis_ok (s\<lparr>hashes := (hashes s)(h := (hashes s h)(f \<mapsto> v))\<rparr>)"
  by (rule redis_ok_hashes [OF assms(1)])
    (use assms(2) redis_ok_parts(4,5) [OF assms(1)] in \<open>auto split: if_splits\<close>)

lemma redis_ok_hdel:
  assumes "redis_ok s"
  shows "redis_ok (s\<lparr>hashes := (hashes s)(h := (hashes s h)(f := None))\<rparr>)"
  by (rule redis_ok_hashes [OF assms])
    (use redis_ok_parts(4,5) [OF assms] in \<open>auto split: if_splits\<close>)

lemma redis_ok_zset:
  assumes "redis_ok s" and "zset_wf z" and "\<forall>i \<in> zmembers z. known s i"
  shows "redis_ok (s\<lparr>zsets := (zsets s)(k := z)\<rparr>)"
  by (rule redis_ok_zsets [OF assms(1)])
    (use assms(2,3) redis_ok_parts(2,3) [OF assms(1)] in \<open>auto split: if_splits\<close>)

lemma redis_ok_list:
  assumes "redis_ok s" and "\<forall>i \<in> set xs. known s i"
  shows "redis_ok (s\<lparr>lists := (lists s)(k := xs)\<rparr>)"
  by (rule redis_ok_lists [OF assms(1)])
    (use assms(2) redis_ok_parts(1) [OF assms(1)] in \<open>auto split: if_splits\<close>)

context services begin

text \<open>Commands of Redis that may write what the invariant speaks of.\<close>

lemma legal_redis: "legal (Redis c) s \<Longrightarrow> sys_rely s (snd (svc (Redis c) s))"
proof (cases c)
  case (SET_EX k i n)
  assume "legal (Redis c) s"
  then show ?thesis
    unfolding SET_EX by (intro rely_redis) (auto simp: laws intro!: redis_ok_strs dest: redis_ok_parts(6) split: if_splits)
next
  case (SET_NX_PX k v n)
  assume "legal (Redis c) s"
  then show ?thesis unfolding SET_NX_PX by (intro rely_other) (auto simp: laws)
next
  case (HSET h f v)
  assume "legal (Redis c) s"
  then show ?thesis unfolding HSET by (intro rely_redis) (auto simp: laws intro: redis_ok_hset)
next
  case (HDEL h f)
  then show ?thesis by (intro rely_redis) (auto simp: laws intro: redis_ok_hdel)
next
  case (ZADD k n i)
  assume "legal (Redis c) s"
  then show ?thesis
    unfolding ZADD by (intro rely_redis)
      (auto simp: laws intro!: redis_ok_zset intro: redis_ok_parts(2,3))
next
  case (ZREM k i)
  then show ?thesis
    by (intro rely_redis) (auto simp: laws intro!: redis_ok_zset intro: redis_ok_parts(2,3))
next
  case (LPUSH k i)
  assume "legal (Redis c) s"
  then show ?thesis
    unfolding LPUSH by (intro rely_redis) (auto simp: laws intro!: redis_ok_list intro: redis_ok_parts(1))
next
  case (LREM k i)
  then show ?thesis
    by (intro rely_redis) (auto simp: laws intro!: redis_ok_list intro: redis_ok_parts(1))
next
  case (LMOVE a b x y)
  then show ?thesis by (simp add: laws rely_move)
next
  case (BLMOVE a b x y n)
  then show ?thesis by (simp add: laws rely_move)
next
  case (EVAL f)
  assume "legal (Redis c) s"
  then show ?thesis unfolding EVAL by (simp add: laws)
qed (intro rely_other; auto simp: laws)+

lemma legal_pg: "legal (Pg q) s \<Longrightarrow> sys_rely s (snd (svc (Pg q) s))"
proof (cases q)
  case (INSERT_JOB r)
  assume "legal (Pg q) s"
  then show ?thesis
    unfolding INSERT_JOB by (auto simp: laws intro: rely_insert_job split: option.split)
next
  case (UPDATE_JOB asg i)
  then show ?thesis by (simp add: laws rely_update_job)
next
  case (INSERT_EVENT i st m)
  then show ?thesis
    by (auto simp: laws sys_inv_def rows_ok_def intro!: rely_kept_rows redis_ok_kept
        [OF kept_rows_same, of "s\<lparr>job_events := x\<rparr>" s for x])
qed (intro rely_other; auto simp: laws Let_def split: option.split)+

lemma legal_rely: "legal c s \<Longrightarrow> sys_rely s (snd (svc c s))"
  by (cases c) (auto simp: legal_redis legal_pg laws intro: rely_other)

end

section \<open>Programs that keep it\<close>

text \<open>
  \<open>ok svc Q p s\<close>: run from \<open>s\<close> among the others, \<open>p\<close> issues only legal commands, and if it
  returns, \<open>Q\<close> holds. The rules below follow the text of a program; what is known before a
  command is still known after it.
\<close>

definition ok :: "service \<Rightarrow> ('a \<Rightarrow> store \<Rightarrow> bool) \<Rightarrow> 'a prog \<Rightarrow> store \<Rightarrow> bool" where
  "ok svc Q p s = safe svc sys_rely sys_rely sys_inv Q (\<lambda>_ _. True) p s"

definition legal_all :: "store \<Rightarrow> cmd \<Rightarrow> bool" where
  "legal_all s c \<longleftrightarrow> (\<forall>t. sys_rely s t \<longrightarrow> sys_inv t \<longrightarrow> legal c t)"

lemma rely_transitive: "sys_rely s t \<Longrightarrow> sys_rely t u \<Longrightarrow> sys_rely s u"
  using sys_rely_trans by (blast dest: transpD)

lemma rely_inv: "sys_rely s t \<Longrightarrow> sys_inv s \<Longrightarrow> sys_inv t"
  by (simp add: sys_rely_def)

lemma rely_issued: "sys_rely s t \<Longrightarrow> i \<in> set (issued s) \<Longrightarrow> i \<in> set (issued t)"
  by (auto simp: sys_rely_def)

lemma legal_all_later: "legal_all s c \<Longrightarrow> sys_rely s t \<Longrightarrow> legal_all t c"
  unfolding legal_all_def using rely_transitive by blast

text \<open>What was true of the others' past stays true: assertions may speak of it.\<close>

lemma ok_past:
  assumes "safe svc sys_rely sys_rely sys_inv Q X p s" and "sys_rely s0 s"
  shows "safe svc sys_rely sys_rely sys_inv (\<lambda>a t. Q a t \<and> sys_rely s0 t \<and> sys_inv t)
    (\<lambda>e t. X e t \<and> sys_rely s0 t \<and> sys_inv t) p s"
  using assms
proof (induction p arbitrary: s)
  case (Ret a)
  then show ?case using rely_transitive by auto
next
  case (Throw e)
  then show ?case using rely_transitive by auto
next
  case (Await c k)
  show ?case unfolding safe.simps
  proof (intro allI impI)
    fix t assume t: "sys_rely s t"
    have p: "sys_rely s0 t" "sys_rely s0 (snd (svc c t))"
      using Await.prems t rely_transitive by auto
    then show "sys_inv t \<and> sys_rely t (snd (svc c t)) \<and>
      safe svc sys_rely sys_rely sys_inv (\<lambda>a t. Q a t \<and> sys_rely s0 t \<and> sys_inv t)
        (\<lambda>e t. X e t \<and> sys_rely s0 t \<and> sys_inv t) (k (fst (svc c t))) (snd (svc c t)) \<and>
      safe svc sys_rely sys_rely sys_inv (\<lambda>a t. Q a t \<and> sys_rely s0 t \<and> sys_inv t)
        (\<lambda>e t. X e t \<and> sys_rely s0 t \<and> sys_inv t) (k (Inl ConnLost)) t \<and>
      safe svc sys_rely sys_rely sys_inv (\<lambda>a t. Q a t \<and> sys_rely s0 t \<and> sys_inv t)
        (\<lambda>e t. X e t \<and> sys_rely s0 t \<and> sys_inv t) (k (Inl ConnLost)) (snd (svc c t))"
      using Await.prems(1) t Await.IH by auto
  qed
qed

lemma ok_Ret: "sys_inv s \<Longrightarrow> (\<And>t. sys_rely s t \<Longrightarrow> Q a t) \<Longrightarrow> ok svc Q (Ret a) s"
  by (auto simp: ok_def intro: rely_inv)

lemma ok_Ret_any [simp]: "sys_inv s \<Longrightarrow> ok svc (\<lambda>_ _. True) (Ret a) s"
  by (simp add: ok_Ret)

lemma ok_Throw [simp]: "sys_inv s \<Longrightarrow> ok svc Q (Throw e) s"
  by (auto simp: ok_def intro: rely_inv)

lemma ok_and_then:
  assumes "ok svc Q' p s" and "\<And>a t. sys_rely s t \<Longrightarrow> sys_inv t \<Longrightarrow> Q' a t \<Longrightarrow> ok svc Q (f a) t"
  shows "ok svc Q (and_then p f) s"
  unfolding ok_def
  by (rule safe_and_then [OF sys_rely_refl])
    (use safe_weaken [OF ok_past [OF assms(1) [unfolded ok_def] rely_reflexive]] assms(2)
      in \<open>auto simp: ok_def\<close>)

lemma ok_catch:
  assumes "ok svc Q p s" and "\<And>e t. sys_rely s t \<Longrightarrow> sys_inv t \<Longrightarrow> ok svc Q (h e) t"
  shows "ok svc Q (catch_err p h) s"
  unfolding ok_def
  by (rule safe_catch [OF sys_rely_refl])
    (use safe_weaken [OF ok_past [OF assms(1) [unfolded ok_def] rely_reflexive]] assms(2)
      in \<open>auto simp: ok_def\<close>)

lemma ok_sync: "sys_inv s \<Longrightarrow> (\<And>a. v = Inr a \<Longrightarrow> ok svc Q (k a) s) \<Longrightarrow> ok svc Q (sync_call v k) s"
  by (cases v) (auto intro: ok_Throw)

lemma ok_if: "(b \<Longrightarrow> ok svc Q p s) \<Longrightarrow> (\<not> b \<Longrightarrow> ok svc Q q s) \<Longrightarrow> ok svc Q (if b then p else q) s"
  by simp

lemma ok_weaken: "ok svc Q p s \<Longrightarrow> (\<And>a t. Q a t \<Longrightarrow> Q' a t) \<Longrightarrow> ok svc Q' p s"
  unfolding ok_def by (erule safe_weaken) auto

lemma all_commands_mono: "all_commands P p \<Longrightarrow> (\<And>c. P c \<Longrightarrow> P' c) \<Longrightarrow> all_commands P' p"
  by (induction p) auto

context services begin

lemma ok_await:
  assumes "sys_inv s" and "legal_all s c"
    and "\<And>t u r. sys_rely s t \<Longrightarrow> sys_inv t \<Longrightarrow> svc c t = (r, u) \<Longrightarrow> sys_rely s u \<Longrightarrow> sys_inv u \<Longrightarrow>
      ok svc Q (k r) u"
    and "\<And>u. sys_rely s u \<Longrightarrow> sys_inv u \<Longrightarrow> ok svc Q (k (Inl ConnLost)) u"
  shows "ok svc Q (Await c k) s"
  unfolding ok_def safe.simps
proof (intro allI impI)
  fix t assume t: "sys_rely s t"
  then have i: "sys_inv t" using assms(1) rely_inv by blast
  then have g: "sys_rely t (snd (svc c t))" using assms(2) t legal_rely by (simp add: legal_all_def)
  note u = rely_transitive [OF t g] rely_inv [OF g i]
  show "sys_inv t \<and> sys_rely t (snd (svc c t)) \<and>
      safe svc sys_rely sys_rely sys_inv Q (\<lambda>_ _. True) (k (fst (svc c t))) (snd (svc c t)) \<and>
      safe svc sys_rely sys_rely sys_inv Q (\<lambda>_ _. True) (k (Inl ConnLost)) t \<and>
      safe svc sys_rely sys_rely sys_inv Q (\<lambda>_ _. True) (k (Inl ConnLost)) (snd (svc c t))"
    using i g assms(3) [OF t i prod.collapse [symmetric] u] assms(4) [OF t i] assms(4) [OF u]
    by (simp add: ok_def)
qed

lemma ok_call:
  assumes "sys_inv s" and "legal_all s c"
    and "\<And>t u v. sys_rely s t \<Longrightarrow> sys_inv t \<Longrightarrow> svc c t = (Inr v, u) \<Longrightarrow> sys_rely s u \<Longrightarrow> sys_inv u \<Longrightarrow>
      ok svc Q (k v) u"
  shows "ok svc Q (call c k) s"
  unfolding call_def
  by (rule ok_await [OF assms(1,2)]) (auto intro: ok_Throw assms(3) split: sum.split)

lemma ok_step:
  assumes "sys_inv s" and "legal_all s c" and "\<And>u v. sys_rely s u \<Longrightarrow> sys_inv u \<Longrightarrow> ok svc Q (k v) u"
  shows "ok svc Q (call c k) s"
  by (rule ok_call [OF assms(1,2)]) (rule assms(3))

lemma ok_uniform:
  assumes "sys_inv s" and "all_commands (legal_all s) p"
  shows "ok svc (\<lambda>_ _. True) p s"
  using assms
proof (induction p arbitrary: s)
  case (Await c k)
  have later: "ok svc (\<lambda>_ _. True) (k r) u" if "sys_rely s u" "sys_inv u" for r u
    using Await.IH [of "k r" u] Await.prems(2) that all_commands_mono [of "legal_all s" "k r" "legal_all u"]
      legal_all_later by auto
  show ?case
    by (rule ok_await) (use Await.prems later in auto)
qed (auto intro: ok_Ret ok_Throw)

end

text \<open>Commands that are legal always, and those that need to know.\<close>

lemma legal_all_always [simp]:
  "legal_all s Now" "legal_all s NewUuid" "legal_all s Random" "legal_all s (Sleep n)"
  "legal_all s (Redis (GET k))" "legal_all s (Redis (HGET h f))" "legal_all s (Redis (HDEL h f))"
  "legal_all s (Redis (ZREM k i))" "legal_all s (Redis (ZRANGEBYSCORE k lo hi off cnt))"
  "legal_all s (Redis (ZCARD k))" "legal_all s (Redis (LREM k i))" "legal_all s (Redis (LMOVE a b x y))"
  "legal_all s (Redis (BLMOVE a b x y n))" "legal_all s (Redis (LRANGE_ALL k))"
  "legal_all s (Redis (LLEN k))" "legal_all s (Redis (SADD k v))" "legal_all s (Redis (SREM k v))"
  "legal_all s (Redis (SMEMBERS k))" "legal_all s (Redis (PUBLISH ch e))" "legal_all s (Redis PING)"
  "legal_all s (Pg (SELECT_JOB i))" "legal_all s (Pg (UPDATE_JOB asg i))"
  "legal_all s (Pg (INSERT_EVENT i st m))" "legal_all s (Pg (SELECT_EVENTS i))"
  "legal_all s (Pg (SELECT_JOBS cs l off ps))" "legal_all s (Pg (COUNT_JOBS cs ps))"
  "legal_all s (Pg COUNT_BY_STATUS)" "legal_all s (Pg (COUNT_COMPLETED_WITHIN n))"
  "legal_all s (Pg (COUNT_CREATED_WITHIN sts n))" "legal_all s (Pg SELECT_ENABLED_SCHEDULES)"
  "legal_all s (Pg SELECT_SCHEDULES)" "legal_all s (Pg (INSERT_SCHEDULE sr))"
  "legal_all s (Pg (UPDATE_SCHEDULE_ENABLED on i))" "legal_all s (Pg (UPDATE_SCHEDULE_LAST_RUN i n))"
  "legal_all s (Pg (DELETE_SCHEDULE i))" "legal_all s (Pg SELECT_1)"
  by (simp_all add: legal_all_def)

lemma legal_all_known [simp]:
  "known s i \<Longrightarrow> legal_all s (Redis (ZADD k n i))"
  "known s i \<Longrightarrow> legal_all s (Redis (LPUSH k i))"
  "known s i \<Longrightarrow> legal_all s (Redis (HSET HEARTBEATS_KEY i (VTime n)))"
  "described s e i \<Longrightarrow> legal_all s (Redis (HSET JOB_DATA_KEY i (VEnv e)))"
  "reserved s k i \<Longrightarrow> legal_all s (Redis (SET_EX (idempotencyKey k) i n))"
  "job_id r \<noteq> '''' \<Longrightarrow> job_id r \<in> set (issued s) \<Longrightarrow> legal_all s (Pg (INSERT_JOB r))"
  by (auto simp: legal_all_def rely_known rely_described rely_reserved rely_issued)

lemma rely_buckets: "sys_rely t (t\<lparr>buckets := b\<rparr>)"
  by (rule rely_other) auto

lemma legal_all_scripts [simp]:
  "legal_all s (Redis (SET_NX_PX SCHEDULER_LOCK_KEY v n))"
  "legal_all s (Redis (SET_NX_PX (reaperLockKey w) v n))"
  "legal_all s (Redis (EVAL (token_bucket_lua key cap rate now ttl)))"
  "legal_all s (Redis (EVAL (release_lock_lua SCHEDULER_LOCK_KEY v)))"
proof -
  have k: "SCHEDULER_LOCK_KEY \<noteq> idempotencyKey x" "reaperLockKey w \<noteq> idempotencyKey x"
    "idempotencyKey x \<noteq> SCHEDULER_LOCK_KEY" for x
    by (simp_all add: SCHEDULER_LOCK_KEY_def idempotencyKey_def reaperLockKey_def)
  then show "legal_all s (Redis (SET_NX_PX SCHEDULER_LOCK_KEY v n))"
    and "legal_all s (Redis (SET_NX_PX (reaperLockKey w) v n))"
    by (auto simp: legal_all_def)
  show "legal_all s (Redis (EVAL (token_bucket_lua key cap rate now ttl)))"
    by (simp add: legal_all_def token_bucket_lua_def Let_def rely_buckets)
  have "sys_rely t (snd (release_lock_lua SCHEDULER_LOCK_KEY v t))" for t
    by (rule rely_other) (auto simp: release_lock_lua_def k)
  then show "legal_all s (Redis (EVAL (release_lock_lua SCHEDULER_LOCK_KEY v)))"
    by (simp add: legal_all_def)
qed

section \<open>What replies tell\<close>

text \<open>The row \<open>r\<close> is stored under \<open>i\<close>, up to what updates may change.\<close>

definition stored_like :: "store \<Rightarrow> string \<Rightarrow> job_row \<Rightarrow> bool" where
  "stored_like s i r \<longleftrightarrow> (\<exists>r'. get_row i (jobs s) = Some r' \<and> same_identity r r')"

lemma rely_stored_like: "sys_rely s t \<Longrightarrow> stored_like s i r \<Longrightarrow> stored_like t i r"
  unfolding stored_like_def using rely_kept kept_rows_def same_identity_trans by meson

lemma stored_like_facts:
  assumes "stored_like s i r"
  shows "known s i" and "job_id r = i" and "agrees e r \<Longrightarrow> described s e i"
    and "idempotency_key r = Some k \<Longrightarrow> reserved s k i"
  using assms get_row_Some agrees_identity
  by (auto simp: stored_like_def known_def described_def reserved_def same_identity_def
      dest: get_row_in_ids get_row_Some intro: agrees_identity)

lemmas rely_facts = rely_known rely_described rely_reserved rely_stored_like rely_issued

context services begin

lemma ok_select_job:
  assumes "sys_inv s"
    and "\<And>u v. sys_rely s u \<Longrightarrow> sys_inv u \<Longrightarrow> (\<And>r. row0 v = Some r \<Longrightarrow> stored_like u i r) \<Longrightarrow> ok svc Q (k v) u"
  shows "ok svc Q (call (Pg (SELECT_JOB i)) k) s"
  by (rule ok_call [OF assms(1)])
    (use same_identity_refl in \<open>auto simp: laws stored_like_def intro!: assms(2)\<close>)

lemma ok_update_job:
  assumes "sys_inv s"
    and "\<And>u v. sys_rely s u \<Longrightarrow> sys_inv u \<Longrightarrow> (\<And>r. row0 v = Some r \<Longrightarrow> stored_like u i r) \<Longrightarrow> ok svc Q (k v) u"
  shows "ok svc Q (call (Pg (UPDATE_JOB asg i)) k) s"
  by (rule ok_call [OF assms(1)])
    (use same_identity_refl in \<open>auto simp: laws stored_like_def intro!: assms(2) split: if_splits\<close>)

lemma ok_insert_job:
  assumes "sys_inv s" and "job_id r \<noteq> ''''" and "job_id r \<in> set (issued s)"
    and "\<And>u v. sys_rely s u \<Longrightarrow> sys_inv u \<Longrightarrow> row0 v = Some r \<Longrightarrow> stored_like u (job_id r) r \<Longrightarrow> ok svc Q (k v) u"
  shows "ok svc Q (call (Pg (INSERT_JOB r)) k) s"
proof (rule ok_call [OF assms(1)])
  fix t u v assume "svc (Pg (INSERT_JOB r)) t = (Inr v, u)" and su: "sys_rely s u" "sys_inv u"
  then have none: "insert_job_error (jobs t) r = None" and u: "u = t\<lparr>jobs := jobs t @ [r]\<rparr>" and v: "v = RJobs [r]"
    by (auto simp: laws split: option.splits)
  have "get_row (job_id r) (jobs t) = None"
    using insert_error_None [OF none] by (simp add: get_row_None)
  then have "stored_like u (job_id r) r" by (simp add: u stored_like_def)
  then show "ok svc Q (k v) u" using su v by (intro assms(4)) auto
qed (simp add: assms(2,3))

lemma ok_hget_data:
  assumes "sys_inv s"
    and "\<And>u v. sys_rely s u \<Longrightarrow> sys_inv u \<Longrightarrow> (\<And>e. parse_envelope v = Some e \<Longrightarrow> described u e i) \<Longrightarrow> ok svc Q (k v) u"
  shows "ok svc Q (call (Redis (HGET JOB_DATA_KEY i)) k) s"
proof (rule ok_call [OF assms(1)])
  fix t u v assume "svc (Redis (HGET JOB_DATA_KEY i)) t = (Inr v, u)" and su: "sys_rely s u" "sys_inv u"
  then have u: "u = t" and v: "v = (case hashes t JOB_DATA_KEY i of None \<Rightarrow> RNil | Some x \<Rightarrow> RVal x)"
    by (auto simp: laws)
  have "described u e i" if "parse_envelope v = Some e" for e
    using that redis_ok_parts(4) [of u i] su(2) unfolding v u sys_inv_def
    by (cases "hashes t JOB_DATA_KEY i") auto
  then show "ok svc Q (k v) u" using su by (intro assms(2))
qed simp

lemma ok_uuid:
  assumes "sys_inv s"
    and "\<And>u v. sys_rely s u \<Longrightarrow> sys_inv u \<Longrightarrow> the_str v \<noteq> '''' \<Longrightarrow> the_str v \<in> set (issued u) \<Longrightarrow> ok svc Q (k v) u"
  shows "ok svc Q (call NewUuid k) s"
  by (rule ok_call [OF assms(1)]) (auto simp: laws uuid_nonempty intro!: assms(2))

lemma ok_moved:
  assumes "sys_inv s" and "c = LMOVE a b x y \<or> c = BLMOVE a b x y n"
    and "\<And>u v. sys_rely s u \<Longrightarrow> sys_inv u \<Longrightarrow> (the_str v \<noteq> '''' \<Longrightarrow> known u (the_str v)) \<Longrightarrow> ok svc Q (k v) u"
  shows "ok svc Q (call (Redis c) k) s"
proof (rule ok_call [OF assms(1)])
  show "legal_all s (Redis c)" using assms(2) by auto
  fix t u v assume t: "sys_inv t" "svc (Redis c) t = (Inr v, u)" and su: "sys_rely s u" "sys_inv u"
  then have v: "v = fst (move a b x y t)" and u: "u = snd (move a b x y t)"
    using assms(2) by (auto simp: laws)
  have "known t (the_str v)" if "the_str v \<noteq> ''''"
    using that redis_ok_parts(1) [of t] t(1) pop_subset [of x "lists t a"]
    unfolding v move_def Let_def sys_inv_def by (auto split: option.splits prod.splits)
  then show "ok svc Q (k v) u"
    using su rely_known [OF rely_move] unfolding u by (intro assms(3)) auto
qed

end

end
