(* ===== verification/System.thy ===== *)
theory System
  imports Invariant
begin

text \<open>
  The deployment: any number of API servers with their promoters, workers, reapers and
  schedulers over one Redis and one Postgres, interleaved command by command, with crashes and
  lost connections. Every program is shown to keep the invariant of \<open>Invariant\<close>, so that it
  holds in every reachable state.
\<close>

section \<open>The programs of the processes\<close>

context services begin


lemma ok_getJobById:
  "sys_inv s \<Longrightarrow> ok svc (\<lambda>f t. \<forall>r. f = Some r \<longrightarrow> stored_like t i r) (getJobById i) s"
  unfolding getJobById_def by (rule ok_select_job) (auto intro: ok_Ret dest: rely_stored_like)

lemmas ok_free = ok_and_then [OF ok_uniform]

lemma free_helpers [simp]:
  "all_commands (legal_all s) (logEvent i st m)" "all_commands (legal_all s) (publishEvent i st m)"
  "all_commands (legal_all s) (process_logEvent i st m)" "all_commands (legal_all s) (process_publish i st m)"
  "all_commands (legal_all s) (reaper_logEvent i st m)" "all_commands (legal_all s) (reaper_publish i st m)"
  "all_commands (legal_all s) (releaseJob w i)" "known s i \<Longrightarrow> all_commands (legal_all s) (heartbeat i)"
  "all_commands (legal_all s) (registerWorker w)" "all_commands (legal_all s) (deregisterWorker w)"
  by (simp_all add: logEvent_def publishEvent_def process_logEvent_def process_publish_def
      reaper_logEvent_def reaper_publish_def releaseJob_def heartbeat_def registerWorker_def deregisterWorker_def)

text \<open>Submission: the row comes first, everything else refers to it.\<close>

lemma toEnvelope_agrees: "agrees (toEnvelope r) r"
  by (simp add: agrees_def toEnvelope_def)

text \<open>Submission: the row comes first, everything else refers to it.\<close>

lemma ok_enqueue_new:
  assumes "sys_inv s"
  shows "ok svc (\<lambda>_ _. True) (enqueue_new cfg rq) s"
  unfolding enqueue_new_def Let_def
proof (rule ok_uuid [OF assms], rule ok_step, assumption, simp, rule ok_insert_job, assumption)
  fix s0 s1 s2 u t rows
  let ?r = "new_job_row cfg rq (the_str u) (the_int t)"
  assume "sys_rely s0 s1" and "the_str u \<in> set (issued s0)"
  then show "job_id ?r \<in> set (issued s1)" by (simp add: rely_issued)
qed (auto intro!: ok_uniform all_commands_and_then simp: stored_like_facts toEnvelope_agrees split: option.split)

lemma ok_enqueueJob: "sys_inv s \<Longrightarrow> ok svc (\<lambda>_ _. True) (enqueueJob cfg rq) s"
  by (auto simp: enqueueJob_def intro!: ok_step ok_and_then [OF ok_getJobById] ok_enqueue_new
      split: option.split)

lemma all_commands_option [simp]:
  "all_commands P (case v of None \<Rightarrow> p | Some x \<Rightarrow> f x) \<longleftrightarrow>
     (v = None \<longrightarrow> all_commands P p) \<and> (\<forall>x. v = Some x \<longrightarrow> all_commands P (f x))"
  by (cases v) auto

lemma ok_retryJob: "sys_inv s \<Longrightarrow> ok svc (\<lambda>_ _. True) (retryJob i) s"
  unfolding retryJob_def
  by (rule ok_and_then [OF ok_getJobById], assumption)
    (auto intro!: ok_update_job split: option.split,
     (rule ok_uniform; auto intro!: all_commands_and_then simp: stored_like_facts toEnvelope_agrees)+)

lemma ok_cancelJob: "sys_inv s \<Longrightarrow> ok svc (\<lambda>_ _. True) (cancelJob i) s"
  unfolding cancelJob_def getJobById_def
  by (rule ok_uniform) (auto intro!: all_commands_and_then split: option.split)

lemma ok_promote_each: "sys_inv s \<Longrightarrow> ok svc (\<lambda>_ _. True) (promote_each ids n) s"
proof (induction ids arbitrary: n s)
  case (Cons i ids)
  then show ?case
    by (auto simp: described_known intro!: ok_step ok_hget_data ok_free ok_sync
        split: reply.split rval.split)
qed simp

lemma ok_promoteDueDelayedJobs: "sys_inv s \<Longrightarrow> ok svc (\<lambda>_ _. True) (promoteDueDelayedJobs limit) s"
  by (auto simp: promoteDueDelayedJobs_def intro!: ok_step ok_promote_each)

text \<open>What a claim hands on: a stored job, and data that describe it.\<close>

definition claimed_ok :: "claimed \<Rightarrow> store \<Rightarrow> bool" where
  "claimed_ok c s \<longleftrightarrow> known s (cl_id c) \<and> (\<forall>e. cl_envelope c = Some e \<longrightarrow> described s e (cl_id c))"

lemma rely_claimed_ok: "sys_rely s t \<Longrightarrow> claimed_ok c s \<Longrightarrow> claimed_ok c t"
  by (auto simp: claimed_ok_def rely_facts)

lemma ok_claim_from:
  "sys_inv s \<Longrightarrow> ok svc (\<lambda>r t. \<forall>c. r = Some c \<longrightarrow> claimed_ok c t) (claim_from w n ps) s"
proof (induction ps arbitrary: s)
  case (Cons p ps)
  have hit: "ok svc (\<lambda>r t. \<forall>c. r = Some c \<longrightarrow> claimed_ok c t)
      (call Now (\<lambda>now. call (Redis (HSET HEARTBEATS_KEY i (VTime (the_int now)))) (\<lambda>_.
        call (Redis (HGET JOB_DATA_KEY i)) (\<lambda>raw.
        Ret (Some \<lparr>cl_id = i, cl_priority = p, cl_envelope = parse_envelope raw\<rparr>))))) u"
    if "sys_inv u" "known u i" for u i
    using that
    by (auto simp: claimed_ok_def intro!: ok_step ok_hget_data ok_Ret)
      (blast intro: legal_all_known rely_known rely_described)+
  show ?case
    using Cons
    by (auto simp: Let_def intro!: ok_sync ok_moved hit)
qed (simp add: ok_Ret)

lemma ok_claimNextJob:
  "sys_inv s \<Longrightarrow> ok svc (\<lambda>r t. \<forall>c. r = Some c \<longrightarrow> claimed_ok c t) (claimNextJob w n) s"
  by (simp add: claimNextJob_def ok_claim_from)

lemma agrees_attempt: "described s e i \<Longrightarrow> described s (e\<lparr>env_attempt := n\<rparr>) i"
  by (auto simp: described_def agrees_def)

lemma free_handleFailure: "claimed_ok c s \<Longrightarrow> all_commands (legal_all s) (handleFailure w c cfg err)"
  by (auto simp: handleFailure_def Let_def claimed_ok_def agrees_attempt
      intro!: all_commands_and_then split: option.split)

lemma free_call_handler: "all_commands (legal_all s) (call_handler h pl n)"
  by (cases h) (auto simp: noop_def sendEmail_def Let_def)

lemma free_withTimeout: "all_commands (legal_all s) p \<Longrightarrow> all_commands (legal_all s) (withTimeout p l ms)"
  by (induction p arbitrary: ms) (auto split: cmd.split)

lemma ok_processJob:
  assumes "sys_inv s" and "claimed_ok c s"
  shows "ok svc (\<lambda>_ _. True) (processJob w c cfg) s"
  unfolding processJob_def
proof (rule ok_catch)
  show "ok svc (\<lambda>_ _. True) (execute_job w c cfg) s"
    unfolding execute_job_def Let_def
    by (rule ok_uniform [OF assms(1)])
      (auto intro!: all_commands_and_then free_withTimeout free_call_handler)
  fix e t assume "sys_rely s t" "sys_inv t"
  then show "ok svc (\<lambda>_ _. True) (handleFailure w c cfg e) t"
    using rely_claimed_ok assms(2) by (blast intro: ok_uniform free_handleFailure)
qed

lemma ok_lane_turn: "sys_inv s \<Longrightarrow> ok svc (\<lambda>_ _. True) (lane_turn w cfg) s"
  unfolding lane_turn_def
proof (rule ok_and_then [where Q' = "\<lambda>r t. \<forall>c. r = Inr (Some c) \<longrightarrow> claimed_ok c t"])
  assume s: "sys_inv s"
  show "ok svc (\<lambda>r t. \<forall>c. r = Inr (Some c) \<longrightarrow> claimed_ok c t)
     (catch_err (and_then (claimNextJob w 1) (\<lambda>claimed. Ret (Inr claimed))) (\<lambda>err. Ret (Inl err))) s"
    by (rule ok_catch, rule ok_and_then [OF ok_claimNextJob [OF s]])
      (auto intro!: ok_Ret dest: rely_claimed_ok)
  fix r t assume "sys_inv t" "\<forall>c. r = Inr (Some c) \<longrightarrow> claimed_ok c t"
  then show "ok svc (\<lambda>_ _. True) (case r of Inl err \<Rightarrow> call (Sleep 1000) (\<lambda>_. Ret ())
     | Inr None \<Rightarrow> Ret ()
     | Inr (Some claimed) \<Rightarrow> catch_err (and_then (processJob w claimed cfg) (\<lambda>outcome. Ret ())) (\<lambda>err. Ret ())) t"
    by (auto split: sum.split option.split intro!: ok_step ok_catch ok_and_then [OF ok_processJob])
qed

lemma ok_runLane: "sys_inv s \<Longrightarrow> ok svc (\<lambda>_ _. True) (runLane w cfg ds) s"
  by (induction ds arbitrary: s) (auto intro!: ok_and_then [OF ok_lane_turn])

text \<open>The reaper.\<close>

lemma envelope_of_row_agrees: "job_id r = i \<Longrightarrow> agrees (envelope_of_row i r) r"
  by (simp add: envelope_of_row_def agrees_def)

lemma ok_requeueOrphan: "sys_inv s \<Longrightarrow> ok svc (\<lambda>_ _. True) (requeueOrphan cfg w i age) s"
  unfolding requeueOrphan_def
  by (rule ok_step, assumption, simp, rule ok_if, simp, rule ok_step, assumption, simp,
      rule ok_hget_data, assumption, rule ok_select_job, assumption)
    (auto simp: Let_def split: option.split intro!: ok_uniform all_commands_and_then,
      (blast intro: legal_all_known agrees_attempt rely_described stored_like_facts envelope_of_row_agrees)+)

lemma ok_reap_each: "sys_inv s \<Longrightarrow> ok svc (\<lambda>_ _. True) (reap_each cfg w now ids) s"
  by (induction ids arbitrary: s) (auto simp: Let_def intro!: ok_step ok_and_then [OF ok_requeueOrphan])

lemma ok_reapWorker: "sys_inv s \<Longrightarrow> ok svc (\<lambda>_ _. True) (reapWorker cfg w) s"
  by (auto simp: reapWorker_def intro!: ok_step ok_reap_each)

lemma ok_tick_workers: "sys_inv s \<Longrightarrow> ok svc (\<lambda>_ _. True) (tick_workers cfg ws) s"
  by (induction ws arbitrary: s)
    (auto intro!: ok_step ok_and_then [OF ok_catch [OF ok_reapWorker]])

lemma ok_reaper_tick: "sys_inv s \<Longrightarrow> ok svc (\<lambda>_ _. True) (reaper_tick cfg) s"
  by (auto simp: reaper_tick_def intro!: ok_step ok_tick_workers)

text \<open>The scheduler.\<close>

lemma ok_fireScheduledJob: "sys_inv s \<Longrightarrow> ok svc (\<lambda>_ _. True) (fireScheduledJob cfg d now) s"
  unfolding fireScheduledJob_def Let_def
  by (rule ok_uuid, assumption, rule ok_insert_job, assumption)
    (auto intro!: ok_uniform split: option.split simp: stored_like_facts,
      auto intro!: legal_all_known stored_like_facts(3) simp: agrees_def fired_job_row_def)

lemma ok_fire_due: "sys_inv s \<Longrightarrow> ok svc (\<lambda>_ _. True) (fire_due cfg prev now ds) s"
  by (induction ds arbitrary: s) (auto intro!: ok_and_then [OF ok_fireScheduledJob])

lemma ok_scheduler_tick: "sys_inv s \<Longrightarrow> ok svc (\<lambda>_ _. True) (scheduler_tick cfg prev inst) s"
  by (auto simp: scheduler_tick_def simp del: and_then_call catch_call
      intro!: ok_step ok_and_then [OF ok_catch [OF ok_step]] ok_fire_due)

text \<open>The API.\<close>

lemma ok_invalid_state: "sys_inv s \<Longrightarrow> ok svc (\<lambda>_ _. True) (invalid_state e) s"
  by (cases e) (simp_all add: invalid_state_def)

lemma ok_handle: "sys_inv s \<Longrightarrow> ok svc (\<lambda>_ _. True) (handle cfg r) s"
proof (cases r)
  case (PostJobs rq)
  assume "sys_inv s"
  then show ?thesis unfolding PostJobs by (auto simp: post_jobs_def Let_def intro!: ok_and_then [OF ok_enqueueJob])
next
  case (PostRetry i)
  assume "sys_inv s"
  then show ?thesis
    unfolding PostRetry by (auto simp: post_retry_def intro!: ok_catch ok_and_then [OF ok_retryJob] ok_invalid_state
        split: option.split)
next
  case (DeleteJob i)
  assume "sys_inv s"
  then show ?thesis
    unfolding DeleteJob by (auto simp: delete_job_def intro!: ok_catch ok_and_then [OF ok_cancelJob] ok_invalid_state
        split: option.split)
qed (rule ok_uniform, assumption, auto simp: get_job_def get_jobs_def getJobById_def getJobEvents_def listJobs_def
    get_stats_def getQueueStats_def post_schedules_def get_schedules_def patch_schedule_def
    delete_schedule_route_def Let_def intro!: all_commands_and_then split: option.split prod.split)+

lemma free_rateLimit: "all_commands (legal_all s) (rateLimit cfg n key ip)"
  by (simp add: rateLimit_def Let_def)

lemma ok_serve: "sys_inv s \<Longrightarrow> ok svc (\<lambda>_ _. True) (serve cfg header ip r) s"
  by (auto simp: serve_def internal_error_def free_rateLimit
      intro!: ok_catch ok_free ok_handle split: sum.split option.split)

lemma ok_health: "sys_inv s \<Longrightarrow> ok svc (\<lambda>_ _. True) health s"
  by (rule ok_uniform) (auto simp: health_def Let_def intro!: all_commands_and_then split: sum.split)

lemma ok_metrics: "sys_inv s \<Longrightarrow> ok svc (\<lambda>_ _. True) metrics s"
  unfolding metrics_def
  by (rule ok_uniform, assumption, rule all_commands_catch, rule all_commands_and_then)
    (simp_all add: getQueueStats_def Let_def internal_error_def split: prod.split)

end

section \<open>The deployment\<close>

text \<open>
  What the processes run: requests answered by any number of API servers, their promoters
  (\<open>packages/server/src/index.js\<close>), the lanes of any number of workers with registration and
  heartbeat timers, reapers and schedulers. \<open>setInterval\<close> and the request loop start one
  program each time.
\<close>

datatype activity =
    Request server_config "string option" string route
  | Health
  | Metrics
  | Promoter
  | Register string
  | Deregister string
  | Lane string worker_config "bool list"
  | Beat string
  | ReaperTick reaper_config
  | SchedulerTick scheduler_config cron string

definition done_with :: "'a prog \<Rightarrow> unit prog" where
  "done_with p = and_then p (\<lambda>_. Ret ())"

text \<open>The callback of the promoter's interval; a failure is logged.\<close>

definition promoter_turn :: "unit prog" where
  "promoter_turn = catch_err (done_with (promoteDueDelayedJobs 100)) (\<lambda>err. Ret ())"

fun program_of :: "activity \<Rightarrow> unit prog" where
  "program_of (Request cfg header ip r) = done_with (serve cfg header ip r)"
| "program_of Health = done_with health"
| "program_of Metrics = done_with metrics"
| "program_of Promoter = promoter_turn"
| "program_of (Register w) = registerWorker w"
| "program_of (Deregister w) = deregisterWorker w"
| "program_of (Lane w cfg answers) = runLane w cfg answers"
| "program_of (Beat i) = heartbeat i"
| "program_of (ReaperTick cfg) = reaper_tick cfg"
| "program_of (SchedulerTick cfg prev inst) = scheduler_tick cfg prev inst"

text \<open>The heartbeat timer runs for a job that was claimed, hence stored.\<close>

definition starts :: "store \<Rightarrow> unit prog \<Rightarrow> bool" where
  "starts s p \<longleftrightarrow> (\<exists>a. p = program_of a \<and> (\<forall>i. a = Beat i \<longrightarrow> i \<in> job_id ` set (jobs s)))"

definition passes :: "store \<Rightarrow> store \<Rightarrow> bool" where
  "passes s t \<longleftrightarrow> (\<exists>n \<ge> 0. t = s\<lparr>clock := clock s + n\<rparr>)"

lemma rely_clock: "passes s t \<Longrightarrow> sys_rely s t"
  by (auto simp: passes_def intro: rely_other)

lemma ok_done_with: "ok svc (\<lambda>_ _. True) p s \<Longrightarrow> ok svc (\<lambda>_ _. True) (done_with p) s"
  unfolding done_with_def by (rule ok_and_then) auto

context services begin

lemma ok_promoter_turn: "sys_inv s \<Longrightarrow> ok svc (\<lambda>_ _. True) promoter_turn s"
  unfolding promoter_turn_def
  by (rule ok_catch) (auto intro!: ok_done_with ok_promoteDueDelayedJobs)

lemma ok_activity:
  assumes "sys_inv s" and "\<forall>i. a = Beat i \<longrightarrow> known s i"
  shows "ok svc (\<lambda>_ _. True) (program_of a) s"
  using assms
  by (cases a) (auto intro!: ok_uniform ok_done_with ok_serve ok_health ok_metrics
        ok_promoter_turn ok_runLane ok_reaper_tick ok_scheduler_tick)

end

sublocale services < deployment: rely_guarantee svc sys_rely sys_inv passes starts
proof
  show "reflp sys_rely" "transp sys_rely" by (rule sys_rely_refl sys_rely_trans)+
  show "sys_rely s s'" if "passes s s'" for s s' using that by (rule rely_clock)
  show "sys_inv s'" if "sys_inv s" "sys_rely s s'" for s s' using that by (rule rely_inv [rotated])
  show "safe svc sys_rely sys_rely sys_inv (\<lambda>_ _. True) (\<lambda>_ _. True) p s"
    if "sys_inv s" "starts s p" for s p
    using that ok_activity [of s] by (auto simp: starts_def known_def ok_def)
qed

lemma sys_inv_empty: "sys_inv empty_store"
  by (simp add: sys_inv_def rows_ok_def redis_ok_def keys_unique_def empty_store_def)

context services begin

lemma reach_inv: "sys_reach svc passes starts empty_store (s, ps) \<Longrightarrow> rows_ok s \<and> redis_ok s"
  using deployment.invariant_reach [of empty_store "(s, ps)"] sys_inv_empty by (simp add: sys_inv_def)

lemma reach_kept:
  assumes "sys_reach svc passes starts empty_store (s, ps)"
    and "(sys_step svc passes starts)\<^sup>*\<^sup>* (s, ps) (t, qs)"
  shows "kept_rows s t"
  using deployment.history [OF assms(2) deployment.safe_reach [OF assms(1) sys_inv_empty]]
  by (simp add: sys_rely_def)

end

interpretation mem_deployment: rely_guarantee mem_svc sys_rely sys_inv passes starts
  by unfold_locales

text \<open>A deployment in which one job was submitted over HTTP.\<close>

definition demo_post :: "unit prog" where
  "demo_post = program_of (Request demo_server (Some ''dev-key-123'') ''ip'' (PostJobs demo_request))"

definition demo_submitted :: store where
  "demo_submitted = snd (run mem_svc demo_post empty_store)"

lemma demo_reach: "\<exists>ps. sys_reach mem_svc passes starts empty_store (demo_submitted, ps)"
  unfolding demo_submitted_def
proof (rule reach_run [OF sys_reach.initial])
  show "starts empty_store demo_post"
    unfolding starts_def demo_post_def by (rule exI, rule conjI [OF refl]) simp
qed

lemma demo_limited:
  "\<exists>b. run mem_svc (rateLimit demo_server None (Some ''dev-key-123'') ''ip'') empty_store =
     (Inr None, empty_store\<lparr>buckets := b\<rparr>)"
  unfolding mem.run_rateLimit Let_def demo_capacity
  by (auto simp: token_bucket_lua_def Let_def live_bucket_def empty_store_def)

lemma demo_submitted_simps:
  "lists demo_submitted (queue_of ''high'') = [''u'']"
  "strs demo_submitted (idempotencyKey ''k1'') = Some (''u'', 86400000)"
proof -
  obtain b where b: "run mem_svc (rateLimit demo_server None (Some ''dev-key-123'') ''ip'') empty_store =
     (Inr None, empty_store\<lparr>buckets := b\<rparr>)"
    using demo_limited by blast
  let ?s = "empty_store\<lparr>buckets := b\<rparr>"
  let ?row = "new_job_row demo_server demo_request ''u'' 0"
  have none: "existing_job ?s demo_request = None"
    by (simp add: existing_job_def demo_defs str_get_def)
  have "?row = new_job_row demo_server demo_request (gen_uuid mem_outside ?s) (clock ?s)"
    by (simp add: empty_store_def mem_outside_def mem_uuid_def)
  moreover have "insert_job_error (jobs ?s) ?row = None"
    by (simp add: demo_server_def demo_defs row_defs)
  ultimately have new: "run mem_svc (enqueueJob demo_server demo_request) ?s = run mem_svc (enqueue_new demo_server demo_request) ?s"
    and enq: "lists (snd (run mem_svc (enqueue_new demo_server demo_request) ?s)) (queue_of ''high'') = [''u'']"
    "strs (snd (run mem_svc (enqueue_new demo_server demo_request) ?s)) (idempotencyKey ''k1'') = Some (''u'', 86400000)"
    using none mem.run_enqueue_new [of ?row demo_server demo_request ?s "''u''"]
    by (simp_all add: mem.run_enqueueJob demo_server_def demo_defs new_job_row_def Let_def)
  have "apiKeyAuth demo_server (Some ''dev-key-123'') = Inr ''dev-key-123''"
    by (simp add: apiKeyAuth_def demo_server_def demo_config_def)
  moreover have "enqueueSchema demo_request"
    by (simp add: enqueueSchema_def demo_request_def length_ok_def optional_def int_within_def)
  ultimately have "demo_submitted = snd (run mem_svc (enqueue_new demo_server demo_request) ?s)"
    using b new by (simp add: demo_submitted_def demo_post_def done_with_def serve_def prog_run post_jobs_def
        internal_error_def Let_def split: prod.split sum.split)
  then show "lists demo_submitted (queue_of ''high'') = [''u'']"
    "strs demo_submitted (idempotencyKey ''k1'') = Some (''u'', 86400000)"
    using enq by simp_all
qed

section \<open>Properties\<close>

text \<open>
  C3: The invariant of the whole deployment. However the requests, promoters, lanes, reapers
  and schedulers interleave, crash or lose their connections, from the empty store on: every
  identifier in a Redis list or sorted set and every heartbeat belongs to a stored job; the
  job data under an identifier are those of its row in all that never changes; each sorted
  set holds a member once; identifiers are unique and every event belongs to a stored job.
\<close>

theorem deployment_invariant:
  assumes "services svc out" and "sys_reach svc passes starts empty_store (s, ps)"
  shows "distinct (map job_id (jobs s)) \<and>
    (\<forall>k. set (lists s k) \<subseteq> job_id ` set (jobs s)) \<and>
    (\<forall>k. zmembers (zsets s k) \<subseteq> job_id ` set (jobs s) \<and> distinct (map zmember (zsets s k))) \<and>
    dom (hashes s HEARTBEATS_KEY) \<subseteq> job_id ` set (jobs s) \<and>
    (\<forall>i v. hashes s JOB_DATA_KEY i = Some v \<longrightarrow> (\<exists>e r. v = VEnv e \<and> get_row i (jobs s) = Some r \<and>
       env_id e = i \<and> env_type e = job_type r \<and> env_payload e = payload r \<and>
       env_priority e = priority r \<and> env_maxRetries e = max_retries r)) \<and>
    ev_job ` set (job_events s) \<subseteq> job_id ` set (jobs s)"
proof -
  have ok: "rows_ok s" "redis_ok s" using services.reach_inv [OF assms] by auto
  note parts = redis_ok_parts [OF ok(2), unfolded known_def]
  have data: "\<exists>e r. v = VEnv e \<and> get_row i (jobs s) = Some r \<and> env_id e = i \<and> env_type e = job_type r \<and>
       env_payload e = payload r \<and> env_priority e = priority r \<and> env_maxRetries e = max_retries r"
    if "hashes s JOB_DATA_KEY i = Some v" for i v
    using parts(4) [OF that] get_row_Some unfolding described_def agrees_def by fastforce
  have lists: "set (lists s k) \<subseteq> job_id ` set (jobs s)" for k using parts(1) by (rule subsetI)
  have zsets: "zmembers (zsets s k) \<subseteq> job_id ` set (jobs s) \<and> distinct (map zmember (zsets s k))" for k
    using parts(2) [of _ k] parts(3) [of k] by (auto simp: zset_wf_def)
  have beats: "dom (hashes s HEARTBEATS_KEY) \<subseteq> job_id ` set (jobs s)"
    using parts(5) by (intro subsetI) (auto simp: dom_def)
  show ?thesis
    using ok(1) lists zsets beats data unfolding rows_ok_def by (intro conjI allI impI) simp_all
qed

theorem deployment_invariant_witness:
  "set (lists demo_submitted (queue_of ''high'')) = {''u''} \<and>
   {''u''} \<subseteq> job_id ` set (jobs demo_submitted)"
proof -
  obtain ps where "sys_reach mem_svc passes starts empty_store (demo_submitted, ps)"
    using demo_reach by blast
  then have "set (lists demo_submitted (queue_of ''high'')) \<subseteq> job_id ` set (jobs demo_submitted)"
    using deployment_invariant [OF mem.services_axioms] by blast
  then show ?thesis by (simp add: demo_submitted_simps)
qed

text \<open>
  C6: Idempotency holds across the deployment: at no reachable state do two jobs carry the
  same idempotency key, and a key reserved in Redis leads to the stored job that carries it.
\<close>

theorem deployment_idempotency:
  assumes "services svc out" and "sys_reach svc passes starts empty_store (s, ps)"
  shows "(\<forall>r \<in> set (jobs s). \<forall>r' \<in> set (jobs s). idempotency_key r = Some k \<longrightarrow>
      idempotency_key r' = Some k \<longrightarrow> r = r') \<and>
    (\<forall>i t. strs s (idempotencyKey k) = Some (i, t) \<longrightarrow>
      (\<exists>r. get_row i (jobs s) = Some r \<and> idempotency_key r = Some k))"
proof -
  have ok: "rows_ok s" "redis_ok s" using services.reach_inv [OF assms] by auto
  have "r = r'" if "r \<in> set (jobs s)" "r' \<in> set (jobs s)" "idempotency_key r = Some k"
    "idempotency_key r' = Some k" for r r'
  proof -
    have "job_id r = job_id r'" using ok(1) that unfolding rows_ok_def keys_unique_def by blast
    then show ?thesis using ok(1) that(1,2) by (auto simp: rows_ok_def distinct_map dest: inj_onD)
  qed
  then show ?thesis using redis_ok_parts(6) [OF ok(2)] by (auto simp: reserved_def)
qed

theorem deployment_idempotency_witness:
  "\<exists>r. get_row ''u'' (jobs demo_submitted) = Some r \<and> idempotency_key r = Some ''k1''"
proof -
  obtain ps where "sys_reach mem_svc passes starts empty_store (demo_submitted, ps)"
    using demo_reach by blast
  then show ?thesis
    using deployment_idempotency [OF mem.services_axioms, of demo_submitted ps "''k1''"]
      demo_submitted_simps(2) by blast
qed



end
