(* ===== verification/Placement.thy ===== *)
theory Placement
  imports System
begin

text \<open>
  Every job in its place. When the operations of the deployment run one after the other and to
  their end, the status of a row determines where in Redis its id is: once in the list of its
  priority, among the delayed jobs, or nowhere; and each operation moves a job along at most
  one arrow of its life cycle. Operations that interleave or stop half way break this, each in
  the way a theorem of \<open>Interleaving\<close>, \<open>Process\<close> or \<open>Reaper\<close> shows.
\<close>

section \<open>The place of a job\<close>

definition in_place :: "store \<Rightarrow> job_row \<Rightarrow> bool" where
  "in_place s r \<longleftrightarrow>
     (\<forall>p \<in> set PRIORITIES. count_list (lists s (queue_of p)) (job_id r) =
        (if status r = Queued \<and> p = priority r then 1 else 0)) \<and>
     (job_id r \<in> zmembers (zsets s DELAYED_KEY) \<longleftrightarrow> status r = Delayed) \<and> status r \<noteq> Active \<and>
     (if status r \<in> {Queued, Delayed} then \<exists>e. data_of s (job_id r) = Some e \<and> env_attempt e = attempt r
      else data_of s (job_id r) = None) \<and> 0 \<le> attempt r"

definition orderly :: "store \<Rightarrow> bool" where
  "orderly s \<longleftrightarrow> sys_inv s \<and> (\<forall>w. lists s (processingKey w) = []) \<and>
     (\<forall>i r. get_row i (jobs s) = Some r \<longrightarrow> in_place s r)"

text \<open>
  The life cycle of a job as the code drives it: a failed attempt leads back to the delayed
  jobs, and \<open>failed\<close> is the status of a cancelled job only.
\<close>

inductive moves_on :: "job_status option \<Rightarrow> job_status option \<Rightarrow> bool" where
  submitted: "moves_on None (Some Queued)"
| scheduled: "moves_on None (Some Delayed)"
| promoted: "moves_on (Some Delayed) (Some Queued)"
| completed: "moves_on (Some Queued) (Some Completed)"
| failed_again: "moves_on (Some Queued) (Some Delayed)"
| exhausted: "moves_on (Some Queued) (Some Dead)"
| revived: "st \<in> {Dead, Failed} \<Longrightarrow> moves_on (Some st) (Some Queued)"
| cancelled: "st \<in> {Queued, Delayed} \<Longrightarrow> moves_on (Some st) (Some Failed)"

definition lifecycle :: "store \<Rightarrow> store \<Rightarrow> bool" where
  "lifecycle s t \<longleftrightarrow> (\<forall>i. status_of i t = status_of i s \<or> moves_on (status_of i s) (status_of i t))"

text \<open>
  The operations, each run to its end by some process: a submission, a recurring definition that
  fires, a turn of a lane (claim, execution, settlement), a run of the promoter, a retry and a
  cancellation by an operator; and time that passes. The attempt numbers fit the column of the
  table: only by billions of manual retries does one come near its bound.
\<close>

inductive operation :: "service \<Rightarrow> store \<Rightarrow> store \<Rightarrow> bool" for svc s where
  submit: "run svc (enqueueJob cfg rq) s = (res, t) \<Longrightarrow> operation svc s t"
| fire: "run svc (fireScheduledJob scfg d (clock s)) s = (done, t) \<Longrightarrow> operation svc s t"
| turn: "run svc (lane_turn w wcfg) s = (done, t) \<Longrightarrow>
    (\<forall>i r. get_row i (jobs s) = Some r \<longrightarrow> attempt r + 1 < 2 ^ 31) \<Longrightarrow> operation svc s t"
| promote: "run svc (promoteDueDelayedJobs limit) s = (n, t) \<Longrightarrow> operation svc s t"
| retry: "run svc (retryJob i) s = (job, t) \<Longrightarrow> operation svc s t"
| cancel: "run svc (cancelJob i) s = (job, t) \<Longrightarrow> operation svc s t"
| time: "0 \<le> n \<Longrightarrow> t = s\<lparr>clock := clock s + n\<rparr> \<Longrightarrow> operation svc s t"

section \<open>One job at a time\<close>

definition same_place :: "string \<Rightarrow> store \<Rightarrow> store \<Rightarrow> bool" where
  "same_place j s t \<longleftrightarrow> get_row j (jobs t) = get_row j (jobs s) \<and>
     (\<forall>p \<in> set PRIORITIES. count_list (lists t (queue_of p)) j = count_list (lists s (queue_of p)) j) \<and>
     (j \<in> zmembers (zsets t DELAYED_KEY) \<longleftrightarrow> j \<in> zmembers (zsets s DELAYED_KEY)) \<and> data_of t j = data_of s j"

lemma same_place_refl [simp]: "same_place j s s"
  by (simp add: same_place_def)

lemma in_place_same:
  assumes "same_place j s t" and "get_row j (jobs s) = Some r" and "in_place s r"
  shows "in_place t r"
  using assms get_row_Some [OF assms(2)] by (auto simp: same_place_def in_place_def)

lemma orderly_update:
  assumes "orderly s" and "sys_inv t" and "\<And>w. lists t (processingKey w) = []"
    and "\<And>j. j \<noteq> i \<Longrightarrow> same_place j s t"
    and "\<And>r. get_row i (jobs t) = Some r \<Longrightarrow> in_place t r"
    and "status_of i t = status_of i s \<or> moves_on (status_of i s) (status_of i t)"
  shows "orderly t \<and> lifecycle s t"
proof -
  have "in_place t r" if "get_row j (jobs t) = Some r" for j r
    using that assms(1,4,5) in_place_same [of j s t r] by (cases "j = i") (auto simp: orderly_def same_place_def)
  moreover have "status_of j t = status_of j s \<or> moves_on (status_of j s) (status_of j t)" for j
    using assms(4) [of j] assms(6) by (cases "j = i") (auto simp: same_place_def status_of_def)
  ultimately show ?thesis using assms(2,3) by (auto simp: orderly_def lifecycle_def)
qed

lemma lifecycle_refl: "lifecycle s s"
  by (simp add: lifecycle_def)

lemma redis_data:
  assumes "redis_ok s" and "data_of s i = Some e"
  shows "described s e i"
proof -
  have "\<forall>i v. hashes s JOB_DATA_KEY i = Some v \<longrightarrow> (\<exists>e. v = VEnv e \<and> described s e i)"
    using assms(1) unfolding redis_ok_def by (elim conjE)
  then show ?thesis using assms(2) unfolding data_of_Some by blast
qed

lemma orderly_row:
  assumes "orderly s" and "get_row i (jobs s) = Some r"
  shows "in_place s r" and "job_id r = i" and "priority r \<in> set PRIORITIES" and "i \<noteq> ''''"
    and "data_of s i = Some e \<Longrightarrow> agrees e r"
proof -
  show "in_place s r" using assms by (auto simp: orderly_def)
  show i: "job_id r = i" using get_row_Some [OF assms(2)] by simp
  have rows: "rows_ok s" "redis_ok s" using assms(1) by (simp_all add: orderly_def sys_inv_def)
  show "priority r \<in> set PRIORITIES" "i \<noteq> ''''"
    using rows(1) get_row_Some [OF assms(2)] i unfolding rows_ok_def by (blast, metis imageI)
  show "agrees e r" if "data_of s i = Some e"
    using redis_data [OF rows(2) that] assms(2) by (simp add: described_def)
qed

lemma placed_known:
  assumes "orderly s"
  shows "i \<in> set (lists s k) \<Longrightarrow> \<exists>r. get_row i (jobs s) = Some r"
    and "i \<in> zmembers (zsets s k) \<Longrightarrow> \<exists>r. get_row i (jobs s) = Some r"
    and "get_row i (jobs s) = None \<Longrightarrow> data_of s i = None"
    and "zset_wf (zsets s k)"
proof -
  have redis: "redis_ok s" using assms by (simp add: orderly_def sys_inv_def)
  show "i \<in> set (lists s k) \<Longrightarrow> \<exists>r. get_row i (jobs s) = Some r"
    and "i \<in> zmembers (zsets s k) \<Longrightarrow> \<exists>r. get_row i (jobs s) = Some r"
    using redis by (auto simp: redis_ok_def known_def ids_get_row)
  show "data_of s i = None" if "get_row i (jobs s) = None"
    using that redis_data [OF redis, of i] by (cases "data_of s i") (simp_all add: described_def)
  show "zset_wf (zsets s k)" using redis by (auto simp: redis_ok_def)
qed

lemma not_listed: "count_list xs i = 0 \<longleftrightarrow> i \<notin> set xs"
  by (simp add: count_list_0_iff)

lemma unknown_nowhere:
  assumes "orderly s" and "get_row i (jobs s) = None"
  shows "count_list (lists s k) i = 0" and "i \<notin> zmembers (zsets s k)" and "data_of s i = None"
  using placed_known [OF assms(1), of i] assms(2) by (auto simp: not_listed)

lemma orderly_ids_nonempty: "orderly s \<Longrightarrow> ids_nonempty s"
  unfolding ids_nonempty_def using placed_known(1) orderly_row(4) by blast

lemma run_ok:
  "ok svc Q p s \<Longrightarrow> sys_inv (snd (run svc p s))"
  unfolding ok_def
proof (induction p arbitrary: s)
  case (Await c k)
  have "safe svc sys_rely sys_rely sys_inv Q (\<lambda>_ _. True) (k (fst (svc c s))) (snd (svc c s))"
    using Await.prems reflpD [OF sys_rely_refl] by auto
  then show ?case using Await.IH by (cases "svc c s") auto
qed (use reflpD [OF sys_rely_refl] in auto)

lemma data_of_cong: "hashes t JOB_DATA_KEY = hashes s JOB_DATA_KEY \<Longrightarrow> data_of t i = data_of s i"
  by (simp add: data_of_def)

lemma orderly_frame:
  assumes "orderly s" and "sys_inv t" and "jobs t = jobs s" and "lists t = lists s" and "zsets t = zsets s"
    and "hashes t JOB_DATA_KEY = hashes s JOB_DATA_KEY"
  shows "orderly t \<and> lifecycle s t"
  using assms data_of_cong [OF assms(6)]
  by (simp add: orderly_def lifecycle_def in_place_def status_of_def)

lemma run_rely: "ok svc Q p s \<Longrightarrow> sys_rely s (snd (run svc p s))"
  unfolding ok_def
proof (induction p arbitrary: s)
  case (Await c k)
  have "safe svc sys_rely sys_rely sys_inv Q (\<lambda>_ _. True) (k (fst (svc c s))) (snd (svc c s))"
    and "sys_rely s (snd (svc c s))"
    using Await.prems reflpD [OF sys_rely_refl] by auto
  then show ?case using Await.IH rely_transitive by (cases "svc c s") fastforce
qed (use reflpD [OF sys_rely_refl] in auto)

lemma count_list_filter_distinct:
  "distinct xs \<Longrightarrow> count_list (filter P xs) j = (if j \<in> set xs \<and> P j then 1 else 0)"
  by (induction xs) (auto simp: not_listed)

section \<open>The operations\<close>

lemma status_None: "get_row i (jobs s) = None \<Longrightarrow> status_of i s = None"
  by (simp add: status_of_def)

lemma status_Some: "get_row i (jobs s) = Some r \<Longrightarrow> status_of i s = Some (status r)"
  by (simp add: status_of_def)

context services begin

lemma orderly_submit:
  assumes "orderly s" and "run svc (enqueueJob cfg rq) s = (res, t)"
  shows "orderly t \<and> lifecycle s t"
proof -
  have inv: "sys_inv t" using run_ok [OF ok_enqueueJob, of s cfg rq] assms by (simp add: orderly_def)
  let ?row = "new_job_row cfg rq (gen_uuid out s) (clock s)"
  consider (found) j where "existing_job s rq = Some j"
    | (refused) m where "existing_job s rq = None" "insert_job_error (jobs s) ?row = Some m"
    | (new) "existing_job s rq = None" "insert_job_error (jobs s) ?row = None"
    by (cases "existing_job s rq"; cases "insert_job_error (jobs s) ?row") auto
  then show ?thesis
  proof cases
    case found
    then show ?thesis using assms lifecycle_refl by (simp add: run_enqueueJob)
  next
    case refused
    then have t: "t = s\<lparr>issued := gen_uuid out s # issued s\<rparr>"
      using assms(2) run_enqueue_refused [OF refused(2)] by (simp add: run_enqueueJob)
    show ?thesis by (rule orderly_frame [OF assms(1) inv]) (simp_all add: t)
  next
    case new
    define i where "i = job_id ?row"
    have none: "get_row i (jobs s) = None"
      using new(2) by (auto simp: i_def insert_job_error_def get_row_None split: if_splits)
    note nowhere = unknown_nowhere [OF assms(1) none]
    have t: "t = snd (run svc (enqueue_new cfg rq) s)" using assms(2) new(1) by (simp add: run_enqueueJob)
    note t = t [unfolded run_enqueue_new [OF refl new(2) i_def [symmetric]], unfolded snd_conv]
    have row: "job_id ?row = i" "status ?row = (if scheduled_for ?row = None then Queued else Delayed)" "attempt ?row = 0"
      by (simp_all add: i_def new_job_row_def Let_def)
    have prio: "priority ?row \<in> set PRIORITIES" using row_priority_known [OF new(2)] .
    show ?thesis
    proof (rule orderly_update [OF assms(1) inv, of i])
      show "lists t (processingKey w) = []" for w using assms(1) by (simp add: t orderly_def)
      show "same_place j s t" if "j \<noteq> i" for j
        using that row(1) by (auto simp: same_place_def t data_of_def split: option.split)
      show "in_place t r" if "get_row i (jobs t) = Some r" for r
      proof -
        have r: "r = ?row" using that none row(1) by (simp add: t)
        show ?thesis
        proof (cases "scheduled_for ?row")
          case None
          then have "status ?row = Queued" using row(2) by simp
          moreover have "status ?row \<noteq> Active" by (simp add: new_job_row_def Let_def)
          ultimately show ?thesis using nowhere prio row(1,3) None
            by (auto simp: r in_place_def t data_of_def toEnvelope_def)
        next
          case (Some d)
          then have "status ?row = Delayed" using row(2) by simp
          moreover have "status ?row \<noteq> Active" by (simp add: new_job_row_def Let_def)
          ultimately show ?thesis using nowhere prio row(1,3) Some
            by (auto simp: r in_place_def t data_of_def toEnvelope_def)
        qed
      qed
      show "status_of i t = status_of i s \<or> moves_on (status_of i s) (status_of i t)"
        using none row by (auto simp: status_of_def t intro: moves_on.intros)
    qed
  qed
qed

lemma run_fire_new:
  assumes "insert_job_error (jobs s) (fired_job_row cfg d i (clock s)) = None" and "i = gen_uuid out s"
  shows "run svc (fireScheduledJob cfg d (clock s)) s = (Inr (), fired cfg d i s)"
proof -
  have "i \<notin> job_id ` set (jobs s)" and "sched_priority d \<in> set PRIORITIES"
    using assms(1) row_priority_known [OF assms(1)] by (simp_all add: insert_job_error_def split: if_splits)
  then show ?thesis
    using assms queueKey_ok
    by (simp add: fireScheduledJob_def Let_def prog_run laws fired_def mark_run_def fired_envelope_def)
qed

lemma run_fire_refused:
  assumes "insert_job_error (jobs s) (fired_job_row cfg d (gen_uuid out s) (clock s)) = Some m"
  shows "run svc (fireScheduledJob cfg d (clock s)) s = (Inl (PgError m), s\<lparr>issued := gen_uuid out s # issued s\<rparr>)"
  using assms by (simp add: fireScheduledJob_def Let_def prog_run laws)

lemma orderly_fire:
  assumes "orderly s" and "run svc (fireScheduledJob cfg d (clock s)) s = (res, t)"
  shows "orderly t \<and> lifecycle s t"
proof -
  have inv: "sys_inv t" using run_ok [OF ok_fireScheduledJob, of s cfg d "clock s"] assms by (simp add: orderly_def)
  define i where "i = gen_uuid out s"
  let ?row = "fired_job_row cfg d i (clock s)"
  show ?thesis
  proof (cases "insert_job_error (jobs s) ?row")
    case (Some m)
    then have t: "t = s\<lparr>issued := gen_uuid out s # issued s\<rparr>"
      using assms(2) run_fire_refused [of s cfg d m] by (simp add: i_def)
    show ?thesis by (rule orderly_frame [OF assms(1) inv]) (simp_all add: t)
  next
    case None
    have t: "t = fired cfg d i s" using assms(2) run_fire_new [OF None i_def] by simp
    have none: "get_row i (jobs s) = None"
      using None by (auto simp: insert_job_error_def get_row_None split: if_splits)
    note nowhere = unknown_nowhere [OF assms(1) none]
    have row: "status ?row = Queued" "attempt ?row = 0" by (simp_all add: fired_job_row_def)
    have prio: "sched_priority d \<in> set PRIORITIES" using row_priority_known [OF None] by simp
    show ?thesis
    proof (rule orderly_update [OF assms(1) inv, of i])
      show "lists t (processingKey w) = []" for w
        using assms(1) by (simp add: t fired_def Let_def orderly_def)
      show "same_place j s t" if "j \<noteq> i" for j
        using that by (auto simp: same_place_def t fired_def Let_def data_of_def split: option.split)
      show "in_place t r" if "get_row i (jobs t) = Some r" for r
      proof -
        have "r = ?row" using that none by (simp add: t fired_def Let_def)
        then show ?thesis
          using nowhere prio row
          by (auto simp: in_place_def t fired_def Let_def data_of_def fired_envelope_def)
      qed
      show "status_of i t = status_of i s \<or> moves_on (status_of i s) (status_of i t)"
        using none row by (auto simp: status_of_def t fired_def Let_def intro: moves_on.intros)
    qed
  qed
qed

lemma orderly_retry:
  assumes "orderly s" and "run svc (retryJob i) s = (res, t)"
  shows "orderly t \<and> lifecycle s t"
proof -
  have inv: "sys_inv t" using run_ok [OF ok_retryJob, of s i] assms by (simp add: orderly_def)
  consider (none) "get_row i (jobs s) = None" | (refused) r where "get_row i (jobs s) = Some r" "status r \<notin> {Dead, Failed}"
    | (ok) r where "get_row i (jobs s) = Some r" "status r \<in> {Dead, Failed}" by blast
  then show ?thesis
  proof cases
    case none
    then show ?thesis using assms run_retryJob_missing [OF none] lifecycle_refl by simp
  next
    case refused
    then show ?thesis using assms run_retryJob_refused [OF refused] lifecycle_refl by auto
  next
    case ok
    note row = orderly_row [OF assms(1) ok(1)]
    note t = run_retryJob [OF ok row(3) refl, unfolded assms(2) prod.inject, THEN conjunct2]
    show ?thesis
    proof (rule orderly_update [OF assms(1) inv, of i])
      show "lists t (processingKey w) = []" for w using assms(1) by (simp add: t orderly_def)
      show "same_place j s t" if "j \<noteq> i" for j
        using that by (auto simp: same_place_def t data_of_def)
      show "in_place t r'" if "get_row i (jobs t) = Some r'" for r'
        using that ok row(1-3) by (auto simp: in_place_def t data_of_def toEnvelope_def)
      show "status_of i t = status_of i s \<or> moves_on (status_of i s) (status_of i t)"
        using ok by (auto simp: status_of_def t intro: moves_on.intros)
    qed
  qed
qed

lemma orderly_cancel:
  assumes "orderly s" and "run svc (cancelJob i) s = (res, t)"
  shows "orderly t \<and> lifecycle s t"
proof -
  have inv: "sys_inv t" using run_ok [OF ok_cancelJob, of s i] assms by (simp add: orderly_def)
  consider (none) "get_row i (jobs s) = None" | (refused) r where "get_row i (jobs s) = Some r" "status r \<notin> {Queued, Delayed}"
    | (ok) r where "get_row i (jobs s) = Some r" "status r \<in> {Queued, Delayed}" by blast
  then show ?thesis
  proof cases
    case none
    then show ?thesis using assms run_cancelJob_missing [OF none] lifecycle_refl by simp
  next
    case refused
    then show ?thesis using assms run_cancelJob_refused [OF refused] lifecycle_refl by auto
  next
    case ok
    note row = orderly_row [OF assms(1) ok(1)]
    note t = run_cancelJob [OF ok row(3), unfolded assms(2) prod.inject, THEN conjunct2]
    show ?thesis
    proof (rule orderly_update [OF assms(1) inv, of i])
      show "lists t (processingKey w) = []" for w using assms(1) by (simp add: t orderly_def)
      show "same_place j s t" if "j \<noteq> i" for j
        using that by (auto simp: same_place_def t data_of_def)
      show "in_place t r'" if "get_row i (jobs t) = Some r'" for r'
        using that ok row(1-3) by (auto simp: in_place_def t data_of_def)
      show "status_of i t = status_of i s \<or> moves_on (status_of i s) (status_of i t)"
        using ok by (auto simp: status_of_def t intro: moves_on.intros)
    qed
  qed
qed

lemma run_lane_turn:
  assumes "run svc (claimNextJob w 1) s = (Inr (Some c), u)"
  shows "run svc (lane_turn w cfg) s = (Inr (), snd (run svc (processJob w c cfg) u))"
  using assms
  by (cases "run svc (processJob w c cfg) u"; cases "fst (run svc (processJob w c cfg) u)")
    (simp_all add: lane_turn_def prog_run)

text \<open>How a turn settles the job it claims.\<close>

lemma turn_settles:
  assumes ord: "orderly s" and p: "first_ready s = Some p" and i: "i = last (lists s (queue_of p))"
    and r: "get_row i (jobs s) = Some r" and bound: "attempt r + 1 < 2 ^ 31"
    and t: "run svc (lane_turn w cfg) s = (x, t)"
  shows "lists t = (lists s)(queue_of p := butlast (lists s (queue_of p)), processingKey w := []) \<and>
    (\<forall>j. j \<noteq> i \<longrightarrow> get_row j (jobs t) = get_row j (jobs s) \<and> data_of t j = data_of s j \<and>
       (j \<in> zmembers (zsets t DELAYED_KEY) \<longleftrightarrow> j \<in> zmembers (zsets s DELAYED_KEY))) \<and>
    (\<exists>r'. get_row i (jobs t) = Some r' \<and> 0 \<le> attempt r' \<and>
       (status r' = Completed \<and> data_of t i = None \<and> zsets t = zsets s \<or>
        status r' = Dead \<and> data_of t i = None \<and> zsets t = zsets s \<or>
        status r' = Delayed \<and> i \<in> zmembers (zsets t DELAYED_KEY) \<and>
          (\<exists>e. data_of t i = Some e \<and> env_attempt e = attempt r')))"
proof -
  note place = orderly_row [OF ord r]
  have ready: "lists s (queue_of p) \<noteq> []" "p \<in> set PRIORITIES" using first_ready_Some [OF p] by simp_all
  then have "i \<in> set (lists s (queue_of p))" unfolding i by simp
  then have "count_list (lists s (queue_of p)) i \<noteq> 0" by (simp add: not_listed)
  then have st: "status r = Queued" using place(1,2) ready(2) by (auto simp: in_place_def split: if_splits)
  obtain e where e: "data_of s i = Some e" "env_attempt e = attempt r" "0 \<le> attempt r"
    using place(1,2) st by (auto simp: in_place_def)
  have held: "lists s (processingKey w) = []" using ord by (simp add: orderly_def)
  let ?c = "\<lparr>cl_id = i, cl_priority = p, cl_envelope = data_of s i\<rparr>" and ?u = "claim_store w p s"
  have claim: "run svc (claimNextJob w 1) s = (Inr (Some ?c), ?u)"
    using run_claimNextJob [OF orderly_ids_nonempty [OF ord], of w 1] p i by simp
  have u: "jobs ?u = jobs s" "zsets ?u = zsets s" "clock ?u = clock s"
    "lists ?u = (lists s)(queue_of p := butlast (lists s (queue_of p)), processingKey w := [i])"
    "hashes ?u JOB_DATA_KEY = hashes s JOB_DATA_KEY"
    using held by (simp_all add: claim_store_def Let_def i)
  have ids: "i \<in> job_id ` set (jobs ?u)" using r u(1) get_row_in_ids by simp
  have small: "0 \<le> env_attempt e" "env_attempt e + 1 < 2 ^ 31" using e(2,3) bound by simp_all
  obtain res c d where ex: "executes svc cfg ?c (begun w i ?u) = (res, (begun w i ?u)\<lparr>clock := c, draws := d\<rparr>)"
    using executes_frame [of cfg ?c "begun w i ?u"] by blast
  let ?v = "(begun w i ?u)\<lparr>clock := c, draws := d\<rparr>"
  have t': "t = snd (run svc (processJob w ?c cfg) ?u)" using t run_lane_turn [OF claim, of cfg] by simp
  have idv: "cl_id ?c \<in> job_id ` set (jobs ?v)" using ids by (simp add: begun_def)
  have env: "cl_envelope ?c = Some e" using e(1) by simp
  have here: "i = cl_id ?c" by simp
  show ?thesis
  proof (cases res)
    case (Inr v)
    have "t = released w i (without_data i (settled i Completed [SetCompletedNow, SetError None]
           ''Job completed successfully'' ''Job completed successfully'' ?v))"
      using t' run_execute_job [OF _ _ ex] ids Inr by (simp add: run_processJob)
    then show ?thesis
      using r e(3) u by (auto simp: settle_defs data_of_def fun_eq_iff)
  next
    case (Inl err)
    have fail: "run svc (processJob w ?c cfg) ?u = run svc (handleFailure w ?c cfg err) ?v"
      using run_execute_job [OF _ _ ex] ids Inl by (simp add: run_processJob)
    show ?thesis
    proof (cases "env_attempt e + 1 \<le> env_maxRetries e")
      case True
      obtain l a b where "run svc (handleFailure w ?c cfg err) ?v = (Inr (OutRetryScheduled b),
         released w i (delayed_again (e\<lparr>env_attempt := env_attempt e + 1\<rparr>) (clock ?v + b) i
           (settled i Delayed [SetAttempt (Some (env_attempt e + 1)),
             SetError (Some (message_of err)), SetScheduledIn b] l a (?v\<lparr>draws := Suc (draws ?v)\<rparr>))))"
        using run_handleFailure_retry [where w = w and cfg = cfg and err = err, OF idv here env True small refl] by blast
      then have "t = released w i (delayed_again (e\<lparr>env_attempt := env_attempt e + 1\<rparr>) (clock ?v + b) i
           (settled i Delayed [SetAttempt (Some (env_attempt e + 1)),
             SetError (Some (message_of err)), SetScheduledIn b] l a (?v\<lparr>draws := Suc (draws ?v)\<rparr>)))"
        using t' fail by simp
      then show ?thesis
        using r e u by (auto simp: settle_defs data_of_def fun_eq_iff)
    next
      case False
      obtain l where "run svc (handleFailure w ?c cfg err) ?v = (Inr OutDead,
         released w i (without_data i (settled i Dead
           [SetAttempt (Some (env_attempt e + 1)), SetError (Some (message_of err))] l
           ''Moved to dead-letter queue (retries exhausted)'' ?v)))"
        using run_handleFailure_dead [where w = w and cfg = cfg and err = err, OF idv here env _ small] False by auto
      then have "t = released w i (without_data i (settled i Dead
           [SetAttempt (Some (env_attempt e + 1)), SetError (Some (message_of err))] l
           ''Moved to dead-letter queue (retries exhausted)'' ?v))"
        using t' fail by simp
      then show ?thesis
        using r e u by (auto simp: settle_defs data_of_def fun_eq_iff)
    qed
  qed
qed

lemma orderly_turn:
  assumes "orderly s" and "run svc (lane_turn w cfg) s = (x, t)"
    and bound: "\<forall>i r. get_row i (jobs s) = Some r \<longrightarrow> attempt r + 1 < 2 ^ 31"
  shows "orderly t \<and> lifecycle s t"
proof (cases "first_ready s")
  case None
  then have "t = s" using assms run_idle_turn [OF orderly_ids_nonempty] first_ready_None by simp
  then show ?thesis using assms(1) lifecycle_refl by simp
next
  case (Some p)
  have inv: "sys_inv t" using run_ok [OF ok_lane_turn, of s w cfg] assms by (simp add: orderly_def)
  define i where "i = last (lists s (queue_of p))"
  have ready: "lists s (queue_of p) \<noteq> []" "p \<in> set PRIORITIES" using first_ready_Some [OF Some] by simp_all
  then have mem: "i \<in> set (lists s (queue_of p))" unfolding i_def by simp
  then obtain r where r: "get_row i (jobs s) = Some r" using placed_known(1) [OF assms(1)] by blast
  note place = orderly_row [OF assms(1) r]
  have "count_list (lists s (queue_of p)) i \<noteq> 0" using mem by (simp add: not_listed)
  then have st: "status r = Queued" "priority r = p"
    using place(1,2) ready(2) by (auto simp: in_place_def split: if_splits)
  have "attempt r + 1 < 2 ^ 31" using bound r by blast
  note settles = turn_settles [OF assms(1) Some i_def r this assms(2)]
  obtain r' where r': "get_row i (jobs t) = Some r'" "0 \<le> attempt r'" "status r' \<in> {Completed, Dead, Delayed}"
    "status r' = Delayed \<Longrightarrow> i \<in> zmembers (zsets t DELAYED_KEY) \<and> (\<exists>e. data_of t i = Some e \<and> env_attempt e = attempt r')"
    "status r' \<noteq> Delayed \<Longrightarrow> data_of t i = None \<and> zsets t = zsets s"
    using settles by auto
  have butlast: "count_list (butlast (lists s (queue_of p))) j = count_list (lists s (queue_of p)) j - (if j = i then 1 else 0)" for j
    using count_list_butlast [OF ready(1), of j] by (auto simp: i_def)
  have lists: "lists t = (lists s)(queue_of p := butlast (lists s (queue_of p)), processingKey w := [])"
    using settles by blast
  have same_prio: "priority r' = priority r"
  proof -
    have "sys_rely s t" using run_rely [OF ok_lane_turn, of s w cfg] assms by (simp add: orderly_def)
    then show ?thesis using r r'(1) by (force simp: sys_rely_def kept_rows_def same_identity_def)
  qed
  show ?thesis
  proof (rule orderly_update [OF assms(1) inv, of i])
    show "lists t (processingKey v) = []" for v using assms(1) by (simp add: lists orderly_def)
    show "same_place j s t" if "j \<noteq> i" for j
      using that settles butlast [of j] unfolding same_place_def lists by auto
    show "in_place t q" if "get_row i (jobs t) = Some q" for q
    proof -
      have q: "q = r'" using that r'(1) by simp
      have "count_list (lists t (queue_of p')) i = 0" if "p' \<in> set PRIORITIES" for p'
        using place(1,2) st butlast [of i] that by (auto simp: lists in_place_def)
      moreover have "job_id r' = i" using get_row_Some [OF r'(1)] by simp
      moreover have "i \<notin> zmembers (zsets s DELAYED_KEY)" using place(1,2) st by (auto simp: in_place_def)
      ultimately show ?thesis using r'(2-5) by (auto simp: q in_place_def)
    qed
    show "status_of i t = status_of i s \<or> moves_on (status_of i s) (status_of i t)"
      using r'(1,3) r st by (auto simp: status_of_def intro: moves_on.intros)
  qed
qed

lemma orderly_promote:
  assumes "orderly s" and "run svc (promoteDueDelayedJobs limit) s = (x, t)"
  shows "orderly t \<and> lifecycle s t"
proof -
  have inv: "sys_inv t" using run_ok [OF ok_promoteDueDelayedJobs, of s limit] assms by (simp add: orderly_def)
  define due where "due = zrange 0 (clock s) 0 limit (zsets s DELAYED_KEY)"
  have dist: "distinct due" unfolding due_def by (rule distinct_zrange [OF placed_known(4) [OF assms(1)]])
  have row: "\<exists>r e. get_row i (jobs s) = Some r \<and> in_place s r \<and> job_id r = i \<and> status r = Delayed \<and>
      priority r \<in> set PRIORITIES \<and> data_of s i = Some e \<and> env_attempt e = attempt r \<and> env_priority e = priority r"
    if "i \<in> set due" for i
  proof -
    have z: "i \<in> zmembers (zsets s DELAYED_KEY)"
      using that set_zrange unfolding due_def zmembers_def by fastforce
    then obtain r where r: "get_row i (jobs s) = Some r" using placed_known(2) [OF assms(1)] by blast
    note place = orderly_row [OF assms(1) r]
    have st: "status r = Delayed" using place(1,2) z by (simp add: in_place_def)
    then obtain e where e: "data_of s i = Some e" "env_attempt e = attempt r" using place(1,2) by (auto simp: in_place_def)
    then have "agrees e r" using place(5) by blast
    then show ?thesis using r place(1-3) st e by (auto simp: agrees_def)
  qed
  have "promotable s i" if "i \<in> set due" for i
    using row [OF that] that set_zrange unfolding promotable_def due_def zmembers_def
    by (auto dest: get_row_in_ids) (metis image_eqI)
  then have "\<forall>i \<in> set due. promotable s i" by blast
  from run_promote_each [OF dist this, of 0]
  obtain s' where s': "run svc (promote_each due 0) s = (Inr (length due), s')"
    "\<forall>p. lists s' (queue_of p) = rev (filter (\<lambda>i. data_priority s i = p) due) @ lists s (queue_of p)"
    "\<forall>w. lists s' (processingKey w) = lists s (processingKey w)"
    "zsets s' DELAYED_KEY = filter (\<lambda>e. zmember e \<notin> set due) (zsets s DELAYED_KEY)"
    "hashes s' = hashes s"
    "\<forall>i. get_row i (jobs s') = (if i \<in> set due then map_option (promoted_row (clock s)) (get_row i (jobs s))
        else get_row i (jobs s))"
    by auto
  have t: "t = s'" using assms(2) s'(1) by (simp add: run_promoteDue due_def)
  have data: "data_of t j = data_of s j" for j by (simp add: t data_of_def s'(5))
  have cnt: "count_list (rev (filter (\<lambda>i. data_priority s i = p) due)) j =
      (if j \<in> set due \<and> data_priority s j = p then 1 else 0)" for p j
    using dist by (simp add: count_list_rev count_list_filter_distinct)
  have z: "j \<in> zmembers (zsets t DELAYED_KEY) \<longleftrightarrow> j \<in> zmembers (zsets s DELAYED_KEY) \<and> j \<notin> set due" for j
    by (auto simp: t s'(4) zmembers_def)
  have placed: "in_place t q \<and> (status_of j t = status_of j s \<or> moves_on (status_of j s) (status_of j t))"
    if q: "get_row j (jobs t) = Some q" for j q
  proof (cases "j \<in> set due")
    case True
    obtain r e where r: "get_row j (jobs s) = Some r" "in_place s r" "job_id r = j" "status r = Delayed"
      "priority r \<in> set PRIORITIES" "data_of s j = Some e" "env_attempt e = attempt r" "env_priority e = priority r"
      using row [OF True] by blast
    have "q = promoted_row (clock s) r" using q r(1) True s'(6) by (simp add: t)
    moreover have "data_priority s j = priority r" using r(6,8) by (simp add: data_priority_def)
    ultimately show ?thesis
      using r True s'(2) cnt z data
      by (auto simp: in_place_def promoted_row_def t status_of_def s'(6) intro: moves_on.intros)
  next
    case False
    then have r: "get_row j (jobs s) = Some q" using q s'(6) by (simp add: t)
    have "same_place j s t"
      using False s'(2,6) cnt z data by (simp add: same_place_def t)
    then show ?thesis using in_place_same r orderly_row(1) [OF assms(1) r] q by (auto simp: status_of_def)
  qed
  moreover have "status_of j t = status_of j s" if "get_row j (jobs t) = None" for j
    using that s'(6) by (auto simp: t status_of_def split: if_splits)
  ultimately have "lifecycle s t"
    unfolding lifecycle_def by (metis not_None_eq)
  then show ?thesis using inv placed s'(3) assms(1) by (auto simp: orderly_def t)
qed

end

lemma orderly_time:
  assumes "orderly s" and "0 \<le> n"
  shows "orderly (s\<lparr>clock := clock s + n\<rparr>) \<and> lifecycle s (s\<lparr>clock := clock s + n\<rparr>)"
proof (rule orderly_frame [OF assms(1)])
  show "sys_inv (s\<lparr>clock := clock s + n\<rparr>)"
    using rely_inv [OF rely_clock, of s "s\<lparr>clock := clock s + n\<rparr>"] assms by (auto simp: passes_def orderly_def)
qed simp_all

lemma orderly_empty: "orderly empty_store"
  using sys_inv_empty by (simp add: orderly_def empty_store_def)

lemma orderly_operation:
  assumes "services svc out" and "operation svc s t" and "orderly s"
  shows "orderly t \<and> lifecycle s t"
  using assms(2)
proof cases
  case submit
  then show ?thesis by (elim services.orderly_submit [OF assms(1,3)])
next
  case fire
  then show ?thesis by (elim services.orderly_fire [OF assms(1,3)])
next
  case turn
  then show ?thesis by (intro services.orderly_turn [OF assms(1,3)])
next
  case promote
  then show ?thesis by (elim services.orderly_promote [OF assms(1,3)])
next
  case retry
  then show ?thesis by (elim services.orderly_retry [OF assms(1,3)])
next
  case cancel
  then show ?thesis by (elim services.orderly_cancel [OF assms(1,3)])
next
  case time
  then show ?thesis using orderly_time [OF assms(3)] by simp
qed

lemma orderly_operations:
  assumes "services svc out" and "(operation svc)\<^sup>*\<^sup>* s t" and "orderly s"
  shows "orderly t \<and> (moves_on\<^sup>*\<^sup>*) (status_of i s) (status_of i t)"
  using assms(2,3)
proof (induction rule: rtranclp_induct)
  case (step t u)
  then have "orderly t" and "(moves_on\<^sup>*\<^sup>*) (status_of i s) (status_of i t)" by simp_all
  moreover from this(1) have "orderly u" "status_of i u = status_of i t \<or> moves_on (status_of i t) (status_of i u)"
    using orderly_operation [OF assms(1) step.hyps(2)] by (auto simp: lifecycle_def)
  ultimately show ?case by (metis rtranclp.rtrancl_into_rtrancl)
qed simp

text \<open>A completed job takes no further arrow.\<close>

inductive_cases completed_moves: "moves_on (Some Completed) st"

lemma completed_stays: "(moves_on\<^sup>*\<^sup>*) (Some Completed) st \<Longrightarrow> st = Some Completed"
  by (induction rule: rtranclp_induct) (auto elim: completed_moves)

text \<open>The store after the first submission.\<close>

definition demo_created :: store where
  "demo_created = snd (run mem_svc (enqueueJob demo_config demo_request) empty_store)"

lemma demo_created_row:
  "jobs demo_created = [new_job_row demo_config demo_request ''u'' 0]"
  "get_row ''u'' (jobs demo_created) = Some (new_job_row demo_config demo_request ''u'' 0)"
  "lists demo_created = (\<lambda>_. [])(queue_of ''high'' := [''u''])"
  "data_of demo_created ''u'' = Some (toEnvelope (new_job_row demo_config demo_request ''u'' 0))"
proof -
  let ?row = "new_job_row demo_config demo_request (gen_uuid mem_outside empty_store) (clock empty_store)"
  have u: "gen_uuid mem_outside empty_store = ''u''" "clock empty_store = 0"
    by (simp_all add: mem_outside_def mem_uuid_def empty_store_def)
  have "existing_job empty_store demo_request = None"
    by (simp add: existing_job_def demo_defs str_get_def)
  moreover have "insert_job_error (jobs empty_store) ?row = None"
    by (simp add: demo_defs row_defs)
  ultimately have c: "demo_created = snd (run mem_svc (enqueue_new demo_config demo_request) empty_store)"
    and new: "insert_job_error (jobs empty_store) ?row = None"
    unfolding demo_created_def by (simp_all add: mem.run_enqueueJob_new)
  note c = c [unfolded mem.run_enqueue_new [OF refl new refl], unfolded snd_conv]
  show "jobs demo_created = [new_job_row demo_config demo_request ''u'' 0]"
    and "get_row ''u'' (jobs demo_created) = Some (new_job_row demo_config demo_request ''u'' 0)"
    and "lists demo_created = (\<lambda>_. [])(queue_of ''high'' := [''u''])"
    and "data_of demo_created ''u'' = Some (toEnvelope (new_job_row demo_config demo_request ''u'' 0))"
    unfolding c u by (simp_all add: empty_store_def demo_request_def new_job_row_def data_of_def)
qed

lemma demo_created_reached: "(operation mem_svc)\<^sup>*\<^sup>* empty_store demo_created"
  by (intro r_into_rtranclp operation.submit) (simp add: demo_created_def prod_eq_iff)

section \<open>Properties\<close>

text \<open>
  C4: Every job in its place. After any sequence of submissions, recurring jobs, turns of lanes,
  promotions, retries and cancellations from the empty store on, a queued job is exactly once
  in the list of its priority and in no other, a delayed job is in the delayed set and in no
  list, every other job is in neither; no job is left in a processing list or active; and the
  job data are there, with the type, payload, priority and attempt of the row, exactly for the
  jobs that are still to run.
\<close>

theorem jobs_in_their_place:
  assumes "services svc out" and "(operation svc)\<^sup>*\<^sup>* empty_store s" and "get_row i (jobs s) = Some r"
  shows "(\<forall>p \<in> set PRIORITIES. count_list (lists s (queue_of p)) i =
       (if status r = Queued \<and> p = priority r then 1 else 0)) \<and>
    (i \<in> zmembers (zsets s DELAYED_KEY) \<longleftrightarrow> status r = Delayed) \<and>
    (\<forall>w. i \<notin> set (lists s (processingKey w))) \<and> status r \<noteq> Active \<and>
    (if status r \<in> {Queued, Delayed}
     then \<exists>e. data_of s i = Some e \<and> agrees e r \<and> env_attempt e = attempt r
     else data_of s i = None)"
proof -
  have ord: "orderly s" using orderly_operations [OF assms(1,2) orderly_empty] by blast
  note place = orderly_row [OF ord assms(3)]
  have "\<forall>w. lists s (processingKey w) = []" using ord by (simp add: orderly_def)
  then show ?thesis using place(1,5) unfolding in_place_def place(2) by auto
qed

theorem jobs_in_their_place_witness:
  "count_list (lists demo_created (queue_of ''high'')) ''u'' = 1 \<and>
   count_list (lists demo_created (queue_of ''low'')) ''u'' = 0 \<and>
   ''u'' \<notin> zmembers (zsets demo_created DELAYED_KEY)"
  using jobs_in_their_place [OF mem.services_axioms demo_created_reached demo_created_row(2)]
  by (simp add: new_job_row_def Let_def demo_request_def PRIORITIES_def)

text \<open>
  C5: The operations refine the life cycle: each moves any job by one of its arrows or not at all,
  so that any sequence of operations is a path of the life cycle; a completed job stays
  completed, whatever is retried, cancelled or claimed afterwards.
\<close>

theorem jobs_follow_lifecycle:
  assumes "services svc out" and "(operation svc)\<^sup>*\<^sup>* empty_store s" and "operation svc s t"
    and "(operation svc)\<^sup>*\<^sup>* t u"
  shows "(status_of i t = status_of i s \<or> moves_on (status_of i s) (status_of i t)) \<and>
    (moves_on\<^sup>*\<^sup>*) (status_of i t) (status_of i u) \<and>
    (status_of i t = Some Completed \<longrightarrow> status_of i u = Some Completed)"
proof -
  have ord: "orderly s" using orderly_operations [OF assms(1,2) orderly_empty] by blast
  note one = orderly_operation [OF assms(1,3) ord]
  then have "(moves_on\<^sup>*\<^sup>*) (status_of i t) (status_of i u)"
    using orderly_operations [OF assms(1,4)] by blast
  then show ?thesis using one completed_stays by (auto simp: lifecycle_def)
qed

theorem jobs_follow_lifecycle_witness:
  "\<exists>t. operation mem_svc demo_created t \<and> status_of ''u'' t = Some Completed \<and>
     status_of ''u'' (t\<lparr>clock := clock t + 1\<rparr>) = Some Completed"
proof -
  have order: "claim_order demo_created = [''u'']"
    by (simp add: claim_order_eq demo_created_row(3) PRIORITIES_def)
  then have "noop_ready demo_created"
    using demo_created_row by (auto simp: noop_ready_def ids_nonempty_def status_of_def toEnvelope_def
        new_job_row_def Let_def demo_request_def)
  moreover have "first_ready demo_created = Some ''high''"
    by (simp add: first_ready_def demo_created_row(3) PRIORITIES_def)
  moreover have "last (lists demo_created (queue_of ''high'')) = ''u''" by (simp add: demo_created_row(3))
  ultimately have turn: "run mem_svc (lane_turn ''w1'' demo_worker) demo_created =
      (Inr (), noop_done ''w1'' ''high'' ''u'' demo_created)"
    by (intro mem.run_noop_turn) simp_all
  let ?t = "noop_done ''w1'' ''high'' ''u'' demo_created"
  have step: "operation mem_svc demo_created ?t"
  proof (rule operation.turn [OF turn])
    show "\<forall>i r. get_row i (jobs demo_created) = Some r \<longrightarrow> attempt r + 1 < 2 ^ 31"
      using get_row_Some by (fastforce simp: demo_created_row(1))
  qed
  have st: "status_of ''u'' ?t = Some Completed"
    by (rule noop_done_status) (simp add: status_of_def demo_created_row(2))
  have later: "(operation mem_svc)\<^sup>*\<^sup>* ?t (?t\<lparr>clock := clock ?t + 1\<rparr>)"
    by (intro r_into_rtranclp operation.time) auto
  have "status_of ''u'' (?t\<lparr>clock := clock ?t + 1\<rparr>) = Some Completed"
    using jobs_follow_lifecycle [OF mem.services_axioms demo_created_reached step later] st by blast
  then show ?thesis using step st by blast
qed

end
