(* ===== verification/Interleaving.thy ===== *)
theory Interleaving
  imports System
begin

text \<open>
  What interleaving and stopping do to the places a job is in. Lanes of any number of workers,
  command by command between each other, never get hold of the same job: claiming is one atomic
  move. Where the code needs two commands for a move (submission, promotion, manual retry), a
  stop or another process between them strands or doubles a job.
\<close>

section \<open>Lanes of many workers at the same lists\<close>

text \<open>The lists that jobs wait in and the processing lists of the workers \<open>W\<close>, put together.\<close>

definition lane_keys :: "string set \<Rightarrow> string set" where
  "lane_keys W = queue_of ` set PRIORITIES \<union> processingKey ` W"

definition entries :: "string set \<Rightarrow> store \<Rightarrow> string multiset" where
  "entries W s = (\<Sum>k \<in> lane_keys W. mset (lists s k))"

definition no_new_entries :: "string set \<Rightarrow> store \<Rightarrow> store \<Rightarrow> bool" where
  "no_new_entries W s t \<longleftrightarrow> entries W t \<subseteq># entries W s"

lemma no_new_entries_order: "reflp (no_new_entries W)" "transp (no_new_entries W)"
  unfolding no_new_entries_def by (auto intro!: reflpI transpI intro: subset_mset.trans)

lemma no_new_entries_trans: "no_new_entries W s t \<Longrightarrow> no_new_entries W t u \<Longrightarrow> no_new_entries W s u"
  using no_new_entries_order(2) by (rule transpD)

lemma no_new_entries_same: "lists t = lists s \<Longrightarrow> no_new_entries W s t"
  by (simp add: no_new_entries_def entries_def)

lemma finite_lane_keys [simp]: "finite W \<Longrightarrow> finite (lane_keys W)"
  by (simp add: lane_keys_def)

text \<open>A move between two of the lists keeps every entry, removing one keeps the others.\<close>

lemma entries_split:
  assumes "finite W" and "k \<in> lane_keys W"
  shows "entries W s = mset (lists s k) + (\<Sum>k \<in> lane_keys W - {k}. mset (lists s k))"
  unfolding entries_def using sum.remove [OF finite_lane_keys [OF assms(1)] assms(2)] .

lemma entries_split2:
  assumes "finite W" and "k \<in> lane_keys W" and "d \<in> lane_keys W" and "k \<noteq> d"
  shows "entries W s = mset (lists s k) + (mset (lists s d) + (\<Sum>k \<in> lane_keys W - {k} - {d}. mset (lists s k)))"
proof -
  have "(\<Sum>k \<in> lane_keys W - {k}. mset (lists s k)) =
      mset (lists s d) + (\<Sum>k \<in> lane_keys W - {k} - {d}. mset (lists s k))"
    by (rule sum.remove) (use assms in auto)
  then show ?thesis using entries_split [OF assms(1,2), of s] by simp
qed

lemma sum_submset: "(\<And>k. k \<in> A \<Longrightarrow> f k \<subseteq># g k) \<Longrightarrow> (\<Sum>k \<in> A. f k) \<subseteq># (\<Sum>k \<in> A. g k)"
  by (induction A rule: infinite_finite_induct) (auto intro: subset_mset.add_mono)

lemma entries_lrem: "no_new_entries W s (s\<lparr>lists := (lists s)(k := removeAll i (lists s k))\<rparr>)"
  unfolding no_new_entries_def entries_def
  by (rule sum_submset) (simp add: removeAll_filter_not_eq)

lemma entries_move:
  assumes "finite W" and "p \<in> set PRIORITIES" and "w \<in> W"
  shows "entries W (snd (move (queue_of p) (processingKey w) RIGHT LEFT s)) = entries W s"
proof (cases "lists s (queue_of p) = []")
  case False
  let ?t = "snd (move (queue_of p) (processingKey w) RIGHT LEFT s)"
  have keys: "queue_of p \<in> lane_keys W" "processingKey w \<in> lane_keys W"
    using assms by (simp_all add: lane_keys_def)
  have rest: "(\<Sum>k \<in> lane_keys W - {queue_of p} - {processingKey w}. mset (lists ?t k)) =
      (\<Sum>k \<in> lane_keys W - {queue_of p} - {processingKey w}. mset (lists s k))"
    by (rule sum.cong) (auto simp: move_queue)
  have "mset (lists s (queue_of p)) = add_mset (last (lists s (queue_of p))) (mset (butlast (lists s (queue_of p))))"
    using False by (metis append_butlast_last_id mset.simps(2) mset_append mset_rev rev.simps(2) rev_append union_commute add_mset_add_single mset_single_iff_right)
  then show ?thesis
    unfolding entries_split2 [OF assms(1) keys list_keys_disjoint(1)] rest
    using False by (simp add: move_queue)
qed (simp add: move_queue)

text \<open>What the lanes ask of Redis: they move jobs to their own lists, and push to none.\<close>

fun lane_command :: "string set \<Rightarrow> cmd \<Rightarrow> bool" where
  "lane_command W (Redis (LPUSH k i)) = False"
| "lane_command W (Redis (EVAL f)) = False"
| "lane_command W (Redis (LMOVE k d x y)) =
     (x = RIGHT \<and> y = LEFT \<and> (\<exists>p \<in> set PRIORITIES. k = queue_of p) \<and> (\<exists>w \<in> W. d = processingKey w))"
| "lane_command W (Redis (BLMOVE k d x y n)) =
     (x = RIGHT \<and> y = LEFT \<and> (\<exists>p \<in> set PRIORITIES. k = queue_of p) \<and> (\<exists>w \<in> W. d = processingKey w))"
| "lane_command W _ = True"

lemma lane_helpers [simp]:
  "all_commands (lane_command W) (process_logEvent i st m)" "all_commands (lane_command W) (process_publish i st m)"
  "all_commands (lane_command W) (releaseJob w i)" "all_commands (lane_command W) (heartbeat i)"
  "all_commands (lane_command W) (registerWorker w)" "all_commands (lane_command W) (deregisterWorker w)"
  by (simp_all add: process_logEvent_def process_publish_def releaseJob_def heartbeat_def
      registerWorker_def deregisterWorker_def)

lemma lane_claim_from:
  "w \<in> W \<Longrightarrow> set ps \<subseteq> set PRIORITIES \<Longrightarrow> all_commands (lane_command W) (claim_from w n ps)"
  by (induction ps) (auto simp: Let_def queueKey_ok)

lemma lane_handler: "all_commands (lane_command W) (call_handler h pl n)"
  by (cases h) (auto simp: noop_def sendEmail_def Let_def)

lemma lane_withTimeout: "all_commands (lane_command W) p \<Longrightarrow> all_commands (lane_command W) (withTimeout p l ms)"
  by (induction p arbitrary: ms) (auto split: cmd.split)

lemma lane_handleFailure: "all_commands (lane_command W) (handleFailure w c cfg err)"
  by (auto simp: handleFailure_def Let_def intro!: all_commands_and_then split: option.split)

lemma lane_processJob: "all_commands (lane_command W) (processJob w c cfg)"
  by (auto simp: processJob_def execute_job_def Let_def lane_withTimeout lane_handler lane_handleFailure
      simp del: and_then_call catch_call intro!: all_commands_and_then all_commands_catch)

lemma lane_turn: "w \<in> W \<Longrightarrow> all_commands (lane_command W) (lane_turn w cfg)"
  by (auto simp: lane_turn_def claimNextJob_def lane_claim_from lane_processJob
      simp del: and_then_call catch_call
      intro!: all_commands_and_then all_commands_catch split: sum.split option.split)

lemma lane_runLane: "w \<in> W \<Longrightarrow> all_commands (lane_command W) (runLane w cfg ds)"
  by (induction ds) (auto intro!: all_commands_and_then lane_turn)

context services begin

lemma lane_no_new:
  assumes "finite W" and "lane_command W c"
  shows "no_new_entries W s (snd (svc c s))"
proof -
  have unchanged: ?thesis if "lists (snd (svc c s)) = lists s"
    using that by (rule no_new_entries_same)
  show ?thesis
  proof (cases c)
    case (Redis r)
    show ?thesis
    proof (cases r)
      case (LREM k i)
      then show ?thesis using Redis by (simp add: laws entries_lrem)
    next
      case (LMOVE k d x y)
      then show ?thesis using Redis assms by (auto simp: laws no_new_entries_def entries_move)
    next
      case (BLMOVE k d x y n)
      then show ?thesis using Redis assms by (auto simp: laws no_new_entries_def entries_move)
    qed (use Redis assms(2) in \<open>auto simp: laws intro: no_new_entries_same\<close>)
  next
    case (Pg q)
    show ?thesis
      by (rule unchanged) (cases q; simp add: Pg laws Let_def split: option.split)
  qed (auto simp: laws intro: no_new_entries_same)
qed

end

text \<open>A program all of whose commands keep a transitive relation is safe under it.\<close>

lemma safe_uniform:
  assumes "\<And>c s. P c \<Longrightarrow> R s (snd (svc c s))" and "reflp R" and "transp R"
    and "\<And>s t. I s \<Longrightarrow> R s t \<Longrightarrow> I t"
  shows "all_commands P p \<Longrightarrow> I s \<Longrightarrow> safe svc R R I (\<lambda>_ _. True) (\<lambda>_ _. True) p s"
proof (induction p arbitrary: s)
  case (Await c k)
  have later: "safe svc R R I (\<lambda>_ _. True) (\<lambda>_ _. True) (k r) t" if "I t" for r t
    using Await.IH [of "k r"] Await.prems(1) that by simp
  show ?case
    using Await.prems assms(1,4) later by (simp, blast)
qed (use assms(4) in auto)

text \<open>The processes: lanes, heartbeat timers, and the registration of the workers \<open>W\<close>.\<close>

definition lane_starts :: "string set \<Rightarrow> store \<Rightarrow> unit prog \<Rightarrow> bool" where
  "lane_starts W s p \<longleftrightarrow> (\<exists>w \<in> W. (\<exists>cfg answers. p = runLane w cfg answers) \<or>
     p = registerWorker w \<or> p = deregisterWorker w \<or> (\<exists>i. p = heartbeat i))"

sublocale services < lanes: rely_guarantee svc "no_new_entries W" "\<lambda>s. finite W \<and> no_new_entries W s0 s" passes "lane_starts W"
  for W s0
proof
  show "reflp (no_new_entries W)" "transp (no_new_entries W)" by (rule no_new_entries_order)+
  show "no_new_entries W s s'" if "passes s s'" for s s'
    using that by (auto simp: passes_def intro: no_new_entries_same)
  show "finite W \<and> no_new_entries W s0 s'" if "finite W \<and> no_new_entries W s0 s" "no_new_entries W s s'" for s s'
    using that no_new_entries_trans by blast
  show "safe svc (no_new_entries W) (no_new_entries W) (\<lambda>s. finite W \<and> no_new_entries W s0 s) (\<lambda>_ _. True) (\<lambda>_ _. True) p s"
    if I: "finite W \<and> no_new_entries W s0 s" and "lane_starts W s p" for s p
  proof (rule safe_uniform [where P = "lane_command W"])
    show "all_commands (lane_command W) p"
      using that by (auto simp: lane_starts_def lane_runLane)
  qed (use I no_new_entries_order no_new_entries_trans lane_no_new in blast)+
qed

context services begin

lemma lanes_no_new:
  assumes "sys_reach svc passes (lane_starts W) s0 (s, ps)" and "finite W"
  shows "no_new_entries W s0 s"
  using lanes.invariant_reach [OF assms(1)] assms(2) reflpD [OF no_new_entries_order(1)] by simp

end

text \<open>
  C9: However the lanes, heartbeat timers and registrations of any number of workers interleave,
  crash or lose their connections, a job that waits once is never in the hands of two workers,
  never waiting and held at the same time, and never held twice: as long as no reaper and no
  operator intervenes, a submitted job is executed by one lane.
\<close>

theorem lanes_never_share_a_job:
  assumes "services svc out" and "finite W" and "sys_reach svc passes (lane_starts W) s0 (s, ps)"
    and "count (entries W s0) i \<le> 1" and "w \<in> W" and "i \<in> set (lists s (processingKey w))"
  shows "count_list (lists s (processingKey w)) i = 1 \<and>
    (\<forall>v \<in> W. v \<noteq> w \<longrightarrow> i \<notin> set (lists s (processingKey v))) \<and>
    (\<forall>p \<in> set PRIORITIES. i \<notin> set (lists s (queue_of p)))"
proof -
  have k: "processingKey w \<in> lane_keys W" using assms(5) by (simp add: lane_keys_def)
  have one: "count (entries W s) i \<le> 1"
    using services.lanes_no_new [OF assms(1,3,2)] assms(4) mset_subset_eq_count [of "entries W s" "entries W s0" i]
    by (simp add: no_new_entries_def)
  have pos: "count (mset (lists s (processingKey w))) i > 0" using assms(6) by (simp only: count_greater_zero_iff set_mset_mset)
  have other: "i \<notin> set (lists s d)" if "d \<in> lane_keys W" "d \<noteq> processingKey w" for d
  proof
    assume "i \<in> set (lists s d)"
    then have "count (mset (lists s d)) i > 0" by (simp only: count_greater_zero_iff set_mset_mset)
    then show False
      using one pos entries_split2 [OF assms(2) k that(1), of s] that(2)
      by (simp only: count_union)
  qed
  have "count (mset (lists s (processingKey w))) i \<le> 1"
    using one entries_split [OF assms(2) k, of s] by simp
  then have "count_list (lists s (processingKey w)) i = 1"
    using pos by (simp add: count_mset)
  then show ?thesis using other by (auto simp: lane_keys_def)
qed


lemma demo_lane:
  "\<exists>k. runLane ''w1'' cfg [False] = Await (Redis (LMOVE (queue_of ''high'') (processingKey ''w1'') RIGHT LEFT)) k"
  by (simp add: lane_turn_def claimNextJob_def PRIORITIES_def queueKey_def Let_def call_def queue_of_def)

theorem lanes_never_share_a_job_witness:
  "\<exists>s ps. sys_reach mem_svc passes (lane_starts {''w1'', ''w2''}) demo_queues (s, ps) \<and>
     lists s (processingKey ''w1'') = [''a''] \<and> ''a'' \<notin> set (lists s (processingKey ''w2'')) \<and>
     ''a'' \<notin> set (lists s (queue_of ''high''))"
proof -
  let ?W = "{''w1'', ''w2''}" and ?c = "Redis (LMOVE (queue_of ''high'') (processingKey ''w1'') RIGHT LEFT)"
  let ?s = "snd (mem_svc ?c demo_queues)"
  obtain k where k: "runLane ''w1'' undefined [False] = Await ?c k" using demo_lane by blast
  have "sys_step mem_svc passes (lane_starts ?W) (demo_queues, []) (demo_queues, [] @ [Await ?c k])"
    by (rule sys_step.spawned, unfold lane_starts_def) (use k [symmetric] in blast)
  moreover have "sys_step mem_svc passes (lane_starts ?W) (demo_queues, [Await ?c k])
      (?s, [Await ?c k][0 := k (fst (mem_svc ?c demo_queues))])"
    by (rule sys_step.act) auto
  ultimately have r: "\<exists>ps. sys_reach mem_svc passes (lane_starts ?W) demo_queues (?s, ps)"
    using sys_reach.further [OF sys_reach.further [OF sys_reach.initial]] by simp blast
  have l: "lists ?s (processingKey ''w1'') = [''a'']"
    by (simp add: mem.laws move_queue demo_queues_def empty_store_def)
  have "entries ?W demo_queues = {#''a'', ''b'', ''c''#}"
    by (simp add: entries_def lane_keys_def PRIORITIES_def demo_queues_def empty_store_def)
  then show ?thesis
    using r l lanes_never_share_a_job [OF mem.services_axioms, of ?W demo_queues ?s _ "''a''" "''w1''"]
    by (auto simp: PRIORITIES_def)
qed

section \<open>Two operators at once\<close>

text \<open>A process that runs to its end while the others wait.\<close>

lemma steps_run:
  assumes "ps ! n = p" and "n < length ps" and "fst (run svc p s) = Inr ()"
  shows "(sys_step svc E spawn)\<^sup>*\<^sup>* (s, ps) (snd (run svc p s), ps[n := Ret ()])"
  using assms
proof (induction p arbitrary: s ps)
  case (Ret a)
  then show ?case by (metis list_update_id old.unit.exhaust run.simps(1) snd_conv rtranclp.rtrancl_refl)
next
  case (Await c k)
  have "sys_step svc E spawn (s, ps) (snd (svc c s), ps[n := k (fst (svc c s))])"
    by (rule sys_step.act) (use Await.prems in auto)
  then show ?case
    using Await.IH [of "k (fst (svc c s))" "ps[n := k (fst (svc c s))]" "snd (svc c s)"] Await.prems
    by (auto intro: converse_rtranclp_into_rtranclp)
qed simp

text \<open>What a manual retry does from the \<open>UPDATE\<close> on.\<close>

definition retried :: "string \<Rightarrow> job_row \<Rightarrow> store \<Rightarrow> store" where
  "retried i job s =
     s\<lparr>jobs := update_rows i (assign_all (clock s) [SetStatus Queued, SetError None, SetWorkerId None]) (jobs s),
       job_events := job_events s @ [\<lparr>ev_job = i, ev_status = Queued,
            ev_message = Some ''Manually re-queued by operator'', ev_created_at = clock s\<rparr>],
       hashes := (hashes s)(JOB_DATA_KEY := (hashes s JOB_DATA_KEY)(i \<mapsto> VEnv (toEnvelope
            (job\<lparr>status := Queued, error := None, worker_id := None, updated_at := clock s\<rparr>)))),
       lists := (lists s)(queue_of (priority job) := i # lists s (queue_of (priority job))),
       published := published s @ [(EVENTS_CHANNEL, \<lparr>e_jobId = i, e_status = Queued,
            e_message = ''Manually re-queued by operator'', e_ts = clock s\<rparr>)]\<rparr>"

context services begin

text \<open>A retry that has read the row goes on whatever has happened to the job since.\<close>

lemma retry_after_read:
  assumes "status job \<in> {Dead, Failed}"
  obtains k where "done_with (retryJob i) = Await (Pg (SELECT_JOB i)) k"
    and "\<And>t cur rows. row0 rows = Some job \<Longrightarrow> get_row i (jobs t) = Some cur \<Longrightarrow>
      priority cur \<in> set PRIORITIES \<Longrightarrow> run svc (k (Inr rows)) t = (Inr (), retried i cur t)"
proof -
  obtain k where k: "done_with (retryJob i) = Await (Pg (SELECT_JOB i)) k"
    by (simp add: done_with_def retryJob_def getJobById_def call_def)
  have "run svc (k (Inr rows)) t = (Inr (), retried i cur t)"
    if "row0 rows = Some job" "get_row i (jobs t) = Some cur" "priority cur \<in> set PRIORITIES" for t cur rows
  proof -
    have "k (Inr rows) = (case done_with (retryJob i) of Await c k' \<Rightarrow> k' (Inr rows))"
      by (simp add: k)
    also have "run svc \<dots> t = (Inr (), retried i cur t)"
      using that assms get_row_in_ids [OF that(2)]
      by (auto simp: done_with_def retryJob_def getJobById_def call_def [of "Pg (SELECT_JOB i)"]
          retried_def prog_run laws Let_def queueKey_ok)
    finally show ?thesis .
  qed
  then show thesis using that k by blast
qed

end


text \<open>
  C23: Two operators press Retry at the same time: both requests read the dead job before either has
  updated it, both pass the test of the status, and its identifier is in the list twice. Two
  lanes will execute it.
\<close>

theorem concurrent_retries_queue_twice:
  assumes "services svc out" and "get_row i (jobs s) = Some job" and "status job \<in> {Dead, Failed}"
    and "priority job \<in> set PRIORITIES"
  shows "\<exists>t. (sys_step svc E spawn)\<^sup>*\<^sup>* (s, [done_with (retryJob i), done_with (retryJob i)]) (t, [Ret (), Ret ()]) \<and>
    lists t (queue_of (priority job)) = i # i # lists s (queue_of (priority job)) \<and>
    (\<exists>row. get_row i (jobs t) = Some row \<and> status row = Queued \<and> attempt row = attempt job)"
proof -
  let ?p = "done_with (retryJob i)" and ?c = "Pg (SELECT_JOB i)"
  let ?rows = "RJobs (filter (\<lambda>r. job_id r = i) (jobs s))"
  let ?job = "job\<lparr>status := Queued, error := None, worker_id := None, updated_at := clock s\<rparr>"
  let ?t = "retried i job s"
  obtain k where k: "?p = Await ?c k"
    and rest: "\<And>t cur rows. row0 rows = Some job \<Longrightarrow> get_row i (jobs t) = Some cur \<Longrightarrow>
      priority cur \<in> set PRIORITIES \<Longrightarrow> run svc (k (Inr rows)) t = (Inr (), retried i cur t)"
    using services.retry_after_read [OF assms(1,3)] by blast
  have select: "svc ?c s = (Inr ?rows, s)" using services.laws [OF assms(1)] by simp
  have row: "get_row i (jobs ?t) = Some ?job"
    using assms(2) by (simp add: retried_def)
  have first: "run svc (k (Inr ?rows)) s = (Inr (), ?t)"
    and second: "run svc (k (Inr ?rows)) ?t = (Inr (), retried i ?job ?t)"
    using rest assms(2,4) row by simp_all
  let ?go = "\<lambda>a b. (sys_step svc E spawn)\<^sup>*\<^sup>* a b"
  have "?go (s, [?p, ?p]) (s, [k (Inr ?rows), ?p])"
    using sys_step.act [of "[?p, ?p]" 0 ?c k svc s "Inr ?rows" s] k select by auto
  also have "?go (s, [k (Inr ?rows), ?p]) (s, [k (Inr ?rows), k (Inr ?rows)])"
    using sys_step.act [of "[k (Inr ?rows), ?p]" 1 ?c k svc s "Inr ?rows" s] k select by auto
  also (rtranclp_trans) have "?go (s, [k (Inr ?rows), k (Inr ?rows)]) (?t, [Ret (), k (Inr ?rows)])"
    using steps_run [of "[k (Inr ?rows), k (Inr ?rows)]" 0 "k (Inr ?rows)" svc s E spawn] first by simp
  also (rtranclp_trans) have "?go (?t, [Ret (), k (Inr ?rows)]) (retried i ?job ?t, [Ret (), Ret ()])"
    using steps_run [of "[Ret (), k (Inr ?rows)]" 1 "k (Inr ?rows)" svc ?t E spawn] second by simp
  finally (rtranclp_trans) have "?go (s, [?p, ?p]) (retried i ?job ?t, [Ret (), Ret ()])" .
  moreover have "lists (retried i ?job ?t) (queue_of (priority job)) = i # i # lists s (queue_of (priority job))"
    and "\<exists>row. get_row i (jobs (retried i ?job ?t)) = Some row \<and> status row = Queued \<and> attempt row = attempt job"
    using assms(2) by (simp_all add: retried_def)
  ultimately show ?thesis by blast
qed

theorem concurrent_retries_queue_twice_witness:
  "\<exists>t. (sys_step mem_svc passes starts)\<^sup>*\<^sup>*
       (empty_store\<lparr>jobs := [demo_row ''a'' Dead 3]\<rparr>, [done_with (retryJob ''a''), done_with (retryJob ''a'')])
       (t, [Ret (), Ret ()]) \<and> lists t (queue_of ''high'') = [''a'', ''a'']"
proof -
  let ?s = "empty_store\<lparr>jobs := [demo_row ''a'' Dead 3]\<rparr>"
  have row: "get_row ''a'' (jobs ?s) = Some (demo_row ''a'' Dead 3)"
    and st: "status (demo_row ''a'' Dead 3) \<in> {Dead, Failed}"
    and pr: "priority (demo_row ''a'' Dead 3) = ''high''" and known: "''high'' \<in> set PRIORITIES"
    and none: "lists ?s (queue_of ''high'') = []"
    by (simp_all add: demo_row_def PRIORITIES_def empty_store_def)
  show ?thesis
    using concurrent_retries_queue_twice [OF mem.services_axioms row st, unfolded pr none, OF known] by blast
qed

section \<open>Stopping in the middle\<close>

text \<open>A submission up to its \<open>INSERT\<close>.\<close>

context services begin

lemma submission_reaches_insert:
  assumes "given (rq_idempotencyKey rq) = Some k" and "str_get s (idempotencyKey k) = None"
    and "row = new_job_row cfg rq (gen_uuid out s) (clock s)" and "insert_job_error (jobs s) row = None"
  shows "\<exists>q. reaches svc R (enqueueJob cfg rq) s q (s\<lparr>issued := gen_uuid out s # issued s, jobs := jobs s @ [row]\<rparr>)"
proof -
  let ?s = "s\<lparr>issued := gen_uuid out s # issued s\<rparr>" and ?u = "RStr (gen_uuid out s)"
  obtain k1 k2 k3 k4 where prog: "enqueueJob cfg rq = call (Redis (GET (idempotencyKey k))) k1"
    "k1 RNil = call NewUuid k2" "k2 ?u = call Now k3" "k3 (RInt (clock s)) = call (Pg (INSERT_JOB row)) k4"
    by (rule that, (simp add: enqueueJob_def assms(1), (rule refl)?), (simp add: enqueue_new_def, (rule refl)?),
        (simp add: Let_def, (rule refl)?), simp add: assms(3))
  have "reaches svc R (k3 (RInt (clock s))) ?s (k4 (RJobs [row])) (?s\<lparr>jobs := jobs s @ [row]\<rparr>)"
    unfolding prog(4) by (rule reaches_call) (simp add: laws assms(4))
  moreover have "reaches svc R (k2 ?u) ?s (k3 (RInt (clock s))) ?s"
    unfolding prog(3) by (rule reaches_call) (simp add: laws)
  moreover have "reaches svc R (k1 RNil) s (k2 ?u) ?s"
    unfolding prog(2) by (rule reaches_call) (simp add: laws)
  moreover have "reaches svc R (enqueueJob cfg rq) s (k1 RNil) s"
    unfolding prog(1) by (rule reaches_call) (simp add: laws assms(2))
  ultimately show ?thesis using reaches_trans by (metis (no_types))
qed

end


text \<open>The unique index.\<close>

lemma key_taken:
  "idempotency_key r = Some k \<Longrightarrow> Some k \<in> set (map idempotency_key js) \<Longrightarrow> insert_job_error js r \<noteq> None"
  by (simp add: insert_job_error_def)

text \<open>
  C22: A server that stops right after the \<open>INSERT\<close> of a submission leaves a job of status queued or
  delayed that is in no list, has no data, and that nothing looks for. The client, who got no
  answer and submits again under the same idempotency key, is refused with an error: the
  reservation was not yet written, and the unique index knows the key.
\<close>

theorem server_crash_strands_job:
  assumes "services svc out" and "given (rq_idempotencyKey rq) = Some k"
    and "str_get s (idempotencyKey k) = None"
    and "row = new_job_row cfg rq (gen_uuid out s) (clock s)" and "insert_job_error (jobs s) row = None"
  shows "\<exists>q t m. reaches svc (=) (enqueueJob cfg rq) s q t \<and>
    jobs t = jobs s @ [row] \<and> lists t = lists s \<and> zsets t = zsets s \<and> hashes t = hashes s \<and>
    fst (run svc (enqueueJob cfg rq) t) = Inl (PgError m)"
proof -
  let ?t = "s\<lparr>issued := gen_uuid out s # issued s, jobs := jobs s @ [row]\<rparr>"
  obtain q where q: "reaches svc (=) (enqueueJob cfg rq) s q ?t"
    using services.submission_reaches_insert [OF assms] by blast
  have none: "existing_job ?t rq = None"
    using assms(2,3) by (simp add: existing_job_def str_get_def cong: option.case_cong)
  have "idempotency_key row = Some k" using assms(2,4) by simp
  then obtain m where "insert_job_error (jobs ?t) (new_job_row cfg rq (gen_uuid out ?t) (clock ?t)) = Some m"
    using key_taken [of "new_job_row cfg rq (gen_uuid out ?t) (clock ?t)" k "jobs ?t"] assms(2) by force
  then have "fst (run svc (enqueueJob cfg rq) ?t) = Inl (PgError m)"
    using services.run_enqueueJob_new [OF assms(1) none] services.run_enqueue_refused [OF assms(1)] by simp
  then show ?thesis using q by (intro exI conjI) (assumption, simp_all)
qed

theorem server_crash_strands_job_witness:
  "\<exists>q t m. reaches mem_svc (=) (enqueueJob demo_config demo_request) empty_store q t \<and>
     length (jobs t) = 1 \<and> lists t = (\<lambda>_. []) \<and>
     fst (run mem_svc (enqueueJob demo_config demo_request) t) = Inl (PgError m)"
proof -
  have pre: "given (rq_idempotencyKey demo_request) = Some ''k1''" "str_get empty_store (idempotencyKey ''k1'') = None"
    "insert_job_error (jobs empty_store)
       (new_job_row demo_config demo_request (gen_uuid mem_outside empty_store) (clock empty_store)) = None"
    by (simp_all add: demo_defs str_get_def row_defs)
  have start: "jobs empty_store = []" "lists empty_store = (\<lambda>_. [])" by (simp_all add: empty_store_def)
  obtain q t m where "reaches mem_svc (=) (enqueueJob demo_config demo_request) empty_store q t"
    and "jobs t = jobs empty_store @ [new_job_row demo_config demo_request
        (gen_uuid mem_outside empty_store) (clock empty_store)]" and "lists t = lists empty_store"
    and "fst (run mem_svc (enqueueJob demo_config demo_request) t) = Inl (PgError m)"
    using server_crash_strands_job [OF mem.services_axioms pre(1,2) refl pre(3)] by blast
  then show ?thesis using start by (intro exI conjI) (assumption, simp_all)
qed

text \<open>
  The promoter takes a due job off the delayed set before it pushes it: stopped in between, the
  first due job is neither delayed nor queued.
\<close>

theorem promoter_crash_loses_job:
  assumes "services svc out" and "zrange 0 (clock s) 0 limit (zsets s DELAYED_KEY) = i # is"
  shows "\<exists>q t. reaches svc (=) (promoteDueDelayedJobs limit) s q t \<and>
    zsets t = (zsets s)(DELAYED_KEY := zrem i (zsets s DELAYED_KEY)) \<and>
    lists t = lists s \<and> jobs t = jobs s \<and> hashes t = hashes s"
proof -
  let ?t = "s\<lparr>zsets := (zsets s)(DELAYED_KEY := zrem i (zsets s DELAYED_KEY))\<rparr>"
  have "\<exists>q. reaches svc (=) (promote_each (i # is) 0) s q ?t"
    unfolding promote_each.simps
    by (rule exI, rule reaches_call) (simp add: services.laws [OF assms(1)])
  then obtain q where q: "reaches svc (=) (promote_each (i # is) 0) s q ?t" ..
  obtain k1 k2 where k: "promoteDueDelayedJobs limit = call Now k1"
    "k1 (RInt (clock s)) = call (Redis (ZRANGEBYSCORE DELAYED_KEY 0 (clock s) 0 limit)) k2"
    "k2 (RIds (i # is)) = promote_each (i # is) 0"
    by (rule that, (simp add: promoteDueDelayedJobs_def, (rule refl)?), (simp, (rule refl)?), simp)
  have "reaches svc (=) (k1 (RInt (clock s))) s (k2 (RIds (i # is))) s"
    unfolding k(2) by (rule reaches_call) (simp add: services.laws [OF assms(1)] assms(2))
  moreover have "reaches svc (=) (promoteDueDelayedJobs limit) s (k1 (RInt (clock s))) s"
    unfolding k(1) by (rule reaches_call) (simp add: services.laws [OF assms(1)])
  ultimately have "reaches svc (=) (promoteDueDelayedJobs limit) s q ?t"
    using q unfolding k(3) [symmetric] by (blast intro: reaches_trans)
  then show ?thesis by (intro exI conjI) (assumption, simp_all)
qed

end
