(* ===== verification/Gateway.thy ===== *)
theory Gateway
  imports Routes
begin

text \<open>
  \<open>packages/server/src/ws/gateway.js\<close> and \<open>packages/dashboard/src/ws.js\<close>: the two ends of the
  WebSocket over which job events and statistics reach the dashboard. Both are callbacks on
  events of the runtime: the gateway's on connections, on messages of the Redis subscription
  and on its interval, the client's on the events of its socket.
\<close>

section \<open>The gateway\<close>

text \<open>
  A frame is the JSON text sent. The text of an event is the published message, forwarded as
  it is; the other two carry a \<open>type\<close> field and the time.
\<close>

datatype frame =
    FEvent event
  | FStats queue_stats int
  | FConnected int

record socket =
  sk_open :: bool
  sk_frames :: "frame list"

record gateway =
  gw_clients :: "string list"
  gw_sockets :: "string \<Rightarrow> socket"

definition no_clients :: gateway where
  "no_clients = \<lparr>gw_clients = [], gw_sockets = (\<lambda>_. \<lparr>sk_open = False, sk_frames = []\<rparr>)\<rparr>"

text \<open>\<open>socket.send(frame)\<close>.\<close>

definition send_frame :: "frame \<Rightarrow> string \<Rightarrow> gateway \<Rightarrow> gateway" where
  "send_frame f c g = g\<lparr>gw_sockets := (gw_sockets g)(c := (gw_sockets g c)
     \<lparr>sk_frames := sk_frames (gw_sockets g c) @ [f]\<rparr>)\<rparr>"

text \<open>\<open>for (const socket of clients) if (socket.readyState === socket.OPEN) ...\<close>.\<close>

definition broadcast :: "frame \<Rightarrow> gateway \<Rightarrow> gateway" where
  "broadcast f g =
     fold (\<lambda>c g. if sk_open (gw_sockets g c) then send_frame f c g else g) (gw_clients g) g"

definition on_message :: "string \<Rightarrow> event \<Rightarrow> gateway \<Rightarrow> gateway" where
  "on_message channel message g =
     (if channel \<noteq> EVENTS_CHANNEL then g else broadcast (FEvent message) g)"

text \<open>
  The interval's callback up to its \<open>await\<close>, and the frame it broadcasts after it to the
  clients of that moment; nothing is asked of Redis and Postgres without clients.
\<close>

definition stats_interval :: "nat \<Rightarrow> (queue_stats \<times> int) option prog" where
  "stats_interval clients_size =
     (if clients_size = 0 then Ret None
      else catch_err
        (and_then getQueueStats (\<lambda>stats. call Now (\<lambda>now. Ret (Some (stats, the_int now)))))
        (\<lambda>err. Ret None))"

definition on_stats :: "(queue_stats \<times> int) option \<Rightarrow> gateway \<Rightarrow> gateway" where
  "on_stats result g = (case result of None \<Rightarrow> g | Some (stats, now) \<Rightarrow> broadcast (FStats stats now) g)"

text \<open>A new socket joins the set and is greeted; \<open>close\<close> and \<open>error\<close> take it out.\<close>

definition on_connection :: "string \<Rightarrow> int \<Rightarrow> gateway \<Rightarrow> gateway" where
  "on_connection c now g =
     send_frame (FConnected now) c
       (g\<lparr>gw_clients := (if c \<in> set (gw_clients g) then gw_clients g else gw_clients g @ [c])\<rparr>)"

definition on_gone :: "string \<Rightarrow> gateway \<Rightarrow> gateway" where
  "on_gone c g = g\<lparr>gw_clients := removeAll c (gw_clients g)\<rparr>"

text \<open>
  What can happen to the gateway. \<open>Accepted\<close> is the runtime opening a socket and calling the
  handler; a socket leaves the state \<open>OPEN\<close> (\<open>Dropped\<close>) before its \<open>close\<close> event fires.
\<close>

datatype gw_event =
    Accepted string int
  | Dropped string
  | Gone string
  | Received string event
  | Stats "(queue_stats \<times> int) option"

definition set_open :: "bool \<Rightarrow> string \<Rightarrow> gateway \<Rightarrow> gateway" where
  "set_open b c g = g\<lparr>gw_sockets := (gw_sockets g)(c := (gw_sockets g c)\<lparr>sk_open := b\<rparr>)\<rparr>"

fun gw_handle :: "gw_event \<Rightarrow> gateway \<Rightarrow> gateway" where
  "gw_handle (Accepted c now) g = on_connection c now (set_open True c g)"
| "gw_handle (Dropped c) g = set_open False c g"
| "gw_handle (Gone c) g = on_gone c (set_open False c g)"
| "gw_handle (Received channel message) g = on_message channel message g"
| "gw_handle (Stats result) g = on_stats result g"

section \<open>The client\<close>

record feed =
  fd_events :: "event list"
  fd_stats :: "(queue_stats \<times> int) option"
  fd_connected :: bool
  fd_retryDelay :: int

definition new_feed :: feed where
  "new_feed = \<lparr>fd_events = [], fd_stats = None, fd_connected = False, fd_retryDelay = 1000\<rparr>"

definition socket_onopen :: "feed \<Rightarrow> feed" where
  "socket_onopen st = st\<lparr>fd_connected := True, fd_retryDelay := 1000\<rparr>"

text \<open>\<^term>\<open>None\<close> is a frame that is no JSON.\<close>

definition socket_onmessage :: "nat \<Rightarrow> frame option \<Rightarrow> feed \<Rightarrow> feed" where
  "socket_onmessage maxEvents data st =
     (case data of
        Some (FStats stats t) \<Rightarrow> st\<lparr>fd_stats := Some (stats, t)\<rparr>
      | Some (FConnected _) \<Rightarrow> st
      | Some (FEvent e) \<Rightarrow> st\<lparr>fd_events := take maxEvents (e # fd_events st)\<rparr>
      | None \<Rightarrow> st)"

text \<open>The delay of the timer that connects again, if there is one.\<close>

definition socket_onclose :: "bool \<Rightarrow> feed \<Rightarrow> int option \<times> feed" where
  "socket_onclose closedByCleanup st =
     (let st = st\<lparr>fd_connected := False\<rparr> in
      if closedByCleanup then (None, st)
      else (Some (fd_retryDelay st), st\<lparr>fd_retryDelay := min (fd_retryDelay st * 2) 15000\<rparr>))"

text \<open>The delays of the attempts while none succeeds.\<close>

primrec retry_delays :: "nat \<Rightarrow> feed \<Rightarrow> int option list" where
  "retry_delays 0 st = []"
| "retry_delays (Suc n) st =
     fst (socket_onclose False st) # retry_delays n (snd (socket_onclose False st))"

section \<open>What reaches a client\<close>

text \<open>Sending to one socket leaves the others alone, and a broadcast sends once to each.\<close>

lemma send_frame_other [simp]:
  "gw_clients (send_frame f c g) = gw_clients g"
  "d \<noteq> c \<Longrightarrow> gw_sockets (send_frame f c g) d = gw_sockets g d"
  "sk_open (gw_sockets (send_frame f c g) d) = sk_open (gw_sockets g d)"
  "sk_frames (gw_sockets (send_frame f c g) c) = sk_frames (gw_sockets g c) @ [f]"
  by (simp_all add: send_frame_def)

definition send_open :: "frame \<Rightarrow> string \<Rightarrow> gateway \<Rightarrow> gateway" where
  "send_open f c g = (if sk_open (gw_sockets g c) then send_frame f c g else g)"

lemma broadcast_fold: "broadcast f g = fold (send_open f) (gw_clients g) g"
  by (simp add: broadcast_def send_open_def [abs_def])

lemma send_open_simps [simp]:
  "gw_clients (send_open f c g) = gw_clients g"
  "d \<noteq> c \<Longrightarrow> gw_sockets (send_open f c g) d = gw_sockets g d"
  "sk_open (gw_sockets (send_open f c g) d) = sk_open (gw_sockets g d)"
  by (simp_all add: send_open_def)

lemma fold_send_open:
  "gw_clients (fold (send_open f) cs g) = gw_clients g"
  "sk_open (gw_sockets (fold (send_open f) cs g) d) = sk_open (gw_sockets g d)"
  "d \<notin> set cs \<Longrightarrow> gw_sockets (fold (send_open f) cs g) d = gw_sockets g d"
  by (induction cs arbitrary: g) auto

lemma fold_send_frames:
  "distinct cs \<Longrightarrow> d \<in> set cs \<Longrightarrow> sk_frames (gw_sockets (fold (send_open f) cs g) d) =
    sk_frames (gw_sockets g d) @ (if sk_open (gw_sockets g d) then [f] else [])"
proof (induction cs arbitrary: g)
  case (Cons c cs)
  show ?case
  proof (cases "d = c")
    case True
    then show ?thesis
      using Cons.prems(1) fold_send_open(3) [of c cs f "send_open f c g"] by (simp add: send_open_def [of f c g])
  next
    case False
    then show ?thesis using Cons by simp
  qed
qed simp

lemma broadcast_simps [simp]:
  "gw_clients (broadcast f g) = gw_clients g"
  "sk_open (gw_sockets (broadcast f g) d) = sk_open (gw_sockets g d)"
  "d \<notin> set (gw_clients g) \<Longrightarrow> gw_sockets (broadcast f g) d = gw_sockets g d"
  by (simp_all add: broadcast_fold fold_send_open)

lemma broadcast_frames:
  "distinct (gw_clients g) \<Longrightarrow> d \<in> set (gw_clients g) \<Longrightarrow>
    sk_frames (gw_sockets (broadcast f g) d) =
      sk_frames (gw_sockets g d) @ (if sk_open (gw_sockets g d) then [f] else [])"
  by (simp add: broadcast_fold fold_send_frames)

text \<open>The clients are a set, whatever happens.\<close>

lemma distinct_clients: "distinct (gw_clients g) \<Longrightarrow> distinct (gw_clients (gw_handle e g))"
  by (cases e) (auto simp: on_connection_def set_open_def on_gone_def on_message_def on_stats_def
      distinct_removeAll split: option.split)

lemma distinct_clients_fold: "distinct (gw_clients g) \<Longrightarrow> distinct (gw_clients (fold gw_handle evs g))"
  by (induction evs arbitrary: g) (auto intro: distinct_clients)

text \<open>What one event sends to every open client, and the events that concern a socket itself.\<close>

fun delivered :: "gw_event \<Rightarrow> frame list" where
  "delivered (Received channel message) = (if channel = EVENTS_CHANNEL then [FEvent message] else [])"
| "delivered (Stats result) = (case result of None \<Rightarrow> [] | Some (stats, now) \<Rightarrow> [FStats stats now])"
| "delivered _ = []"

fun about_socket :: "string \<Rightarrow> gw_event \<Rightarrow> bool" where
  "about_socket c (Accepted d now) = (c = d)"
| "about_socket c (Dropped d) = (c = d)"
| "about_socket c (Gone d) = (c = d)"
| "about_socket c _ = False"

definition subscribed :: "string \<Rightarrow> gateway \<Rightarrow> bool" where
  "subscribed c g \<longleftrightarrow> distinct (gw_clients g) \<and> c \<in> set (gw_clients g) \<and> sk_open (gw_sockets g c)"

lemma gw_handle_subscribed:
  assumes "subscribed c g" and "\<not> about_socket c e"
  shows "subscribed c (gw_handle e g)"
    and "sk_frames (gw_sockets (gw_handle e g) c) = sk_frames (gw_sockets g c) @ delivered e"
  using assms distinct_clients [of g e]
  by (cases e; auto simp: subscribed_def on_connection_def set_open_def on_gone_def on_message_def
      on_stats_def broadcast_frames split: option.split)+

lemma fold_subscribed:
  assumes "subscribed c g" and "\<forall>e \<in> set evs. \<not> about_socket c e"
  shows "sk_frames (gw_sockets (fold gw_handle evs g) c) =
    sk_frames (gw_sockets g c) @ concat (map delivered evs)"
  using assms by (induction evs arbitrary: g) (auto simp: gw_handle_subscribed)

lemma accepted_subscribed:
  assumes "distinct (gw_clients g)"
  shows "subscribed c (gw_handle (Accepted c now) g)"
    and "sk_frames (gw_sockets (gw_handle (Accepted c now) g) c) = sk_frames (gw_sockets g c) @ [FConnected now]"
  using assms distinct_clients [of g "Accepted c now"]
  by (auto simp: subscribed_def on_connection_def set_open_def)

text \<open>A socket that never was a client was sent nothing.\<close>

lemma untouched:
  assumes "\<forall>e \<in> set evs. \<not> about_socket c e" and "c \<notin> set (gw_clients g)"
  shows "c \<notin> set (gw_clients (fold gw_handle evs g)) \<and>
    gw_sockets (fold gw_handle evs g) c = gw_sockets g c"
  using assms
proof (induction evs arbitrary: g)
  case (Cons e evs)
  have "c \<notin> set (gw_clients (gw_handle e g)) \<and> gw_sockets (gw_handle e g) c = gw_sockets g c"
    using Cons.prems by (cases e) (auto simp: on_connection_def set_open_def on_gone_def on_message_def
        on_stats_def split: option.split)
  then show ?case using Cons by simp
qed simp

section \<open>What the client shows\<close>

fun frame_events :: "frame list \<Rightarrow> event list" where
  "frame_events [] = []"
| "frame_events (FEvent e # fs) = e # frame_events fs"
| "frame_events (_ # fs) = frame_events fs"

lemma frame_events_append: "frame_events (fs @ gs) = frame_events fs @ frame_events gs"
  by (induction fs rule: frame_events.induct) auto

lemma feed_events:
  "length (fd_events st) \<le> m \<Longrightarrow>
    fd_events (fold (\<lambda>f. socket_onmessage m (Some f)) fs st) = take m (rev (frame_events fs) @ fd_events st)"
proof (induction fs arbitrary: st rule: frame_events.induct)
  case (2 e fs)
  have "take m (xs @ take m (e # ys)) = take m (xs @ e # ys)" for xs ys
    by (simp add: take_append min_def)
  then show ?case using 2 by (simp add: socket_onmessage_def)
qed (auto simp: socket_onmessage_def)

text \<open>The messages among the events of the gateway, as Redis delivers them to the subscription.\<close>

fun messages :: "gw_event list \<Rightarrow> (string \<times> event) list" where
  "messages [] = []"
| "messages (Received channel e # evs) = (channel, e) # messages evs"
| "messages (_ # evs) = messages evs"

lemma frame_events_delivered:
  "frame_events (concat (map delivered evs)) = map snd (filter (\<lambda>m. fst m = EVENTS_CHANNEL) (messages evs))"
  by (induction evs rule: messages.induct) (auto simp: frame_events_append split: option.split)

lemma subscribed_from_start:
  assumes "\<forall>e \<in> set (pre @ post). \<not> about_socket c e"
  shows "sk_frames (gw_sockets (fold gw_handle (pre @ Accepted c t # post) no_clients) c) =
    FConnected t # concat (map delivered post)"
proof -
  let ?g = "fold gw_handle pre no_clients"
  have d: "distinct (gw_clients ?g)" by (rule distinct_clients_fold) (simp add: no_clients_def)
  have "sk_frames (gw_sockets ?g c) = []"
    using untouched [of pre c no_clients] assms by (simp add: no_clients_def)
  then show ?thesis
    using fold_subscribed [OF accepted_subscribed(1) [OF d], of post c t] accepted_subscribed(2) [OF d, of c t]
      assms by simp
qed

lemma feed_of_connected:
  assumes "\<forall>e \<in> set (pre @ post). \<not> about_socket c e"
  shows "fd_events (fold (\<lambda>f. socket_onmessage m (Some f))
      (sk_frames (gw_sockets (fold gw_handle (pre @ Accepted c t # post) no_clients) c)) new_feed) =
    take m (rev (map snd (filter (\<lambda>x. fst x = EVENTS_CHANNEL) (messages post))))"
  unfolding subscribed_from_start [OF assms]
  using feed_events [of new_feed m "FConnected t # concat (map delivered post)"] frame_events_delivered [of post]
  by (simp add: new_feed_def)

lemma delay_after:
  "fd_retryDelay st = min (1000 * 2 ^ k) 15000 \<Longrightarrow>
    retry_delays n st = map (\<lambda>j. Some (min (1000 * 2 ^ (k + j)) 15000)) [0..<n]"
proof (induction n arbitrary: st k)
  case (Suc n)
  have "retry_delays n (snd (socket_onclose False st)) =
      map (\<lambda>j. Some (min (1000 * 2 ^ (Suc k + j)) 15000)) [0..<n]"
    by (rule Suc.IH) (use Suc.prems in \<open>auto simp: socket_onclose_def min_def\<close>)
  moreover have "map (\<lambda>j. Some (min (1000 * 2 ^ (k + j)) 15000)) [0..<Suc n] =
      Some (min (1000 * 2 ^ k) 15000) # map (\<lambda>j. Some (min (1000 * 2 ^ (Suc k + j)) 15000 :: int)) [0..<n]"
    by (subst upt_conv_Cons) (simp_all add: map_Suc_upt [symmetric] del: upt_Suc)
  ultimately show ?case using Suc.prems by (simp add: socket_onclose_def)
qed simp

section \<open>Properties\<close>

text \<open>
  C37: The live stream (FR-6.3). A client that is connected and stays open is sent its greeting
  and then exactly what happens while it is: every message of the events channel, once and in
  order, and every statistics broadcast, whatever other clients come, drop or go. Its feed
  shows the newest \<open>maxEvents\<close> of those events, the newest first.
\<close>

theorem live_feed:
  assumes "\<forall>e \<in> set (pre @ post). \<not> about_socket c e"
    and "fs = sk_frames (gw_sockets (fold gw_handle (pre @ Accepted c t # post) no_clients) c)"
  shows "fs = FConnected t # concat (map delivered post) \<and>
    fd_events (fold (\<lambda>f. socket_onmessage maxEvents (Some f)) fs new_feed) =
      take maxEvents (rev (map snd (filter (\<lambda>m. fst m = EVENTS_CHANNEL) (messages post))))"
  using subscribed_from_start [OF assms(1)] feed_of_connected [OF assms(1)] assms(2) by simp

definition demo_events :: "gw_event list" where
  "demo_events = [Received EVENTS_CHANNEL \<lparr>e_jobId = ''1'', e_status = Queued, e_message = ''m'', e_ts = 0\<rparr>,
     Gone ''b'', Received ''other'' \<lparr>e_jobId = ''2'', e_status = Queued, e_message = ''m'', e_ts = 0\<rparr>,
     Received EVENTS_CHANNEL \<lparr>e_jobId = ''3'', e_status = Active, e_message = ''m'', e_ts = 5\<rparr>]"

theorem live_feed_witness:
  "fd_events (fold (\<lambda>f. socket_onmessage 1 (Some f))
     (sk_frames (gw_sockets (fold gw_handle ([Accepted ''b'' 0] @ Accepted ''a'' 1 # demo_events) no_clients) ''a''))
     new_feed) = [\<lparr>e_jobId = ''3'', e_status = Active, e_message = ''m'', e_ts = 5\<rparr>]"
proof -
  have "\<forall>e \<in> set ([Accepted ''b'' 0] @ demo_events). \<not> about_socket ''a'' e"
    by (simp add: demo_events_def)
  from live_feed [OF this refl, THEN conjunct2, of 1 1] show ?thesis
    by (simp add: demo_events_def)
qed

text \<open>
  Reconnecting: while no attempt succeeds the dashboard waits 1, 2, 4, 8 seconds, doubling
  up to 15 seconds, and a connection that opened resets the wait to one second.
\<close>

theorem reconnect_delays:
  "retry_delays n (socket_onopen st) = map (\<lambda>k. Some (min (1000 * 2 ^ k) 15000)) [0..<n]"
  using delay_after [of "socket_onopen st" 0 n] by (simp add: socket_onopen_def)

text \<open>
  The statistics broadcast: without clients the interval asks nothing of Redis or Postgres,
  and with clients it yields the current statistics and the time; a failing service is logged
  and nothing is broadcast. It never throws, whatever the service does.
\<close>

theorem stats_broadcast:
  assumes "services svc out" and "n > 0"
  shows "\<exists>stats. run svc getQueueStats s = (Inr stats, s) \<and>
      run svc (stats_interval n) s = (Inr (Some (stats, clock s)), s) \<and>
      run any (stats_interval 0) s = (Inr None, s) \<and>
      run (losing (\<lambda>c. c = Pg COUNT_BY_STATUS) svc) (stats_interval n) s = (Inr None, s)"
proof -
  obtain stats where st: "run svc getQueueStats s = (Inr stats, s)"
    using services.run_getQueueStats [OF assms(1)] by blast
  note laws = services.laws [OF assms(1)]
  have "run svc (stats_interval n) s = (Inr (Some (stats, clock s)), s)"
    using st assms(2) by (simp add: stats_interval_def prog_run laws)
  moreover have "run (losing (\<lambda>c. c = Pg COUNT_BY_STATUS) svc) (stats_interval n) s = (Inr None, s)"
    using assms(2) by (simp add: stats_interval_def getQueueStats_def prog_run losing_def laws)
  ultimately show ?thesis using st by (simp add: stats_interval_def)
qed

theorem stats_broadcast_witness:
  "\<exists>stats. run mem_svc (stats_interval 2) demo_delayed = (Inr (Some (stats, clock demo_delayed)), demo_delayed)"
  using stats_broadcast [OF mem.services_axioms, of 2 demo_delayed] by auto

end
