(* ===== verification/Reconnect.thy ===== *)
theory Reconnect
  imports Gateway
begin

text \<open>
  The effect of \<open>useJobEvents\<close> in \<open>dashboard/src/ws.js\<close>: the socket it opens, the timer that
  opens the next one after a close, and the cleanup that ends both.
\<close>

section \<open>The effect\<close>

text \<open>\<open>import.meta.env.VITE_WS_URL || `${proto}://${window.location.hostname}:3000/ws`\<close>.\<close>

definition ws_url :: "string option \<Rightarrow> string \<Rightarrow> string \<Rightarrow> string" where
  "ws_url configured protocol hostname =
     (let proto = (if protocol = ''https:'' then ''wss'' else ''ws'') in
      case given configured of Some url \<Rightarrow> url | None \<Rightarrow> proto @ ''://'' @ hostname @ '':3000/ws'')"

text \<open>\<open>hk_socket\<close>: the last socket has not fired \<open>close\<close> yet; \<open>hk_opened\<close> counts the sockets.\<close>

record hook =
  hk_feed :: feed
  hk_socket :: bool
  hk_timer :: "int option"
  hk_closedByCleanup :: bool
  hk_opened :: nat

datatype hook_event = Opened | Arrived "frame option" | Errored | Closed | TimerFires | Cleanup

definition connect :: "hook \<Rightarrow> hook" where
  "connect h = h\<lparr>hk_socket := True, hk_timer := None, hk_opened := Suc (hk_opened h)\<rparr>"

definition hook_start :: hook where
  "hook_start = connect \<lparr>hk_feed = new_feed, hk_socket = False, hk_timer = None, hk_closedByCleanup = False,
     hk_opened = 0\<rparr>"

text \<open>\<open>onerror\<close> and the cleanup call \<open>socket.close()\<close>; the \<open>close\<close> event follows.\<close>

definition hook_step :: "nat \<Rightarrow> hook_event \<Rightarrow> hook \<Rightarrow> hook" where
  "hook_step maxEvents e h = (case e of
     Opened \<Rightarrow> if hk_socket h then h\<lparr>hk_feed := socket_onopen (hk_feed h)\<rparr> else h
   | Arrived f \<Rightarrow> if hk_socket h then h\<lparr>hk_feed := socket_onmessage maxEvents f (hk_feed h)\<rparr> else h
   | Errored \<Rightarrow> h
   | Closed \<Rightarrow> if hk_socket h
       then h\<lparr>hk_feed := snd (socket_onclose (hk_closedByCleanup h) (hk_feed h)), hk_socket := False,
         hk_timer := fst (socket_onclose (hk_closedByCleanup h) (hk_feed h))\<rparr>
       else h
   | TimerFires \<Rightarrow> (case hk_timer h of None \<Rightarrow> h | Some delay \<Rightarrow> connect h)
   | Cleanup \<Rightarrow> h\<lparr>hk_closedByCleanup := True, hk_timer := None\<rparr>)"

section \<open>Properties\<close>

definition hook_inv :: "hook \<Rightarrow> bool" where
  "hook_inv h \<longleftrightarrow> fd_retryDelay (hk_feed h) \<in> {1000..15000} \<and> (\<forall>d \<in> set_option (hk_timer h). d \<in> {1000..15000}) \<and>
     (if hk_closedByCleanup h then hk_timer h = None else hk_socket h \<longleftrightarrow> hk_timer h = None)"

lemma hook_inv_step: "hook_inv h \<Longrightarrow> hook_inv (hook_step m e h)"
  by (cases e) (auto simp: hook_inv_def hook_step_def connect_def socket_onopen_def socket_onmessage_def
      socket_onclose_def Let_def split: option.splits frame.splits if_splits)

lemma hook_inv_fold: "hook_inv h \<Longrightarrow> hook_inv (fold (hook_step m) evs h)"
  by (induction evs arbitrary: h) (simp_all add: hook_inv_step)

lemma hook_inv_start: "hook_inv hook_start"
  by (simp add: hook_inv_def hook_start_def connect_def new_feed_def)

lemma cleaned_up_step:
  "hk_closedByCleanup h \<Longrightarrow> hk_timer h = None \<Longrightarrow>
    hk_closedByCleanup (hook_step m e h) \<and> hk_timer (hook_step m e h) = None \<and>
    hk_opened (hook_step m e h) = hk_opened h"
  by (cases e) (auto simp: hook_step_def socket_onclose_def Let_def)

lemma cleaned_up_fold:
  "hk_closedByCleanup h \<Longrightarrow> hk_timer h = None \<Longrightarrow>
    hk_opened (fold (hook_step m) evs h) = hk_opened h \<and> hk_timer (fold (hook_step m) evs h) = None"
  by (induction evs arbitrary: h) (simp_all add: cleaned_up_step)

text \<open>
  The dashboard keeps exactly one connection: until the cleanup, whatever the sockets do, there
  is either one socket or one timer to open the next after 1 to 15 seconds, never both and
  never neither; after the cleanup no socket is opened any more.
\<close>

theorem feed_reconnects:
  "(let h = fold (hook_step m) evs hook_start in Cleanup \<notin> set evs \<longrightarrow>
      (hk_socket h \<longleftrightarrow> hk_timer h = None) \<and> (\<forall>d. hk_timer h = Some d \<longrightarrow> 1000 \<le> d \<and> d \<le> 15000)) \<and>
   hk_opened (fold (hook_step m) (evs @ Cleanup # later) hook_start) = hk_opened (fold (hook_step m) evs hook_start)"
proof -
  let ?h = "fold (hook_step m) evs hook_start"
  have inv: "hook_inv ?h" by (rule hook_inv_fold [OF hook_inv_start])
  have open_: "Cleanup \<notin> set evs \<Longrightarrow> \<not> hk_closedByCleanup (fold (hook_step m) evs h)"
    if "\<not> hk_closedByCleanup h" for h
    using that
  proof (induction evs arbitrary: h)
    case (Cons e evs)
    have "\<not> hk_closedByCleanup (hook_step m e h)"
      using Cons.prems by (cases e) (auto simp: hook_step_def connect_def split: option.split)
    then show ?case using Cons by simp
  qed simp
  have "hk_opened (fold (hook_step m) (Cleanup # later) ?h) = hk_opened ?h"
    using cleaned_up_fold [of "hook_step m Cleanup ?h" m later] by (simp add: hook_step_def)
  then show ?thesis
    using inv open_ [of hook_start] by (auto simp: hook_inv_def Let_def hook_start_def connect_def)
qed

theorem feed_reconnects_witness:
  "hk_socket (fold (hook_step 200) [Opened, Errored, Closed, TimerFires] hook_start) \<and>
   hk_opened (fold (hook_step 200) ([Opened, Closed] @ Cleanup # [TimerFires, Closed]) hook_start) = 1"
proof -
  have "hk_timer (fold (hook_step 200) [Opened, Errored, Closed, TimerFires] hook_start) = None"
    "hk_opened (fold (hook_step 200) [Opened, Closed] hook_start) = 1"
    by (simp_all add: hook_step_def hook_start_def connect_def socket_onclose_def socket_onopen_def Let_def)
  then show ?thesis
    using feed_reconnects [of 200 "[Opened, Errored, Closed, TimerFires]" "[]"]
      feed_reconnects [of 200 "[Opened, Closed]" "[TimerFires, Closed]"]
    by (simp add: Let_def)
qed

end
