(* ===== verification/Dashboard.thy ===== *)
theory Dashboard
  imports Routes
begin

text \<open>
  \<open>packages/dashboard/src\<close>: the API client and the parts of the pages that decide something:
  which request is sent, what is made of its answer, which buttons and pages are offered. What
  they render is in \<open>Markup\<close>, how they run in \<open>Pages\<close>.
\<close>

section \<open>The API client\<close>

text \<open>
  Every request carries \<open>Content-Type: application/json\<close> and the key of the local storage. A
  call is given by the route it is for; only some have a body. Fastify parses the body before it
  validates the request. Its parser is not part of the repository: \<open>parse m b\<close> is the error it
  raises for a request of method \<open>m\<close> with that content type and with the JSON text of a body
  (\<open>b\<close>) or with none, if it raises one.
\<close>

definition getApiKey :: "string option \<Rightarrow> string" where
  "getApiKey stored = (case given stored of None \<Rightarrow> ''dev-key-123'' | Some k \<Rightarrow> k)"

fun has_body :: "route \<Rightarrow> bool" where
  "has_body (PostJobs _) = True"
| "has_body (PostSchedules _) = True"
| "has_body (PatchSchedule _ _) = True"
| "has_body _ = False"

fun method_of :: "route \<Rightarrow> string" where
  "method_of (PostJobs _) = ''POST''"
| "method_of (PostRetry _) = ''POST''"
| "method_of (PostSchedules _) = ''POST''"
| "method_of (PatchSchedule _ _) = ''PATCH''"
| "method_of (DeleteJob _) = ''DELETE''"
| "method_of (DeleteSchedule _) = ''DELETE''"
| "method_of _ = ''GET''"

type_synonym body_parser = "string \<Rightarrow> bool \<Rightarrow> err option"

definition receive :: "body_parser \<Rightarrow> server_config \<Rightarrow> string option \<Rightarrow> string \<Rightarrow> route \<Rightarrow> response prog" where
  "receive parse cfg header ip r =
     (case parse (method_of r) (has_body r) of
        Some err \<Rightarrow> internal_error err
      | None \<Rightarrow> serve cfg header ip r)"

record client_error =
  ce_message :: string
  ce_status :: nat

definition res_ok :: "response \<Rightarrow> bool" where
  "res_ok res \<longleftrightarrow> 200 \<le> rs_code res \<and> rs_code res \<le> 299"

fun body_message :: "body \<Rightarrow> string option" where
  "body_message (BError _ m) = given m"
| "body_message _ = None"

text \<open>\<open>body.message || `Request failed: ${res.status}`\<close>; 204 is \<open>null\<close>.\<close>

definition api_result :: "response \<Rightarrow> client_error + body option" where
  "api_result res =
     (if \<not> res_ok res
      then Inl \<lparr>ce_message = (case body_message (rs_body res) of
                   None \<Rightarrow> ''Request failed: '' @ str_of_int (int (rs_code res))
                 | Some m \<Rightarrow> m), ce_status = rs_code res\<rparr>
      else if rs_code res = 204 then Inr None
      else Inr (Some (rs_body res)))"

definition api_request ::
  "body_parser \<Rightarrow> server_config \<Rightarrow> string option \<Rightarrow> string \<Rightarrow> route \<Rightarrow> (client_error + body option) prog" where
  "api_request parse cfg stored ip r =
     and_then (receive parse cfg (Some (getApiKey stored)) ip r) (\<lambda>res. Ret (api_result res))"

text \<open>The calls of \<open>api\<close>. Absent and empty parameters of \<open>listJobs\<close> are left out.\<close>

definition api_listJobs :: "job_status option \<Rightarrow> string \<Rightarrow> int option \<Rightarrow> int \<Rightarrow> route" where
  "api_listJobs st ty page pageSize =
     GetJobs \<lparr>lq_status = st, lq_type = given (Some ty), lq_page = page, lq_pageSize = Some pageSize\<rparr>"

definition api_toggleSchedule :: "string \<Rightarrow> bool \<Rightarrow> route" where
  "api_toggleSchedule i on = PatchSchedule i (Some (JObj [(''enabled'', JBool on)]))"

section \<open>The job list\<close>

text \<open>
  The state of \<open>JobList\<close>. Its effect runs at the start and whenever the filter or the page
  changed: it cancels the run before it and asks for the page; \<open>jl_run\<close> numbers the runs.
\<close>

record job_list =
  jl_jobs :: "job_view list"
  jl_total :: int
  jl_status :: "job_status option"
  jl_type :: string
  jl_page :: int
  jl_loading :: bool
  jl_error :: "string option"
  jl_run :: nat

definition jl_pageSize :: int where
  "jl_pageSize = 10"

definition totalPages :: "int \<Rightarrow> int" where
  "totalPages n = max 1 \<lceil>(of_int n / of_int jl_pageSize :: rat)\<rceil>"

definition jl_effect :: "job_list \<Rightarrow> job_list" where
  "jl_effect st = st\<lparr>jl_loading := True, jl_run := Suc (jl_run st)\<rparr>"

definition jl_request :: "job_list \<Rightarrow> route" where
  "jl_request st = api_listJobs (jl_status st) (jl_type st) (Some (jl_page st)) jl_pageSize"

definition jl_initial :: job_list where
  "jl_initial = jl_effect \<lparr>jl_jobs = [], jl_total = 0, jl_status = None, jl_type = '''', jl_page = 1,
     jl_loading = False, jl_error = None, jl_run = 0\<rparr>"

text \<open>The answer to the request of a run: nothing when that run was cancelled.\<close>

definition jl_answer :: "nat \<Rightarrow> client_error + (job_view list \<times> int) \<Rightarrow> job_list \<Rightarrow> job_list" where
  "jl_answer n res st =
     (if n \<noteq> jl_run st then st
      else case res of
        Inr (js, tot) \<Rightarrow> st\<lparr>jl_jobs := js, jl_total := tot, jl_error := None, jl_loading := False\<rparr>
      | Inl err \<Rightarrow> st\<lparr>jl_error := Some (ce_message err), jl_loading := False\<rparr>)"

text \<open>The user: a change of a filter goes back to page 1; the pager's buttons can be disabled.\<close>

datatype jl_input = SelectStatus "job_status option" | TypeFilter string | Prev | Next | Refresh

definition prev_enabled :: "job_list \<Rightarrow> bool" where
  "prev_enabled st \<longleftrightarrow> \<not> jl_page st \<le> 1"

definition next_enabled :: "job_list \<Rightarrow> bool" where
  "next_enabled st \<longleftrightarrow> \<not> jl_page st \<ge> totalPages (jl_total st)"

definition jl_rerun :: "job_list \<Rightarrow> job_list \<Rightarrow> job_list" where
  "jl_rerun old new =
     (if jl_status new \<noteq> jl_status old \<or> jl_type new \<noteq> jl_type old \<or> jl_page new \<noteq> jl_page old
      then jl_effect new else new)"

fun jl_step :: "jl_input \<Rightarrow> job_list \<Rightarrow> job_list" where
  "jl_step (SelectStatus v) st = jl_rerun st (st\<lparr>jl_status := v, jl_page := 1\<rparr>)"
| "jl_step (TypeFilter v) st = jl_rerun st (st\<lparr>jl_type := v, jl_page := 1\<rparr>)"
| "jl_step Prev st = (if prev_enabled st then jl_rerun st (st\<lparr>jl_page := jl_page st - 1\<rparr>) else st)"
| "jl_step Next st = (if next_enabled st then jl_rerun st (st\<lparr>jl_page := jl_page st + 1\<rparr>) else st)"
| "jl_step Refresh st = jl_effect st"

section \<open>The job drawer\<close>

datatype job_action = RetryJob | CancelJob

definition detail_actions :: "job_status \<Rightarrow> job_action list" where
  "detail_actions st =
     (if st = Dead \<or> st = Failed then [RetryJob] else []) @
     (if st = Queued \<or> st = Delayed then [CancelJob] else [])"

record detail =
  dt_job :: "(job_view \<times> event_row list) option"
  dt_error :: "string option"
  dt_busy :: bool
  dt_changed :: nat

fun action_route :: "job_action \<Rightarrow> string \<Rightarrow> route" where
  "action_route RetryJob i = PostRetry i"
| "action_route CancelJob i = DeleteJob i"

definition show_job :: "client_error + body option \<Rightarrow> detail \<Rightarrow> detail" where
  "show_job res st = (case res of
     Inl err \<Rightarrow> st\<lparr>dt_error := Some (ce_message err)\<rparr>
   | Inr (Some (BJobEvents v evs)) \<Rightarrow> st\<lparr>dt_job := Some (v, evs)\<rparr>
   | Inr _ \<Rightarrow> st)"

text \<open>\<open>handleRetry\<close> and \<open>handleCancel\<close>: the action, a fresh copy of the job, and \<open>onChanged\<close>.\<close>

definition handle_action ::
  "body_parser \<Rightarrow> server_config \<Rightarrow> string option \<Rightarrow> string \<Rightarrow> job_action \<Rightarrow> string \<Rightarrow> detail \<Rightarrow> detail prog" where
  "handle_action parse cfg stored ip act jobId st =
     and_then (api_request parse cfg stored ip (action_route act jobId)) (\<lambda>res. case res of
       Inl err \<Rightarrow> Ret (st\<lparr>dt_error := Some (ce_message err), dt_busy := False\<rparr>)
     | Inr _ \<Rightarrow> and_then (api_request parse cfg stored ip (GetJob jobId)) (\<lambda>refreshed. case refreshed of
         Inl err \<Rightarrow> Ret (st\<lparr>dt_error := Some (ce_message err), dt_busy := False\<rparr>)
       | Inr _ \<Rightarrow> Ret ((show_job refreshed st)\<lparr>dt_busy := False, dt_changed := Suc (dt_changed st)\<rparr>)))"

section \<open>The dead-letter page\<close>

definition dlq_request :: route where
  "dlq_request = api_listJobs (Some Dead) '''' None 50"

text \<open>\<open>retryAll\<close>: one request after the other, errors ignored, then the list again.\<close>

primrec retry_each :: "body_parser \<Rightarrow> server_config \<Rightarrow> string option \<Rightarrow> string \<Rightarrow> string list \<Rightarrow> unit prog" where
  "retry_each parse cfg stored ip [] = Ret ()"
| "retry_each parse cfg stored ip (i # ids) =
     and_then (api_request parse cfg stored ip (PostRetry i)) (\<lambda>_. retry_each parse cfg stored ip ids)"

definition retryAll ::
  "body_parser \<Rightarrow> server_config \<Rightarrow> string option \<Rightarrow> string \<Rightarrow> job_view list \<Rightarrow> (client_error + body option) prog" where
  "retryAll parse cfg stored ip js =
     and_then (retry_each parse cfg stored ip (map jv_id js)) (\<lambda>_. api_request parse cfg stored ip dlq_request)"

section \<open>The submission form\<close>

text \<open>
  The fields as the browser lets the form be submitted: a type is required, the numbers are
  whole and not negative, or empty (\<open>Number('')\<close> is 0). \<open>json\<close> stands for \<open>JSON.parse\<close>.
\<close>

record submit_form =
  sf_type :: string
  sf_payload :: string
  sf_priority :: string
  sf_delay :: "nat option"
  sf_maxRetries :: "nat option"
  sf_idempotencyKey :: string

definition number_of :: "nat option \<Rightarrow> int" where
  "number_of v = (case v of None \<Rightarrow> 0 | Some n \<Rightarrow> int n)"

definition handleSubmit :: "(string \<Rightarrow> json option) \<Rightarrow> submit_form \<Rightarrow> string + enqueue_request" where
  "handleSubmit json f =
     (case json (sf_payload f) of
        None \<Rightarrow> Inl ''Payload must be valid JSON.''
      | Some parsedPayload \<Rightarrow> Inr \<lparr>rq_type = sf_type f, rq_payload = Some parsedPayload,
          rq_priority = Some (sf_priority f), rq_delay = Some (number_of (sf_delay f)),
          rq_maxRetries = Some (number_of (sf_maxRetries f)),
          rq_idempotencyKey = given (Some (sf_idempotencyKey f))\<rparr>)"

definition form_ok :: "submit_form \<Rightarrow> bool" where
  "form_ok f \<longleftrightarrow> sf_type f \<noteq> '''' \<and> sf_priority f \<in> set [''high'', ''normal'', ''low'']"

section \<open>The overview\<close>

text \<open>A percentage with one decimal, ties upwards.\<close>

definition percent1 :: "rat \<Rightarrow> string" where
  "percent1 x = (let n = \<lfloor>x * 1000 + 1 / 2\<rfloor> in
     str_of_int (n div 10) @ CHR ''.'' # str_of_int (n mod 10) @ ''%'')"

definition queue_cards :: "queue_stats option \<Rightarrow> (string \<times> string) list option" where
  "queue_cards stats = (case stats of None \<Rightarrow> None | Some st \<Rightarrow> Some
     [(''High priority'', str_of_int (depth_high st)), (''Normal priority'', str_of_int (depth_normal st)),
      (''Low priority'', str_of_int (depth_low st)), (''Delayed'', str_of_int (depth_delayed st)),
      (''Jobs / min'', str_of_int (throughputPerMin st)),
      (''Failure rate (1h)'', percent1 (failureRateLastHour st)),
      (''Dead-letter queue'', str_of_int (dlqCount st))])"

text \<open>The samples of the chart: \<open>slice(-30)\<close>.\<close>

definition add_sample :: "int \<Rightarrow> queue_stats \<Rightarrow> (int \<times> int) list \<Rightarrow> (int \<times> int) list" where
  "add_sample t st history =
     (let nxt = history @ [(t, throughputPerMin st)] in drop (length nxt - 30) nxt)"

section \<open>What the pages do\<close>

lemma refused_body:
  "parse ''POST'' False = Some e \<Longrightarrow> run svc (api_request parse cfg stored ip (PostRetry i)) s =
    (Inr (Inl \<lparr>ce_message = ''Something went wrong.'', ce_status = 500\<rparr>), s)"
  by (simp add: api_request_def receive_def internal_error_def prog_run api_result_def res_ok_def send_def)

lemma refused_bodies:
  "parse ''POST'' False = Some e \<Longrightarrow> run svc (retry_each parse cfg stored ip ids) s = (Inr (), s)"
  by (induction ids) (simp_all add: prog_run refused_body)

text \<open>The page of the list the server answers with.\<close>

definition page_of :: "service \<Rightarrow> server_config \<Rightarrow> store \<Rightarrow> job_list \<Rightarrow> int \<Rightarrow> job_view list \<times> int" where
  "page_of svc cfg s st p =
     (case fst (run svc (handle cfg (jl_request (st\<lparr>jl_page := p\<rparr>))) s) of
        Inr res \<Rightarrow> (case rs_body res of BJobs js tot _ _ \<Rightarrow> (js, tot) | _ \<Rightarrow> ([], 0))
      | Inl _ \<Rightarrow> ([], 0))"

lemma given_idem: "given (given k) = given k"
  by (cases k rule: given.cases) auto

lemma page_of_listing:
  assumes "services svc out"
  shows "page_of svc cfg s st p =
    (map serializeJob (take 10 (drop (nat ((max 1 p - 1) * 10))
       (jobs_desc out (filter (matches (jl_status st) (given (Some (jl_type st)))) (jobs s))))),
     int (length (filter (matches (jl_status st) (given (Some (jl_type st)))) (jobs s))))"
  using services.run_listJobs [OF assms, of 10 "jl_status st" "given (Some (jl_type st))" p s]
  by (simp add: page_of_def jl_request_def api_listJobs_def get_jobs_def jl_pageSize_def prog_run send_def)

lemma total_pages: "totalPages n = max 1 ((n + 9) div 10)"
proof -
  let ?q = "(n + 9) div 10"
  have "10 * ?q - 10 < n" "n \<le> 10 * ?q" by presburger+
  then have "(of_int (10 * ?q - 10) :: rat) < of_int n" "(of_int n :: rat) \<le> of_int (10 * ?q)"
    by (simp_all only: of_int_less_iff of_int_le_iff)
  then have "\<lceil>of_int n / (10 :: rat)\<rceil> = ?q" by (intro ceiling_unique) simp_all
  then show ?thesis by (simp add: totalPages_def jl_pageSize_def)
qed

lemma pages_hold_all: "n \<le> nat (totalPages (int n)) * 10"
  unfolding total_pages by linarith

lemma page_exists: "int k + 1 \<le> totalPages (int n) \<Longrightarrow> 0 < n \<Longrightarrow> k * 10 < n"
  unfolding total_pages by linarith





text \<open>
  The submission form: what the browser lets through is accepted by the schema of
  \<open>POST /jobs\<close> exactly when the type and the key are not too long, the payload is an object
  and at most 50 retries are asked for; the form itself checks none of these.
\<close>

theorem submit_form_accepted:
  assumes "form_ok f" and "handleSubmit json f = Inr rq"
  shows "schema_ok (PostJobs rq) \<longleftrightarrow> length (sf_type f) \<le> 255 \<and>
    (\<exists>fields. json (sf_payload f) = Some (JObj fields)) \<and> number_of (sf_maxRetries f) \<le> 50 \<and>
    length (sf_idempotencyKey f) \<le> 255"
proof -
  obtain j where j: "json (sf_payload f) = Some j"
    using assms(2) by (cases "json (sf_payload f)") (auto simp: handleSubmit_def)
  have "is_plain_object j \<longleftrightarrow> (\<exists>fields. j = JObj fields)" by (cases j) auto
  moreover have "0 \<le> number_of v" for v by (simp add: number_of_def split: option.split)
  moreover have "optional (length_ok 255) (given (Some k)) \<longleftrightarrow> length k \<le> 255" for k
    by (cases k) (auto simp: optional_def length_ok_def)
  moreover have "1 \<le> length (sf_type f)" using assms(1) by (cases "sf_type f") (auto simp: form_ok_def)
  ultimately show ?thesis
    using assms j by (auto simp: handleSubmit_def enqueueSchema_def optional_def length_ok_def int_within_def form_ok_def)
qed

text \<open>The chart never holds more than thirty samples, the newest ones.\<close>

theorem chart_window:
  "fold (\<lambda>x. add_sample (fst x) (snd x)) xs [] =
     (let ys = map (\<lambda>x. (fst x, throughputPerMin (snd x))) xs in drop (length ys - 30) ys)"
proof (induction xs rule: rev_induct)
  case (snoc x xs)
  have "n - (n - 30 + 29) + (n - 30) = n - 29" for n :: nat by arith
  then show ?case using snoc by (simp add: add_sample_def Let_def)
qed simp

end
