(* ===== verification/Markup.thy ===== *)
theory Markup
  imports Dashboard Gateway
begin

text \<open>
  What the pages of \<open>packages/dashboard/src\<close> render: one function per component, from its state
  to the elements of its JSX. Event handlers are attributes that hold what the handler does, an
  input of the application, so that the buttons offered can be read off the view.
\<close>

section \<open>Views\<close>

text \<open>
  The children of an element are its texts and elements; what JSX leaves out (\<open>false\<close>, \<open>null\<close>,
  line breaks) is not there. \<open>OnNumber\<close> is the change of a number field, which holds a whole
  number that is not negative, or nothing. Texts are byte strings in UTF-8.
\<close>

datatype 'a attr =
    Attr string string
  | OnClick 'a
  | OnChange "string \<Rightarrow> 'a"
  | OnNumber "nat option \<Rightarrow> 'a"
  | OnSubmit 'a
  | Disabled bool
  | Samples "(string \<times> int) list"

datatype 'a view = Text string | El string "'a attr list" "'a view list"

abbreviation cls :: "string \<Rightarrow> 'a attr" where
  "cls c \<equiv> Attr ''className'' c"

definition if_shown :: "bool \<Rightarrow> 'b list \<Rightarrow> 'b list" where
  "if_shown b xs = (if b then xs else [])"

lemma set_if_shown [simp]: "set (if_shown b xs) = (if b then set xs else {})"
  by (simp add: if_shown_def)

text \<open>What the user can do with a view: click an enabled button, fill in a field, choose an option.\<close>

fun option_value :: "'a view \<Rightarrow> string option" where
  "option_value (El tag (Attr name v # attrs) vs) = (if tag = ''option'' \<and> name = ''value'' then Some v else None)"
| "option_value _ = None"

definition typed :: "string \<Rightarrow> 'a view list \<Rightarrow> string set" where
  "typed tag vs = (if tag = ''select'' then {v. Some v \<in> option_value ` set vs} else UNIV)"

definition attr_offers :: "string \<Rightarrow> 'a view list \<Rightarrow> 'a attr \<Rightarrow> 'a set" where
  "attr_offers tag vs h = (case h of OnClick a \<Rightarrow> {a} | OnChange f \<Rightarrow> f ` typed tag vs | OnNumber f \<Rightarrow> range f
     | OnSubmit a \<Rightarrow> {a} | _ \<Rightarrow> {})"

fun offers :: "'a view \<Rightarrow> 'a set" where
  "offers (Text t) = {}"
| "offers (El tag attrs vs) =
     (if Disabled True \<in> set attrs then {} else \<Union>(attr_offers tag vs ` set attrs)) \<union> \<Union>(offers ` set vs)"

lemma attr_offers_simps [simp]:
  "attr_offers tag vs (Attr n v) = {}" "attr_offers tag vs (OnClick a) = {a}"
  "attr_offers tag vs (OnChange f) = f ` typed tag vs" "attr_offers tag vs (OnNumber g) = range g"
  "attr_offers tag vs (OnSubmit a) = {a}" "attr_offers tag vs (Disabled b) = {}"
  "attr_offers tag vs (Samples xs) = {}"
  by (simp_all add: attr_offers_def)

text \<open>The text of a view.\<close>

fun text_of :: "'a view \<Rightarrow> string" where
  "text_of (Text t) = t"
| "text_of (El tag attrs vs) = concat (map text_of vs)"

definition ellipsis :: string where
  "ellipsis = [CHR 0xE2, CHR 0x80, CHR 0xA6]"

definition em_dash :: string where
  "em_dash = [CHR 0xE2, CHR 0x80, CHR 0x94]"

text \<open>What the browser formats: dates in its locale, JSON text.\<close>

record browser =
  toLocaleString :: "int \<Rightarrow> string"
  toLocaleTimeString :: "int \<Rightarrow> string"
  stringify2 :: "json \<Rightarrow> string"
  json_parse :: "string \<Rightarrow> json option"

fun status_text :: "job_status \<Rightarrow> string" where
  "status_text Queued = ''queued''"
| "status_text Delayed = ''delayed''"
| "status_text Active = ''active''"
| "status_text Completed = ''completed''"
| "status_text Failed = ''failed''"
| "status_text Dead = ''dead''"

abbreviation show_int :: "int \<Rightarrow> 'a view" where
  "show_int n \<equiv> Text (str_of_int n)"

definition badge :: "string \<Rightarrow> string \<Rightarrow> 'a view" where
  "badge kind t = El ''span'' [cls (''badge badge--'' @ kind)] [Text t]"

definition status_badge :: "job_status \<Rightarrow> 'a view" where
  "status_badge st = badge (''status-'' @ status_text st) (status_text st)"

text \<open>\<open>{error && <div className="error">{error}</div>}\<close>; an empty message shows nothing.\<close>

definition error_box :: "string option \<Rightarrow> 'a view list" where
  "error_box e = (case given e of None \<Rightarrow> [] | Some m \<Rightarrow> [El ''div'' [cls ''error''] [Text m]])"

section \<open>What the user does\<close>

datatype tab = Overview | DeadLetter | SubmitTab

datatype form_input =
    FormType string
  | FormPayload string
  | FormPriority string
  | FormDelay "nat option"
  | FormRetries "nat option"
  | FormKey string

datatype ui_input =
    SetTab tab
  | SelectJob string
  | CloseDrawer
  | KeyTyped string
  | ListInput jl_input
  | DlqRetryClick string
  | DlqRetryAllClick
  | DrawerClick job_action
  | FormInput form_input
  | FormSubmit

section \<open>\<open>QueueStats\<close> and \<open>ThroughputChart\<close>\<close>

definition stat_card :: "string \<times> string \<Rightarrow> 'a view" where
  "stat_card c = El ''div'' [cls (if fst c = ''Dead-letter queue'' then ''stat-card stat-card--danger'' else ''stat-card'')]
     [El ''div'' [cls ''stat-value''] [Text (snd c)], El ''div'' [cls ''stat-label''] [Text (fst c)]]"

definition stats_view :: "queue_stats option \<Rightarrow> 'a view" where
  "stats_view stats = (case queue_cards stats of
     None \<Rightarrow> El ''div'' [cls ''panel''] [Text (''Waiting for live stats'' @ ellipsis)]
   | Some cards \<Rightarrow> El ''div'' [cls ''panel''] [El ''h2'' [] [Text ''Queue overview''],
       El ''div'' [cls ''stat-grid''] (map stat_card cards)])"

definition chart_view :: "browser \<Rightarrow> (int \<times> int) list \<Rightarrow> 'a view" where
  "chart_view br history = El ''div'' [cls ''panel''] [El ''h2'' [] [Text ''Throughput (jobs/min)''],
     if length history < 2 then El ''p'' [cls ''muted''] [Text (''Collecting samples'' @ ellipsis)]
     else El ''ResponsiveContainer'' [Attr ''width'' ''100%'', Attr ''height'' ''220'']
       [El ''LineChart'' [Samples (map (\<lambda>x. (toLocaleTimeString br (fst x), snd x)) history)]
         [El ''CartesianGrid'' [Attr ''strokeDasharray'' ''3 3'', Attr ''stroke'' ''#2a2f3a''] [],
          El ''XAxis'' [Attr ''dataKey'' ''time'', Attr ''tick'' ''fontSize: 11, fill: #8b93a7''] [],
          El ''YAxis'' [Attr ''allowDecimals'' ''false'', Attr ''tick'' ''fontSize: 11, fill: #8b93a7''] [],
          El ''Tooltip'' [Attr ''contentStyle'' ''background: #1c2029, border: 1px solid #2a2f3a''] [],
          El ''Line'' [Attr ''type'' ''monotone'', Attr ''dataKey'' ''throughput'', Attr ''stroke'' ''#5b8cff'',
            Attr ''strokeWidth'' ''2'', Attr ''dot'' ''false''] []]]]"

section \<open>\<open>JobList\<close>\<close>

definition STATUS_OPTIONS :: "job_status option list" where
  "STATUS_OPTIONS = [None, Some Queued, Some Delayed, Some Active, Some Completed, Some Failed, Some Dead]"

definition status_value :: "job_status option \<Rightarrow> string" where
  "status_value s = (case s of None \<Rightarrow> '''' | Some st \<Rightarrow> status_text st)"

text \<open>The state the text of an option stands for.\<close>

definition read_status :: "string \<Rightarrow> job_status option" where
  "read_status v = (case filter (\<lambda>s. status_value s = v) STATUS_OPTIONS of s # _ \<Rightarrow> s | [] \<Rightarrow> None)"

definition list_row :: "browser \<Rightarrow> job_view \<Rightarrow> ui_input view" where
  "list_row br job = El ''tr'' [OnClick (SelectJob (jv_id job)), cls ''job-row'']
     [El ''td'' [] [Text (jv_type job)],
      El ''td'' [] [badge (jv_priority job) (jv_priority job)],
      El ''td'' [] [status_badge (jv_status job)],
      El ''td'' [] [show_int (jv_attempt job), Text ''/'', show_int (jv_maxRetries job)],
      El ''td'' [] [Text (toLocaleString br (jv_createdAt job))]]"

definition list_filters :: "job_list \<Rightarrow> ui_input view" where
  "list_filters st = El ''div'' [cls ''filters'']
     [El ''select'' [Attr ''value'' (status_value (jl_status st)), OnChange (\<lambda>v. ListInput (SelectStatus (read_status v)))]
        (map (\<lambda>s. El ''option'' [Attr ''value'' (status_value s)]
           [Text (if s = None then ''All statuses'' else status_value s)]) STATUS_OPTIONS),
      El ''input'' [Attr ''placeholder'' (''Filter by type'' @ ellipsis), Attr ''value'' (jl_type st),
        OnChange (\<lambda>v. ListInput (TypeFilter v))] []]"

definition list_pager :: "job_list \<Rightarrow> ui_input view" where
  "list_pager st = El ''div'' [cls ''pager'']
     [El ''button'' [Disabled (\<not> prev_enabled st), OnClick (ListInput Prev)] [Text ''Prev''],
      El ''span'' [] [Text ''Page '', show_int (jl_page st), Text '' / '', show_int (totalPages (jl_total st)),
        Text '' ('', show_int (jl_total st), Text '' jobs)''],
      El ''button'' [Disabled (\<not> next_enabled st), OnClick (ListInput Next)] [Text ''Next'']]"

definition header_row :: "string list \<Rightarrow> 'a view" where
  "header_row hs = El ''thead'' [] [El ''tr'' [] (map (\<lambda>h. El ''th'' [] (if_shown (h \<noteq> '''') [Text h])) hs)]"

definition empty_row :: "string \<Rightarrow> 'a view" where
  "empty_row t = El ''tr'' [] [El ''td'' [Attr ''colSpan'' ''5'', cls ''muted''] [Text t]]"

definition list_view :: "browser \<Rightarrow> job_list \<Rightarrow> ui_input view" where
  "list_view br st = El ''div'' [cls ''panel''] (
     [El ''h2'' [] [Text ''Jobs''], list_filters st] @ error_box (jl_error st) @
     if_shown (jl_loading st) [El ''div'' [cls ''muted''] [Text (''Loading'' @ ellipsis)]] @
     [El ''table'' [cls ''job-table''] [header_row [''Type'', ''Priority'', ''Status'', ''Attempt'', ''Created''],
        El ''tbody'' [] (map (list_row br) (jl_jobs st) @
          if_shown (jl_jobs st = [] \<and> \<not> jl_loading st) [empty_row ''No jobs match this filter.''])],
      list_pager st])"

section \<open>\<open>DLQPage\<close>\<close>

record dlq_page =
  dq_jobs :: "job_view list"
  dq_error :: "string option"
  dq_busyId :: "string option"

definition new_dlq :: dlq_page where
  "new_dlq = \<lparr>dq_jobs = [], dq_error = None, dq_busyId = None\<rparr>"

definition dlq_row :: "browser \<Rightarrow> string option \<Rightarrow> job_view \<Rightarrow> ui_input view" where
  "dlq_row br busyId job = El ''tr'' [cls ''job-row'']
     [El ''td'' [OnClick (SelectJob (jv_id job))] [Text (jv_type job)],
      El ''td'' [] [show_int (jv_attempt job), Text ''/'', show_int (jv_maxRetries job)],
      El ''td'' [cls ''error-text truncate''] (case given (jv_error job) of None \<Rightarrow> [] | Some m \<Rightarrow> [Text m]),
      El ''td'' [] [Text (toLocaleString br (jv_updatedAt job))],
      El ''td'' [] [El ''button'' [Disabled (busyId = Some (jv_id job)), OnClick (DlqRetryClick (jv_id job))]
        [Text ''Retry'']]]"

definition dlq_view :: "browser \<Rightarrow> dlq_page \<Rightarrow> ui_input view" where
  "dlq_view br st = El ''div'' [cls ''panel''] (
     [El ''div'' [cls ''panel-header-row''] (
        [El ''h2'' [] [Text ''Dead-letter queue ('', show_int (int (length (dq_jobs st))), Text '')'']] @
        if_shown (dq_jobs st \<noteq> []) [El ''button'' [OnClick DlqRetryAllClick] [Text ''Retry all'']])] @
     error_box (dq_error st) @
     [El ''table'' [cls ''job-table''] [header_row [''Type'', ''Attempts'', ''Last error'', ''Updated'', ''''],
        El ''tbody'' [] (map (dlq_row br (dq_busyId st)) (dq_jobs st) @
          if_shown (dq_jobs st = [])
            [empty_row (''DLQ is empty '' @ [CHR 0xF0, CHR 0x9F, CHR 0x8E, CHR 0x89])])]])"

section \<open>\<open>JobDetail\<close>\<close>

definition term_of :: "string \<Rightarrow> 'a attr list \<Rightarrow> 'a view list \<Rightarrow> 'a view list" where
  "term_of t attrs vs = [El ''dt'' [] [Text t], El ''dd'' attrs vs]"

definition detail_list :: "browser \<Rightarrow> job_view \<Rightarrow> 'a view" where
  "detail_list br job = El ''dl'' [cls ''detail-list''] (
     term_of ''ID'' [cls ''mono''] [Text (jv_id job)] @
     term_of ''Type'' [] [Text (jv_type job)] @
     term_of ''Status'' [] [status_badge (jv_status job)] @
     term_of ''Priority'' [] [badge (jv_priority job) (jv_priority job)] @
     term_of ''Attempt'' [] [show_int (jv_attempt job), Text '' / '', show_int (jv_maxRetries job)] @
     term_of ''Worker'' [] [Text (case given (jv_workerId job) of None \<Rightarrow> em_dash | Some w \<Rightarrow> w)] @
     term_of ''Created'' [] [Text (toLocaleString br (jv_createdAt job))] @
     term_of ''Updated'' [] [Text (toLocaleString br (jv_updatedAt job))] @
     (case given (jv_error job) of None \<Rightarrow> [] | Some m \<Rightarrow> term_of ''Last error'' [cls ''error-text''] [Text m]))"

definition event_item :: "browser \<Rightarrow> event_row \<Rightarrow> 'a view" where
  "event_item br ev = El ''li'' []
     [El ''span'' [cls ''mono''] [Text (toLocaleTimeString br (ev_created_at ev))], Text '' '',
      status_badge (ev_status ev), Text '' '',
      El ''span'' [] (case given (ev_message ev) of None \<Rightarrow> [] | Some m \<Rightarrow> [Text m])]"

fun action_button :: "bool \<Rightarrow> job_action \<Rightarrow> ui_input view" where
  "action_button busy RetryJob = El ''button'' [Disabled busy, OnClick (DrawerClick RetryJob)] [Text ''Retry job'']"
| "action_button busy CancelJob =
     El ''button'' [Disabled busy, cls ''danger'', OnClick (DrawerClick CancelJob)] [Text ''Cancel job'']"

definition detail_view :: "browser \<Rightarrow> string option \<Rightarrow> detail \<Rightarrow> ui_input view list" where
  "detail_view br jobId st = (if given jobId = None then [] else
     [El ''div'' [cls ''drawer''] (
        [El ''div'' [cls ''drawer-header''] [El ''h2'' [] [Text ''Job detail''],
           El ''button'' [cls ''close-btn'', OnClick CloseDrawer] [Text [CHR 0xC3, CHR 0x97]]]] @
        error_box (dt_error st) @
        (case dt_job st of
           None \<Rightarrow> [El ''div'' [cls ''muted''] [Text (''Loading'' @ ellipsis)]]
         | Some (job, events) \<Rightarrow>
             [detail_list br job, El ''h3'' [] [Text ''Payload''],
              El ''pre'' [cls ''code-block''] [Text (stringify2 br (jv_payload job))],
              El ''h3'' [] [Text ''Event history''], El ''ul'' [cls ''event-list''] (map (event_item br) events),
              El ''div'' [cls ''actions''] (map (action_button (dt_busy st)) (detail_actions (jv_status job)))]))])"

section \<open>\<open>App.jsx\<close>\<close>

definition feed_item :: "browser \<Rightarrow> event \<Rightarrow> ui_input view" where
  "feed_item br ev = El ''li'' (if_shown (e_jobId ev \<noteq> '''') [OnClick (SelectJob (e_jobId ev))])
     [El ''span'' [cls ''mono''] [Text (toLocaleTimeString br (e_ts ev))], Text '' '',
      status_badge (e_status ev), Text '' '',
      El ''span'' [cls ''mono truncate-id''] [Text (take 8 (e_jobId ev))], Text '' '',
      El ''span'' [] [Text (e_message ev)]]"

definition event_feed_view :: "browser \<Rightarrow> event list \<Rightarrow> ui_input view" where
  "event_feed_view br events = El ''div'' [cls ''panel''] [El ''h2'' [] [Text ''Live event feed''],
     El ''ul'' [cls ''event-feed''] (map (feed_item br) events @
       if_shown (events = []) [El ''li'' [cls ''muted'']
         [Text (''No events yet '' @ em_dash @ '' submit a job to see it live.'')]])]"

definition api_key_view :: "string \<Rightarrow> ui_input view" where
  "api_key_view value = El ''div'' [cls ''api-key-field'']
     [El ''label'' [] [Text ''API key''], El ''input'' [Attr ''value'' value, OnChange KeyTyped] []]"

record form_page =
  fm_form :: submit_form
  fm_result :: "(string \<times> bool) option"
  fm_error :: "string option"

definition example_payload :: string where
  "example_payload = ''{'' @ [CHR 0x0A] @ ''  \"to\": \"user@example.com\",'' @ [CHR 0x0A] @
     ''  \"template\": \"welcome\"'' @ [CHR 0x0A] @ ''}''"

definition new_form :: form_page where
  "new_form = \<lparr>fm_form = \<lparr>sf_type = ''send_email'', sf_payload = example_payload, sf_priority = ''normal'',
     sf_delay = Some 0, sf_maxRetries = Some 3, sf_idempotencyKey = ''''\<rparr>, fm_result = None, fm_error = None\<rparr>"

definition number_value :: "nat option \<Rightarrow> string" where
  "number_value v = (case v of None \<Rightarrow> '''' | Some n \<Rightarrow> str_of_int (int n))"

definition form_fields :: "submit_form \<Rightarrow> ui_input view list" where
  "form_fields f =
     [El ''label'' [] [Text ''Type'', El ''input'' [Attr ''value'' (sf_type f), OnChange (\<lambda>v. FormInput (FormType v)),
        Attr ''required'' ''true''] []],
      El ''label'' [] [Text ''Payload (JSON)'', El ''textarea'' [Attr ''rows'' ''6'', Attr ''value'' (sf_payload f),
        OnChange (\<lambda>v. FormInput (FormPayload v))] []],
      El ''div'' [cls ''form-row'']
        [El ''label'' [] [Text ''Priority'', El ''select'' [Attr ''value'' (sf_priority f), OnChange (\<lambda>v. FormInput (FormPriority v))]
           (map (\<lambda>p. El ''option'' [Attr ''value'' p] [Text p]) [''high'', ''normal'', ''low''])],
         El ''label'' [] [Text ''Delay (ms)'', El ''input'' [Attr ''type'' ''number'', Attr ''min'' ''0'',
           Attr ''value'' (number_value (sf_delay f)), OnNumber (\<lambda>v. FormInput (FormDelay v))] []],
         El ''label'' [] [Text ''Max retries'', El ''input'' [Attr ''type'' ''number'', Attr ''min'' ''0'',
           Attr ''value'' (number_value (sf_maxRetries f)), OnNumber (\<lambda>v. FormInput (FormRetries v))] []]],
      El ''label'' [] [Text ''Idempotency key (optional)'', El ''input'' [Attr ''value'' (sf_idempotencyKey f),
        OnChange (\<lambda>v. FormInput (FormKey v))] []],
      El ''button'' [Attr ''type'' ''submit''] [Text ''Enqueue job'']]"

definition form_result :: "(string \<times> bool) option \<Rightarrow> 'a view list" where
  "form_result r = (case r of None \<Rightarrow> [] | Some (i, deduped) \<Rightarrow> [El ''div'' [cls ''success'']
     [Text ''Enqueued '', Text (if deduped then ''(deduplicated '' @ em_dash @ '' returned existing job)'' else ''''),
      Text '': '', El ''span'' [cls ''mono''] [Text i]]])"

definition form_view :: "form_page \<Rightarrow> ui_input view" where
  "form_view st = El ''div'' [cls ''panel panel--narrow''] (
     [El ''h2'' [] [Text ''Submit a job''],
      El ''form'' [OnSubmit FormSubmit, cls ''job-form''] (form_fields (fm_form st))] @
     error_box (fm_error st) @ form_result (fm_result st))"

fun tab_name :: "tab \<Rightarrow> string" where
  "tab_name Overview = ''Overview''"
| "tab_name DeadLetter = ''Dead-letter queue''"
| "tab_name SubmitTab = ''Submit job''"

definition TABS :: "tab list" where
  "TABS = [Overview, DeadLetter, SubmitTab]"

definition conn_status :: "bool \<Rightarrow> 'a view" where
  "conn_status live = El ''div'' [cls ''conn-status'']
     [El ''span'' [cls (''dot '' @ (if live then ''dot--live'' else ''dot--down''))] [],
      Text (if live then ''Live'' else ''Reconnecting'' @ ellipsis)]"

definition tabs_view :: "tab \<Rightarrow> string \<Rightarrow> ui_input view" where
  "tabs_view tb keyValue = El ''nav'' [cls ''tabs'']
     (map (\<lambda>t. El ''button'' [cls (if t = tb then ''tab tab--active'' else ''tab''), OnClick (SetTab t)]
        [Text (tab_name t)]) TABS @ [api_key_view keyValue])"

section \<open>What the views offer\<close>

lemma offers_texts [simp]:
  "offers (badge k t) = {}" "offers (status_badge st) = {}" "offers (stat_card c) = {}"
  "offers (event_item br ev) = {}" "offers (header_row hs) = {}" "offers (empty_row t) = {}"
  "offers (conn_status live) = {}" "offers (chart_view br history) = {}" "offers (stats_view stats) = {}"
  "offers (detail_list br job) = {}"
  by (auto simp: badge_def status_badge_def stat_card_def event_item_def header_row_def empty_row_def
      conn_status_def chart_view_def stats_view_def detail_list_def term_of_def split: option.splits)

lemma offers_boxes [simp]: "x \<in> set (error_box e) \<Longrightarrow> offers x = {}" "x \<in> set (form_result r) \<Longrightarrow> offers x = {}"
  by (auto simp: error_box_def form_result_def split: option.splits)

lemma offers_box_unions [simp]:
  "(\<Union>x \<in> set (error_box e). offers x) = {}" "(\<Union>x \<in> set (form_result r). offers x) = {}"
  by simp_all

lemma offers_rows [simp]:
  "offers (list_row br job) = {SelectJob (jv_id job)}"
  "offers (dlq_row br b job) = insert (SelectJob (jv_id job)) (if b = Some (jv_id job) then {} else {DlqRetryClick (jv_id job)})"
  "offers (feed_item br ev) = (if e_jobId ev \<noteq> '''' then {SelectJob (e_jobId ev)} else {})"
  by (auto simp: list_row_def dlq_row_def feed_item_def split: option.splits)

lemma offers_action_button [simp]:
  "offers (action_button busy act) = (if busy then {} else {DrawerClick act})"
  by (cases act) auto

lemma offers_actions: "(\<Union>x \<in> A. offers (action_button busy x)) = (if busy then {} else DrawerClick ` A)"
  by auto

lemma offers_detail_view:
  "\<Union>(offers ` set (detail_view br i st)) = (if given i = None then {} else insert CloseDrawer
     (case dt_job st of None \<Rightarrow> {}
      | Some (job, evs) \<Rightarrow> if dt_busy st then {} else DrawerClick ` set (detail_actions (jv_status job))))"
proof (cases "given i")
  case (Some j)
  then show ?thesis
  proof (cases "dt_job st")
    case (Some x)
    obtain job evs where "x = (job, evs)" by fastforce
    then show ?thesis using Some \<open>given i = Some j\<close>
      unfolding detail_view_def by (simp add: image_image offers_actions del: offers_action_button)
  qed (simp add: detail_view_def)
qed (simp add: detail_view_def)

lemma read_status [simp]: "read_status (status_value s) = s"
proof (cases s)
  case None
  then show ?thesis by (simp add: read_status_def STATUS_OPTIONS_def status_value_def)
next
  case (Some st)
  then show ?thesis by (cases st) (simp_all add: read_status_def STATUS_OPTIONS_def status_value_def)
qed

lemma status_options_all: "set STATUS_OPTIONS = UNIV"
proof -
  have "s \<in> set STATUS_OPTIONS" for s :: "job_status option"
  proof (cases s)
    case (Some st)
    then show ?thesis by (cases st) (simp_all add: STATUS_OPTIONS_def)
  qed (simp add: STATUS_OPTIONS_def)
  then show ?thesis by blast
qed

lemma offers_list_filters:
  "offers (list_filters st) = ListInput ` (range SelectStatus \<union> range TypeFilter)"
proof -
  have "typed ''select'' (map (\<lambda>s. El ''option'' [Attr ''value'' (status_value s)] (t s)) STATUS_OPTIONS) =
      range status_value" for t :: "job_status option \<Rightarrow> ui_input view list"
    by (simp add: typed_def status_options_all image_image) (auto simp: image_iff)
  moreover have "(\<lambda>v. ListInput (SelectStatus (read_status v))) ` range status_value = ListInput ` range SelectStatus"
    by (simp add: image_image)
  ultimately show ?thesis by (auto simp: list_filters_def typed_def)
qed

lemma offers_list_pager:
  "offers (list_pager st) = ListInput ` ((if prev_enabled st then {Prev} else {}) \<union> (if next_enabled st then {Next} else {}))"
  by (simp add: list_pager_def)

lemma offers_list_view:
  "offers (list_view br st) = (\<lambda>j. SelectJob (jv_id j)) ` set (jl_jobs st) \<union>
     ListInput ` (range SelectStatus \<union> range TypeFilter \<union>
       (if prev_enabled st then {Prev} else {}) \<union> (if next_enabled st then {Next} else {}))"
  by (auto simp: list_view_def offers_list_filters offers_list_pager)

lemma offers_dlq_view:
  "offers (dlq_view br st) = (\<lambda>j. SelectJob (jv_id j)) ` set (dq_jobs st) \<union>
     DlqRetryClick ` (jv_id ` set (dq_jobs st) - set_option (dq_busyId st)) \<union>
     (if dq_jobs st = [] then {} else {DlqRetryAllClick})"
  by (auto simp: dlq_view_def split: if_splits)

lemma offers_form_view:
  "offers (form_view st) = insert FormSubmit (FormInput ` (range FormType \<union> range FormPayload \<union>
     FormPriority ` {''high'', ''normal'', ''low''} \<union> range FormDelay \<union> range FormRetries \<union> range FormKey))"
  by (auto simp: form_view_def form_fields_def typed_def)

lemma offers_event_feed_view:
  "offers (event_feed_view br evs) = SelectJob ` (e_jobId ` set evs - {''''})"
  by (auto simp: event_feed_view_def split: if_splits)

lemma offers_tabs_view: "offers (tabs_view t k) = range SetTab \<union> range KeyTyped"
proof -
  have "set TABS = UNIV" using tab.exhaust by (auto simp: TABS_def)
  then show ?thesis by (auto simp: tabs_view_def api_key_view_def typed_def)
qed

end
