(* ===== verification/Pages.thy ===== *)
theory Pages
  imports Markup
begin

text \<open>
  The dashboard as it runs: \<open>App.jsx\<close> with its tabs, the pages, the job drawer, the requests in
  flight and the socket. A page is mounted while its tab is shown; a handler that awaits a
  request goes on when the answer is there, whatever was selected or unmounted meanwhile, and
  what it sets on a page that is gone has no effect.
\<close>

section \<open>The state\<close>

text \<open>
  The requests of the pages, with what goes on after them. \<open>ListLoad\<close> and \<open>DrawerLoad\<close> are
  effects and carry the number of their run, the tasks of the other pages the number of the
  mount they belong to; \<open>DlqRetryAll\<close> the jobs its loop still has to do.
\<close>

datatype task =
    ListLoad nat route
  | DlqLoad nat
  | DlqRetry nat string
  | DlqRetryAll nat string "string list"
  | DrawerLoad nat string
  | DrawerAct job_action string
  | DrawerRefetch string
  | Submit nat enqueue_request

fun task_route :: "task \<Rightarrow> route" where
  "task_route (ListLoad n r) = r"
| "task_route (DlqLoad m) = dlq_request"
| "task_route (DlqRetry m i) = PostRetry i"
| "task_route (DlqRetryAll m i ids) = PostRetry i"
| "task_route (DrawerLoad n i) = GetJob i"
| "task_route (DrawerAct act i) = action_route act i"
| "task_route (DrawerRefetch i) = GetJob i"
| "task_route (Submit m rq) = PostJobs rq"

record pending =
  pd_task :: task
  pd_key :: string

record app =
  ap_tab :: tab
  ap_mount :: nat
  ap_selected :: "string option"
  ap_run :: nat
  ap_feed :: feed
  ap_history :: "(int \<times> int) list"
  ap_list :: job_list
  ap_dlq :: dlq_page
  ap_form :: form_page
  ap_detail :: detail
  ap_keyField :: string
  ap_stored :: "string option"
  ap_pending :: "pending list"

definition send_request :: "task \<Rightarrow> app \<Rightarrow> app" where
  "send_request t a = a\<lparr>ap_pending := ap_pending a @ [\<lparr>pd_task = t, pd_key = getApiKey (ap_stored a)\<rparr>]\<rparr>"

section \<open>Effects and mounting\<close>

definition load_list :: "job_list \<Rightarrow> app \<Rightarrow> app" where
  "load_list st a = send_request (ListLoad (jl_run st) (jl_request st)) (a\<lparr>ap_list := st\<rparr>)"

text \<open>The list after an input, with a request when its effect ran again.\<close>

definition list_input :: "jl_input \<Rightarrow> app \<Rightarrow> app" where
  "list_input i a = (let st = jl_step i (ap_list a) in
     if jl_run st = jl_run (ap_list a) then a\<lparr>ap_list := st\<rparr> else load_list st a)"

definition chart_effect :: "app \<Rightarrow> app" where
  "chart_effect a = (case fd_stats (ap_feed a) of None \<Rightarrow> a
     | Some (stats, t) \<Rightarrow> a\<lparr>ap_history := add_sample t stats (ap_history a)\<rparr>)"

text \<open>
  Mounting runs the effects of a page once. The number of the list's run is never used twice:
  unmounting cancels the run.
\<close>

definition mount_page :: "app \<Rightarrow> app" where
  "mount_page a = (case ap_tab a of
     Overview \<Rightarrow> load_list (jl_initial\<lparr>jl_run := Suc (jl_run (ap_list a))\<rparr>) (chart_effect (a\<lparr>ap_history := []\<rparr>))
   | DeadLetter \<Rightarrow> send_request (DlqLoad (ap_mount a)) (a\<lparr>ap_dlq := new_dlq\<rparr>)
   | SubmitTab \<Rightarrow> a\<lparr>ap_form := new_form\<rparr>)"

definition set_tab :: "tab \<Rightarrow> app \<Rightarrow> app" where
  "set_tab t a = (if t = ap_tab a then a else
     mount_page (a\<lparr>ap_tab := t, ap_mount := Suc (ap_mount a),
       ap_list := (ap_list a)\<lparr>jl_run := Suc (jl_run (ap_list a))\<rparr>\<rparr>))"

text \<open>\<open>bump\<close>: a new \<open>refreshToken\<close> runs the effect of the page that has it.\<close>

definition bump :: "app \<Rightarrow> app" where
  "bump a = (case ap_tab a of
     Overview \<Rightarrow> list_input Refresh a
   | DeadLetter \<Rightarrow> send_request (DlqLoad (ap_mount a)) a
   | SubmitTab \<Rightarrow> a)"

text \<open>A new \<open>jobId\<close> cancels the run of the drawer's effect, and loads the job if there is one.\<close>

definition select_job :: "string option \<Rightarrow> app \<Rightarrow> app" where
  "select_job i a = (if i = ap_selected a then a else
     let a = a\<lparr>ap_selected := i, ap_run := Suc (ap_run a)\<rparr> in
     case given i of None \<Rightarrow> a | Some j \<Rightarrow> send_request (DrawerLoad (ap_run a) j) a)"

section \<open>The user\<close>

definition set_key :: "string \<Rightarrow> app \<Rightarrow> app" where
  "set_key v a = a\<lparr>ap_keyField := v, ap_stored := Some v\<rparr>"

definition retry_click :: "string \<Rightarrow> app \<Rightarrow> app" where
  "retry_click i a = send_request (DlqRetry (ap_mount a) i) (a\<lparr>ap_dlq := (ap_dlq a)\<lparr>dq_busyId := Some i\<rparr>\<rparr>)"

text \<open>The loop of \<open>retryAll\<close>, for the jobs of the page it was rendered with.\<close>

definition set_dlq :: "nat \<Rightarrow> (dlq_page \<Rightarrow> dlq_page) \<Rightarrow> app \<Rightarrow> app" where
  "set_dlq m f a = (if ap_tab a = DeadLetter \<and> ap_mount a = m then a\<lparr>ap_dlq := f (ap_dlq a)\<rparr> else a)"

fun retry_loop :: "nat \<Rightarrow> string list \<Rightarrow> app \<Rightarrow> app" where
  "retry_loop m [] a = send_request (DlqLoad m) (set_dlq m (\<lambda>st. st\<lparr>dq_busyId := None\<rparr>) a)"
| "retry_loop m (i # ids) a =
     send_request (DlqRetryAll m i ids) (set_dlq m (\<lambda>st. st\<lparr>dq_busyId := Some i\<rparr>) a)"

definition drawer_click :: "job_action \<Rightarrow> app \<Rightarrow> app" where
  "drawer_click act a = (case ap_selected a of None \<Rightarrow> a
     | Some i \<Rightarrow> send_request (DrawerAct act i) (a\<lparr>ap_detail := (ap_detail a)\<lparr>dt_busy := True\<rparr>\<rparr>))"

fun form_input :: "form_input \<Rightarrow> submit_form \<Rightarrow> submit_form" where
  "form_input (FormType v) f = f\<lparr>sf_type := v\<rparr>"
| "form_input (FormPayload v) f = f\<lparr>sf_payload := v\<rparr>"
| "form_input (FormPriority v) f = f\<lparr>sf_priority := v\<rparr>"
| "form_input (FormDelay v) f = f\<lparr>sf_delay := v\<rparr>"
| "form_input (FormRetries v) f = f\<lparr>sf_maxRetries := v\<rparr>"
| "form_input (FormKey v) f = f\<lparr>sf_idempotencyKey := v\<rparr>"

text \<open>The browser submits the form only when its required field is filled in.\<close>

definition submit_click :: "browser \<Rightarrow> app \<Rightarrow> app" where
  "submit_click br a = (let f = fm_form (ap_form a) in
     if sf_type f = '''' then a else
     case handleSubmit (json_parse br) f of
       Inl err \<Rightarrow> a\<lparr>ap_form := \<lparr>fm_form = f, fm_result = None, fm_error = Some err\<rparr>\<rparr>
     | Inr rq \<Rightarrow> send_request (Submit (ap_mount a) rq) (a\<lparr>ap_form := \<lparr>fm_form = f, fm_result = None, fm_error = None\<rparr>\<rparr>))"

fun user_does :: "browser \<Rightarrow> ui_input \<Rightarrow> app \<Rightarrow> app" where
  "user_does br (SetTab t) a = set_tab t a"
| "user_does br (SelectJob i) a = select_job (Some i) a"
| "user_does br CloseDrawer a = select_job None a"
| "user_does br (KeyTyped v) a = set_key v a"
| "user_does br (ListInput i) a = list_input i a"
| "user_does br (DlqRetryClick i) a = retry_click i a"
| "user_does br DlqRetryAllClick a = retry_loop (ap_mount a) (map jv_id (dq_jobs (ap_dlq a))) a"
| "user_does br (DrawerClick act) a = drawer_click act a"
| "user_does br (FormInput i) a = a\<lparr>ap_form := (ap_form a)\<lparr>fm_form := form_input i (fm_form (ap_form a))\<rparr>\<rparr>"
| "user_does br FormSubmit a = submit_click br a"

section \<open>The answers\<close>

type_synonym answer = "client_error + body option"

text \<open>An answer to the list request; the server answers it with nothing but a page or an error.\<close>

fun jobs_page :: "answer \<Rightarrow> (client_error + (job_view list \<times> int)) option" where
  "jobs_page (Inl err) = Some (Inl err)"
| "jobs_page (Inr (Some (BJobs js tot p sz))) = Some (Inr (js, tot))"
| "jobs_page _ = None"

definition list_answer :: "nat \<Rightarrow> answer \<Rightarrow> app \<Rightarrow> app" where
  "list_answer n r a = (case jobs_page r of None \<Rightarrow> a | Some res \<Rightarrow> a\<lparr>ap_list := jl_answer n res (ap_list a)\<rparr>)"

definition dlq_answer :: "answer \<Rightarrow> dlq_page \<Rightarrow> dlq_page" where
  "dlq_answer r st = (case jobs_page r of None \<Rightarrow> st
     | Some (Inl err) \<Rightarrow> st\<lparr>dq_error := Some (ce_message err)\<rparr>
     | Some (Inr (js, tot)) \<Rightarrow> st\<lparr>dq_jobs := js\<rparr>)"

definition retry_answer :: "answer \<Rightarrow> dlq_page \<Rightarrow> dlq_page" where
  "retry_answer r st = (case r of
     Inl err \<Rightarrow> st\<lparr>dq_error := Some (ce_message err), dq_busyId := None\<rparr>
   | Inr _ \<Rightarrow> st\<lparr>dq_busyId := None\<rparr>)"

text \<open>\<open>handleRetry\<close> and \<open>handleCancel\<close> after the action, and after the job was fetched again.\<close>

definition action_failed :: "client_error \<Rightarrow> app \<Rightarrow> app" where
  "action_failed err a = a\<lparr>ap_detail := (ap_detail a)\<lparr>dt_error := Some (ce_message err), dt_busy := False\<rparr>\<rparr>"

definition act_answer :: "string \<Rightarrow> answer \<Rightarrow> app \<Rightarrow> app" where
  "act_answer i r a = (case r of Inl err \<Rightarrow> action_failed err a | Inr _ \<Rightarrow> send_request (DrawerRefetch i) a)"

definition refetch_answer :: "answer \<Rightarrow> app \<Rightarrow> app" where
  "refetch_answer r a = (case r of Inl err \<Rightarrow> action_failed err a
     | Inr _ \<Rightarrow> (let st = show_job r (ap_detail a) in
         bump (a\<lparr>ap_detail := st\<lparr>dt_busy := False, dt_changed := Suc (dt_changed st)\<rparr>\<rparr>)))"

definition load_answer :: "nat \<Rightarrow> answer \<Rightarrow> app \<Rightarrow> app" where
  "load_answer n r a = (if n = ap_run a then a\<lparr>ap_detail := show_job r (ap_detail a)\<rparr> else a)"

definition set_form :: "nat \<Rightarrow> (form_page \<Rightarrow> form_page) \<Rightarrow> app \<Rightarrow> app" where
  "set_form m f a = (if ap_tab a = SubmitTab \<and> ap_mount a = m then a\<lparr>ap_form := f (ap_form a)\<rparr> else a)"

definition submit_answer :: "nat \<Rightarrow> answer \<Rightarrow> app \<Rightarrow> app" where
  "submit_answer m r a = (case r of
     Inl err \<Rightarrow> set_form m (\<lambda>st. st\<lparr>fm_error := Some (ce_message err)\<rparr>) a
   | Inr (Some (BSubmitted i st pr t deduped)) \<Rightarrow> bump (set_form m (\<lambda>st. st\<lparr>fm_result := Some (i, deduped)\<rparr>) a)
   | Inr _ \<Rightarrow> bump a)"

fun answered :: "task \<Rightarrow> answer \<Rightarrow> app \<Rightarrow> app" where
  "answered (ListLoad n rq) r a = list_answer n r a"
| "answered (DlqLoad m) r a = set_dlq m (dlq_answer r) a"
| "answered (DlqRetry m i) r a = send_request (DlqLoad m) (set_dlq m (retry_answer r) a)"
| "answered (DlqRetryAll m i ids) r a = retry_loop m ids a"
| "answered (DrawerLoad n i) r a = load_answer n r a"
| "answered (DrawerAct act i) r a = act_answer i r a"
| "answered (DrawerRefetch i) r a = refetch_answer r a"
| "answered (Submit m rq) r a = submit_answer m r a"

section \<open>The application\<close>

definition app_main :: "browser \<Rightarrow> app \<Rightarrow> ui_input view list" where
  "app_main br a = (case ap_tab a of
     Overview \<Rightarrow> [El ''div'' [cls ''grid-2col'']
       [El ''div'' [] [stats_view (map_option fst (fd_stats (ap_feed a))), chart_view br (ap_history a),
          event_feed_view br (fd_events (ap_feed a))], list_view br (ap_list a)]]
   | DeadLetter \<Rightarrow> [dlq_view br (ap_dlq a)]
   | SubmitTab \<Rightarrow> [form_view (ap_form a)])"

definition app_view :: "browser \<Rightarrow> app \<Rightarrow> ui_input view" where
  "app_view br a = El ''div'' [cls ''app-shell''] (
     [El ''header'' [cls ''app-header''] [El ''h1'' [] [Text ''Distributed Job Queue''], conn_status (fd_connected (ap_feed a))],
      tabs_view (ap_tab a) (ap_keyField a), El ''main'' [cls ''app-main''] (app_main br a)] @
     detail_view br (ap_selected a) (ap_detail a))"

text \<open>The page when it is opened, with the key of the local storage.\<close>

definition app_initial :: "string option \<Rightarrow> app" where
  "app_initial stored = mount_page \<lparr>ap_tab = Overview, ap_mount = 0, ap_selected = None, ap_run = 0,
     ap_feed = new_feed, ap_history = [], ap_list = jl_initial, ap_dlq = new_dlq, ap_form = new_form,
     ap_detail = \<lparr>dt_job = None, dt_error = None, dt_busy = False, dt_changed = 0\<rparr>,
     ap_keyField = getApiKey stored, ap_stored = stored, ap_pending = []\<rparr>"

definition maxEvents_default :: nat where
  "maxEvents_default = 200"

text \<open>The effect of the chart depends on the statistics, a new object with every frame of them.\<close>

definition frame_arrives :: "frame option \<Rightarrow> app \<Rightarrow> app" where
  "frame_arrives f a = (let a' = a\<lparr>ap_feed := socket_onmessage maxEvents_default f (ap_feed a)\<rparr> in
     case f of Some (FStats stats t) \<Rightarrow> if ap_tab a = Overview then chart_effect a' else a' | _ \<Rightarrow> a')"

definition drop_nth :: "nat \<Rightarrow> 'b list \<Rightarrow> 'b list" where
  "drop_nth k xs = take k xs @ drop (Suc k) xs"

text \<open>
  Any order of inputs the view offers, answers (of the server, or errors of the network) and
  frames of the socket.
\<close>

inductive ui_step :: "browser \<Rightarrow> (pending \<Rightarrow> answer \<Rightarrow> bool) \<Rightarrow> app \<Rightarrow> app \<Rightarrow> bool" for br gives where
  acts: "i \<in> offers (app_view br a) \<Longrightarrow> ui_step br gives a (user_does br i a)"
| answers: "k < length (ap_pending a) \<Longrightarrow> gives (ap_pending a ! k) r \<Longrightarrow>
    ui_step br gives a (answered (pd_task (ap_pending a ! k)) r (a\<lparr>ap_pending := drop_nth k (ap_pending a)\<rparr>))"
| frame: "ui_step br gives a (frame_arrives f a)"
| opened: "ui_step br gives a (a\<lparr>ap_feed := socket_onopen (ap_feed a)\<rparr>)"
| closed: "ui_step br gives a (a\<lparr>ap_feed := snd (socket_onclose False (ap_feed a))\<rparr>)"

abbreviation ui_run :: "browser \<Rightarrow> (pending \<Rightarrow> answer \<Rightarrow> bool) \<Rightarrow> app \<Rightarrow> app \<Rightarrow> bool" where
  "ui_run br gives \<equiv> (ui_step br gives)\<^sup>*\<^sup>*"

section \<open>What the application offers\<close>

definition page_offers :: "browser \<Rightarrow> app \<Rightarrow> ui_input set" where
  "page_offers br a = (case ap_tab a of
     Overview \<Rightarrow> SelectJob ` (e_jobId ` set (fd_events (ap_feed a)) - {''''}) \<union> offers (list_view br (ap_list a))
   | DeadLetter \<Rightarrow> offers (dlq_view br (ap_dlq a))
   | SubmitTab \<Rightarrow> offers (form_view (ap_form a)))"

lemma offers_app_view:
  "offers (app_view br a) = range SetTab \<union> range KeyTyped \<union> page_offers br a \<union>
     \<Union>(offers ` set (detail_view br (ap_selected a) (ap_detail a)))"
  by (cases "ap_tab a")
    (simp_all add: app_view_def app_main_def page_offers_def offers_tabs_view offers_event_feed_view Un_assoc)

lemma offered_priority:
  "FormInput (FormPriority v) \<in> offers (app_view br a) \<Longrightarrow> v \<in> {''high'', ''normal'', ''low''}"
  unfolding offers_app_view page_offers_def
  by (cases "ap_tab a")
    (auto simp: offers_list_view offers_dlq_view offers_form_view offers_detail_view split: option.splits if_splits)

section \<open>The requests of the pages\<close>

definition task_ok :: "browser \<Rightarrow> job_list \<Rightarrow> task \<Rightarrow> bool" where
  "task_ok br st t = (case t of
     ListLoad n r \<Rightarrow> schema_ok r \<and> n \<le> jl_run st \<and> (n = jl_run st \<longrightarrow> r = jl_request st)
   | Submit m rq \<Rightarrow> \<exists>f. form_ok f \<and> handleSubmit (json_parse br) f = Inr rq
   | _ \<Rightarrow> True)"

definition ui_inv :: "browser \<Rightarrow> app \<Rightarrow> bool" where
  "ui_inv br a \<longleftrightarrow> 1 \<le> jl_page (ap_list a) \<and> sf_priority (fm_form (ap_form a)) \<in> {''high'', ''normal'', ''low''} \<and>
     (\<forall>p \<in> set (ap_pending a). task_ok br (ap_list a) (pd_task p) \<and> pd_key p \<noteq> '''')"

lemma getApiKey_nonempty [simp]: "getApiKey stored \<noteq> ''''"
  by (cases stored rule: given.cases) (auto simp: getApiKey_def)

lemma send_request_fields [simp]:
  "ap_tab (send_request t a) = ap_tab a" "ap_mount (send_request t a) = ap_mount a"
  "ap_selected (send_request t a) = ap_selected a" "ap_run (send_request t a) = ap_run a"
  "ap_feed (send_request t a) = ap_feed a" "ap_list (send_request t a) = ap_list a"
  "ap_dlq (send_request t a) = ap_dlq a" "ap_form (send_request t a) = ap_form a"
  "ap_detail (send_request t a) = ap_detail a" "ap_stored (send_request t a) = ap_stored a"
  "ap_pending (send_request t a) = ap_pending a @ [\<lparr>pd_task = t, pd_key = getApiKey (ap_stored a)\<rparr>]"
  by (simp_all add: send_request_def)

lemma ui_inv_send: "ui_inv br a \<Longrightarrow> task_ok br (ap_list a) t \<Longrightarrow> ui_inv br (send_request t a)"
  by (auto simp: ui_inv_def)

lemma schema_jl_request: "1 \<le> jl_page st \<Longrightarrow> schema_ok (jl_request st)"
  by (simp add: jl_request_def api_listJobs_def jl_pageSize_def listSchema_def int_within_def)

lemma ui_inv_load_list:
  assumes "ui_inv br a" and "1 \<le> jl_page st" and "jl_run (ap_list a) < jl_run st"
  shows "ui_inv br (load_list st a)"
proof -
  have "task_ok br st t" if "task_ok br (ap_list a) t" for t
    using that assms(3) by (auto simp: task_ok_def split: task.splits)
  then have "ui_inv br (a\<lparr>ap_list := st\<rparr>)" using assms(1,2) by (auto simp: ui_inv_def)
  then show ?thesis
    unfolding load_list_def
    by (rule ui_inv_send) (simp add: task_ok_def schema_jl_request assms(2))
qed

lemma jl_step_run:
  "jl_run (jl_step i st) = jl_run st \<and> jl_status (jl_step i st) = jl_status st \<and>
     jl_type (jl_step i st) = jl_type st \<and> jl_page (jl_step i st) = jl_page st \<or> jl_run st < jl_run (jl_step i st)"
  by (cases i) (auto simp: jl_rerun_def jl_effect_def)

lemma jl_step_page: "1 \<le> jl_page st \<Longrightarrow> 1 \<le> jl_page (jl_step i st)"
  by (cases i) (auto simp: jl_rerun_def jl_effect_def prev_enabled_def)

lemma ui_inv_same_request:
  assumes "ui_inv br a" and "jl_run st = jl_run (ap_list a)" and "jl_status st = jl_status (ap_list a)"
    and "jl_type st = jl_type (ap_list a)" and "jl_page st = jl_page (ap_list a)"
  shows "ui_inv br (a\<lparr>ap_list := st\<rparr>)"
proof -
  have "jl_request st = jl_request (ap_list a)" using assms by (simp add: jl_request_def)
  then have "task_ok br st = task_ok br (ap_list a)" using assms(2) by (simp add: task_ok_def fun_eq_iff split: task.split)
  then show ?thesis using assms by (simp add: ui_inv_def)
qed

lemma ui_inv_list_input: "ui_inv br a \<Longrightarrow> ui_inv br (list_input i a)"
  using jl_step_run [of i "ap_list a"] jl_step_page [of "ap_list a" i]
  by (auto simp: list_input_def Let_def ui_inv_def [of br a] intro: ui_inv_same_request ui_inv_load_list)

lemma ui_inv_other [simp]:
  "ui_inv br (a\<lparr>ap_feed := f\<rparr>) = ui_inv br a" "ui_inv br (a\<lparr>ap_history := h\<rparr>) = ui_inv br a"
  "ui_inv br (a\<lparr>ap_dlq := d\<rparr>) = ui_inv br a" "ui_inv br (a\<lparr>ap_detail := dt\<rparr>) = ui_inv br a"
  "ui_inv br (a\<lparr>ap_selected := sel\<rparr>) = ui_inv br a" "ui_inv br (a\<lparr>ap_run := n\<rparr>) = ui_inv br a"
  "ui_inv br (a\<lparr>ap_keyField := k\<rparr>) = ui_inv br a" "ui_inv br (a\<lparr>ap_stored := so\<rparr>) = ui_inv br a"
  "ui_inv br (a\<lparr>ap_tab := tb\<rparr>) = ui_inv br a" "ui_inv br (a\<lparr>ap_mount := m\<rparr>) = ui_inv br a"
  by (simp_all add: ui_inv_def)

lemma ui_inv_form:
  "ui_inv br a \<Longrightarrow> sf_priority (fm_form f) \<in> {''high'', ''normal'', ''low''} \<Longrightarrow> ui_inv br (a\<lparr>ap_form := f\<rparr>)"
  by (simp add: ui_inv_def)

lemma ui_inv_chart [simp]: "ui_inv br (chart_effect a) = ui_inv br a"
  by (simp add: chart_effect_def split: option.split)

lemma chart_effect_list [simp]: "ap_list (chart_effect a) = ap_list a"
  by (simp add: chart_effect_def split: option.split)

lemma task_ok_others [simp]:
  "task_ok br st (DlqLoad m)" "task_ok br st (DlqRetry m i)" "task_ok br st (DlqRetryAll m i ids)"
  "task_ok br st (DrawerLoad n i)" "task_ok br st (DrawerAct act i)" "task_ok br st (DrawerRefetch i)"
  by (simp_all add: task_ok_def)

lemma ui_inv_mount_page: "ui_inv br a \<Longrightarrow> ui_inv br (mount_page a)"
  by (cases "ap_tab a")
    (auto simp: mount_page_def new_form_def jl_initial_def jl_effect_def intro!: ui_inv_load_list ui_inv_send ui_inv_form)

lemma ui_inv_unmount: "ui_inv br a \<Longrightarrow> ui_inv br (a\<lparr>ap_list := (ap_list a)\<lparr>jl_run := Suc (jl_run (ap_list a))\<rparr>\<rparr>)"
  by (auto simp: ui_inv_def task_ok_def split: task.splits)

lemma ui_inv_set_tab: "ui_inv br a \<Longrightarrow> ui_inv br (set_tab t a)"
proof -
  assume "ui_inv br a"
  from ui_inv_unmount [OF this]
  have "ui_inv br (a\<lparr>ap_tab := t, ap_mount := Suc (ap_mount a), ap_list := (ap_list a)\<lparr>jl_run := Suc (jl_run (ap_list a))\<rparr>\<rparr>)"
    by (simp add: ui_inv_def)
  with \<open>ui_inv br a\<close> show ?thesis by (simp add: set_tab_def ui_inv_mount_page)
qed

lemma ui_inv_bump: "ui_inv br a \<Longrightarrow> ui_inv br (bump a)"
  by (cases "ap_tab a") (auto simp: bump_def ui_inv_list_input ui_inv_send)

lemma ui_inv_select_job: "ui_inv br a \<Longrightarrow> ui_inv br (select_job i a)"
  by (auto simp: select_job_def Let_def ui_inv_send split: option.split)

lemma ui_inv_set_dlq: "ui_inv br a \<Longrightarrow> ui_inv br (set_dlq m f a)"
  by (simp add: set_dlq_def)

lemma ui_inv_retry_loop: "ui_inv br a \<Longrightarrow> ui_inv br (retry_loop m ids a)"
  by (cases ids) (auto intro: ui_inv_send ui_inv_set_dlq)

lemma ui_inv_submit_click: "ui_inv br a \<Longrightarrow> ui_inv br (submit_click br a)"
proof -
  assume inv: "ui_inv br a"
  let ?f = "fm_form (ap_form a)"
  have "form_ok ?f" if "sf_type ?f \<noteq> ''''" using that inv by (auto simp: form_ok_def ui_inv_def)
  then show ?thesis
    using inv
    by (auto simp: submit_click_def Let_def task_ok_def ui_inv_def [of br a] intro!: ui_inv_send ui_inv_form
        split: sum.split)
qed

lemma ui_inv_user:
  assumes "ui_inv br a" and "i \<in> offers (app_view br a)"
  shows "ui_inv br (user_does br i a)"
proof (cases i)
  case (FormInput fi)
  then have "sf_priority (form_input fi (fm_form (ap_form a))) \<in> {''high'', ''normal'', ''low''}"
    using assms offered_priority [of _ br a] by (cases fi) (auto simp: ui_inv_def)
  then show ?thesis using FormInput assms(1) by (auto intro: ui_inv_form)
qed (use assms(1) in \<open>auto simp: ui_inv_set_tab ui_inv_select_job set_key_def ui_inv_list_input retry_click_def
      ui_inv_retry_loop ui_inv_send drawer_click_def ui_inv_submit_click simp del: retry_loop.simps split: option.split\<close>)

lemma jl_answer_request:
  "jl_run (jl_answer n res st) = jl_run st" "jl_status (jl_answer n res st) = jl_status st"
  "jl_type (jl_answer n res st) = jl_type st" "jl_page (jl_answer n res st) = jl_page st"
  by (simp_all add: jl_answer_def split: sum.split prod.split)

lemma ui_inv_set_form: "ui_inv br a \<Longrightarrow> (\<And>st. fm_form (f st) = fm_form st) \<Longrightarrow> ui_inv br (set_form m f a)"
  by (auto simp: set_form_def ui_inv_def)

lemma ui_inv_answered: "ui_inv br a \<Longrightarrow> ui_inv br (answered t r a)"
proof (cases t)
  case (Submit m rq)
  assume "ui_inv br a"
  then show ?thesis
    using Submit by (auto simp: submit_answer_def ui_inv_bump ui_inv_set_form split: sum.split option.split body.split)
qed (auto simp: list_answer_def load_answer_def act_answer_def refetch_answer_def Let_def action_failed_def jl_answer_request
    simp del: retry_loop.simps intro!: ui_inv_same_request ui_inv_retry_loop ui_inv_send ui_inv_set_dlq ui_inv_bump
    split: option.split sum.split)

lemma drop_nth_subset: "set (drop_nth k xs) \<subseteq> set xs"
  by (auto simp: drop_nth_def dest: in_set_takeD in_set_dropD)

lemma ui_inv_step: "ui_step br gives a b \<Longrightarrow> ui_inv br a \<Longrightarrow> ui_inv br b"
proof (induction rule: ui_step.induct)
  case (answers k a r)
  then have "ui_inv br (a\<lparr>ap_pending := drop_nth k (ap_pending a)\<rparr>)"
    using drop_nth_subset by (fastforce simp: ui_inv_def)
  then show ?case by (rule ui_inv_answered)
next
  case (frame a f)
  then show ?case by (auto simp: frame_arrives_def Let_def split: option.split frame.split)
qed (simp_all add: ui_inv_user)

lemma ui_inv_run: "ui_run br gives a b \<Longrightarrow> ui_inv br a \<Longrightarrow> ui_inv br b"
  by (induction rule: rtranclp_induct) (auto intro: ui_inv_step)

lemma ui_inv_initial: "ui_inv br (app_initial stored)"
  unfolding app_initial_def
  by (rule ui_inv_mount_page) (simp add: ui_inv_def jl_initial_def jl_effect_def new_form_def)

section \<open>The drawer\<close>

text \<open>What the drawer depends on.\<close>

fun drawer_task :: "task \<Rightarrow> bool" where
  "drawer_task (DrawerLoad n i) = True"
| "drawer_task (DrawerAct act i) = True"
| "drawer_task (DrawerRefetch i) = True"
| "drawer_task _ = False"

definition drawer_tasks :: "app \<Rightarrow> task list" where
  "drawer_tasks a = filter drawer_task (map pd_task (ap_pending a))"

definition drawer_part :: "app \<Rightarrow> string option \<times> nat \<times> detail \<times> task list" where
  "drawer_part a = (ap_selected a, ap_run a, ap_detail a, drawer_tasks a)"

lemma drawer_part_send [simp]:
  "drawer_part (send_request t a) = (ap_selected a, ap_run a, ap_detail a, drawer_tasks a @ (if drawer_task t then [t] else []))"
  by (simp add: drawer_part_def drawer_tasks_def)

lemma drawer_part_eq:
  "ap_selected b = ap_selected a \<Longrightarrow> ap_run b = ap_run a \<Longrightarrow> ap_detail b = ap_detail a \<Longrightarrow>
    ap_pending b = ap_pending a \<Longrightarrow> drawer_part b = drawer_part a"
  by (simp add: drawer_part_def drawer_tasks_def)

lemma drawer_part_update [simp]:
  "drawer_part (a\<lparr>ap_list := st\<rparr>) = drawer_part a" "drawer_part (a\<lparr>ap_feed := f\<rparr>) = drawer_part a"
  "drawer_part (a\<lparr>ap_history := h\<rparr>) = drawer_part a" "drawer_part (a\<lparr>ap_dlq := d\<rparr>) = drawer_part a"
  "drawer_part (a\<lparr>ap_form := fo\<rparr>) = drawer_part a" "drawer_part (a\<lparr>ap_tab := tb\<rparr>) = drawer_part a"
  "drawer_part (a\<lparr>ap_mount := m\<rparr>) = drawer_part a" "drawer_part (a\<lparr>ap_keyField := k\<rparr>) = drawer_part a"
  "drawer_part (a\<lparr>ap_stored := so\<rparr>) = drawer_part a"
  by (simp_all add: drawer_part_def drawer_tasks_def)

lemma drawer_part_fields: "drawer_part a = (ap_selected a, ap_run a, ap_detail a, drawer_tasks a)"
  by (fact drawer_part_def)

lemma drawer_part_pages [simp]:
  "drawer_part (load_list st a) = drawer_part a" "drawer_part (list_input i a) = drawer_part a"
  "drawer_part (chart_effect a) = drawer_part a"
  by (simp_all add: load_list_def list_input_def Let_def chart_effect_def drawer_part_def drawer_tasks_def
      send_request_def split: option.split)

lemma drawer_part_mount [simp]: "drawer_part (mount_page a) = drawer_part a"
  by (cases "ap_tab a") (simp_all add: mount_page_def drawer_part_def drawer_tasks_def send_request_def
      load_list_def chart_effect_def split: option.split)

lemma drawer_part_rest [simp]:
  "drawer_part (set_tab t a) = drawer_part a" "drawer_part (bump a) = drawer_part a"
  "drawer_part (set_dlq m f a) = drawer_part a" "drawer_part (set_form m fo a) = drawer_part a"
  "drawer_part (set_key v a) = drawer_part a" "drawer_part (retry_click i a) = drawer_part a"
  "drawer_part (frame_arrives fr a) = drawer_part a" "drawer_part (list_answer n r a) = drawer_part a"
  "drawer_part (submit_click br a) = drawer_part a" "drawer_part (submit_answer m r a) = drawer_part a"
proof -
  show b: "drawer_part (bump a) = drawer_part a" for a
    by (cases "ap_tab a") (simp_all add: bump_def drawer_part_fields [of "a"])
  show f: "drawer_part (set_form m fo a) = drawer_part a" for fo
    by (simp add: set_form_def)
  show "drawer_part (submit_answer m r a) = drawer_part a"
    by (simp add: submit_answer_def b f split: sum.split option.split body.split)
qed (simp_all add: set_tab_def set_dlq_def set_key_def retry_click_def frame_arrives_def Let_def list_answer_def
    submit_click_def drawer_part_fields [of a] drawer_tasks_def split: option.split frame.split sum.split)

lemma drawer_tasks_send: "drawer_tasks (send_request t a) = drawer_tasks a @ (if drawer_task t then [t] else [])"
  by (simp add: drawer_tasks_def)

lemma drawer_part_send_other: "\<not> drawer_task t \<Longrightarrow> drawer_part (send_request t a) = drawer_part a"
  by (simp add: drawer_part_def drawer_tasks_def)

lemma drawer_part_loop [simp]: "drawer_part (retry_loop m ids a) = drawer_part a"
  using drawer_part_rest(3) [of m _ a] by (cases ids) (simp_all add: drawer_part_def drawer_tasks_send)

text \<open>
  A user who waits for a retry or a cancellation to be answered before opening or closing
  another job.
\<close>

definition acting :: "app \<Rightarrow> bool" where
  "acting a \<longleftrightarrow> (\<exists>t \<in> set (drawer_tasks a). \<forall>n i. t \<noteq> DrawerLoad n i)"

inductive waiting_run :: "browser \<Rightarrow> (pending \<Rightarrow> answer \<Rightarrow> bool) \<Rightarrow> app \<Rightarrow> app \<Rightarrow> bool" for br gives a where
  start: "waiting_run br gives a a"
| more: "waiting_run br gives a b \<Longrightarrow> ui_step br gives b c \<Longrightarrow>
    ap_selected c = ap_selected b \<or> \<not> acting b \<Longrightarrow> waiting_run br gives a c"

definition showing :: "string \<Rightarrow> detail \<Rightarrow> bool" where
  "showing i st \<longleftrightarrow> (\<exists>v evs. dt_job st = Some (v, evs) \<and> jv_id v = i)"

text \<open>The requests of the drawer are for the job selected, apart from cancelled loads.\<close>

fun for_selected :: "string option \<Rightarrow> nat \<Rightarrow> task \<Rightarrow> bool" where
  "for_selected sel cur (DrawerLoad n j) \<longleftrightarrow> n \<le> cur \<and> (n = cur \<longrightarrow> sel = Some j)"
| "for_selected sel cur (DrawerAct act j) \<longleftrightarrow> sel = Some j"
| "for_selected sel cur (DrawerRefetch j) \<longleftrightarrow> sel = Some j"
| "for_selected sel cur _ \<longleftrightarrow> True"

fun drawer_inv :: "string option \<times> nat \<times> detail \<times> task list \<Rightarrow> bool" where
  "drawer_inv (sel, cur, st, tasks) \<longleftrightarrow> (\<forall>t \<in> set tasks. for_selected sel cur t) \<and>
     (\<forall>i. sel = Some i \<and> i \<noteq> '''' \<longrightarrow> showing i st \<or> DrawerLoad cur i \<in> set tasks \<or> dt_error st \<noteq> None)"

text \<open>The server answers a request for a job with that job.\<close>

definition own_job :: "(pending \<Rightarrow> answer \<Rightarrow> bool) \<Rightarrow> bool" where
  "own_job gives \<longleftrightarrow> (\<forall>p i r. gives p r \<longrightarrow> task_route (pd_task p) = GetJob i \<longrightarrow>
     (\<exists>err. r = Inl err) \<or> (\<exists>v evs. r = Inr (Some (BJobEvents v evs)) \<and> jv_id v = i))"

definition select_part :: "string option \<Rightarrow> string option \<times> nat \<times> detail \<times> task list \<Rightarrow>
    string option \<times> nat \<times> detail \<times> task list" where
  "select_part i d = (case d of (sel, cur, st, tasks) \<Rightarrow> if i = sel then d else
     (i, Suc cur, st, tasks @ (case given i of None \<Rightarrow> [] | Some j \<Rightarrow> [DrawerLoad (Suc cur) j])))"

lemma drawer_part_select: "drawer_part (select_job i a) = select_part i (drawer_part a)"
  by (auto simp: select_job_def select_part_def Let_def drawer_part_def drawer_tasks_def split: option.split)

lemma given_Some: "given (Some i) = (if i = '''' then None else Some i)"
  by (cases i) auto

lemma drawer_inv_select:
  assumes "drawer_inv (sel, cur, st, tasks)" and "i = sel \<or> (\<forall>t \<in> set tasks. \<exists>n j. t = DrawerLoad n j)"
  shows "drawer_inv (select_part i (sel, cur, st, tasks))"
proof (cases "i = sel")
  case False
  have "for_selected i (Suc cur) t" if "t \<in> set tasks" for t
    using that assms False by fastforce
  then show ?thesis
    using False by (cases i) (auto simp: select_part_def given_Some)
qed (use assms in \<open>simp add: select_part_def\<close>)


lemma drawer_inv_user:
  assumes "drawer_inv (drawer_part a)" and "ap_selected (user_does br i a) = ap_selected a \<or> \<not> acting a"
  shows "drawer_inv (drawer_part (user_does br i a))"
proof -
  have sel: "drawer_inv (drawer_part (select_job j a))" if "ap_selected (select_job j a) = ap_selected a \<or> \<not> acting a" for j
  proof -
    have "ap_selected (select_job j a) = j" by (simp add: select_job_def Let_def split: option.split)
    then have "j = ap_selected a \<or> (\<forall>t \<in> set (drawer_tasks a). \<exists>n j. t = DrawerLoad n j)"
      using that unfolding acting_def by metis
    from drawer_inv_select [OF assms(1) [unfolded drawer_part_def] this] show ?thesis
      unfolding drawer_part_select unfolding drawer_part_def .
  qed
  show ?thesis
  proof (cases i)
    case (DrawerClick act)
    then show ?thesis
      using assms(1)
      by (cases "ap_selected a") (auto simp: drawer_click_def drawer_part_def drawer_tasks_def showing_def)
  qed (use assms sel in \<open>simp_all del: retry_loop.simps\<close>)
qed

lemma drop_nth_tasks:
  assumes "k < length xs"
  shows "set xs = insert (xs ! k) (set (drop_nth k xs))"
  by (subst id_take_nth_drop [OF assms]) (auto simp: drop_nth_def)

lemma drawer_inv_tasks:
  assumes "drawer_inv (sel, cur, st, tasks)" and "set tasks = insert t (set tasks')"
  shows "\<forall>t' \<in> set tasks'. for_selected sel cur t'" and "for_selected sel cur t"
    and "sel = Some i \<Longrightarrow> i \<noteq> '''' \<Longrightarrow> showing i st \<or> t = DrawerLoad cur i \<or> DrawerLoad cur i \<in> set tasks' \<or> dt_error st \<noteq> None"
  using assms by auto

lemma show_job_own:
  assumes "(\<exists>err. r = Inl err) \<or> (\<exists>v evs. r = Inr (Some (BJobEvents v evs)) \<and> jv_id v = i)"
  shows "showing i (show_job r st) \<or> dt_error (show_job r st) \<noteq> None"
  using assms by (auto simp: show_job_def showing_def)

lemma show_job_error: "dt_error st \<noteq> None \<Longrightarrow> dt_error (show_job r st) \<noteq> None"
  by (auto simp: show_job_def split: sum.split option.split body.split)

lemma drawer_inv_answered:
  assumes inv: "drawer_inv (sel, cur, st, tasks)" and part: "drawer_part a = (sel, cur, st, tasks')"
    and tasks: "drawer_task t \<Longrightarrow> set tasks = insert t (set tasks')" "\<not> drawer_task t \<Longrightarrow> set tasks = set tasks'"
    and own: "\<And>i. task_route t = GetJob i \<Longrightarrow>
      (\<exists>err. r = Inl err) \<or> (\<exists>v evs. r = Inr (Some (BJobEvents v evs)) \<and> jv_id v = i)"
  shows "drawer_inv (drawer_part (answered t r a))"
proof -
  have rest: ?thesis if "drawer_part (answered t r a) = drawer_part a" "\<not> drawer_task t"
    using that inv tasks(2) part by simp
  show ?thesis
  proof (cases t)
    case (DrawerLoad n i)
    note facts = drawer_inv_tasks [OF inv, of "DrawerLoad n i" tasks'] and t = tasks(1) [unfolded DrawerLoad]
    show ?thesis
      using facts [OF t] part show_job_own [OF own [of i], of st]
      by (auto simp: DrawerLoad load_answer_def drawer_part_def drawer_tasks_def)
  next
    case (DrawerAct act i)
    note facts = drawer_inv_tasks [OF inv, of "DrawerAct act i" tasks'] and t = tasks(1) [unfolded DrawerAct]
    show ?thesis
      using facts [OF t] part
      by (auto simp: DrawerAct act_answer_def action_failed_def drawer_part_def drawer_tasks_def split: sum.split)
  next
    case (DrawerRefetch i)
    note facts = drawer_inv_tasks [OF inv, of "DrawerRefetch i" tasks'] and t = tasks(1) [unfolded DrawerRefetch]
    have own': "showing i (show_job r st) \<or> dt_error (show_job r st) \<noteq> None"
      using show_job_own [OF own [of i]] DrawerRefetch by simp
    have keep: "showing i (d\<lparr>dt_busy := b, dt_changed := c\<rparr>) = showing i d" for d b c by (simp add: showing_def)
    show ?thesis
    proof (cases r)
      case (Inl err)
      then show ?thesis
        using facts [OF t] part
        by (auto simp: DrawerRefetch refetch_answer_def action_failed_def drawer_part_def drawer_tasks_def)
    next
      case (Inr v)
      have "drawer_part (answered t r a) = (sel, cur, (show_job r st)\<lparr>dt_busy := False,
          dt_changed := Suc (dt_changed (show_job r st))\<rparr>, tasks')"
        using part
        by (simp add: DrawerRefetch Inr refetch_answer_def Let_def drawer_part_fields [of "a\<lparr>ap_detail := _\<rparr>"])
          (simp add: drawer_part_def drawer_tasks_def)
      then show ?thesis using facts(1,2) [OF t] own' by (auto simp: keep)
    qed
  qed (use rest in \<open>simp_all del: retry_loop.simps drawer_part_send add: drawer_part_send_other\<close>)
qed

lemma drawer_inv_step:
  assumes "ui_step br gives a b" and "own_job gives" and "drawer_inv (drawer_part a)"
    and "ap_selected b = ap_selected a \<or> \<not> acting a"
  shows "drawer_inv (drawer_part b)"
  using assms(1,3,4)
proof (induction rule: ui_step.induct)
  case (acts i a)
  then show ?case by (intro drawer_inv_user)
next
  case (answers k a r)
  let ?p = "ap_pending a ! k" and ?a = "a\<lparr>ap_pending := drop_nth k (ap_pending a)\<rparr>"
  let ?t = "pd_task ?p"
  have "set (ap_pending a) = insert ?p (set (drop_nth k (ap_pending a)))"
    using drop_nth_tasks [OF answers(1)] .
  then have "set (drawer_tasks a) = (if drawer_task ?t then insert ?t (set (drawer_tasks ?a)) else set (drawer_tasks ?a))"
    by (auto simp: drawer_tasks_def)
  moreover have "(\<exists>err. r = Inl err) \<or> (\<exists>v evs. r = Inr (Some (BJobEvents v evs)) \<and> jv_id v = i)"
    if "task_route ?t = GetJob i" for i
    using that assms(2) answers(2) by (auto simp: own_job_def)
  ultimately show ?case
    using answers(3) drawer_inv_answered [of "ap_selected a" "ap_run a" "ap_detail a" "drawer_tasks a" ?a "drawer_tasks ?a" ?t r]
    by (simp add: drawer_part_def)
qed simp_all

lemma drawer_inv_waiting:
  assumes "waiting_run br gives a b" and "own_job gives" and "drawer_inv (drawer_part a)"
  shows "drawer_inv (drawer_part b)"
  using assms(1) by induction (use assms(2,3) drawer_inv_step in blast)+

lemma drawer_inv_initial: "drawer_inv (drawer_part (app_initial stored))"
  by (simp add: app_initial_def drawer_part_def [of "\<lparr>ap_tab = _, ap_mount = _, ap_selected = _, ap_run = _, ap_feed = _,
      ap_history = _, ap_list = _, ap_dlq = _, ap_form = _, ap_detail = _, ap_keyField = _, ap_stored = _, ap_pending = _\<rparr>"]
      drawer_tasks_def)

section \<open>Errors stay\<close>

lemma same_detail: "drawer_part b = drawer_part a \<Longrightarrow> ap_detail b = ap_detail a"
  by (simp add: drawer_part_def)

lemmas detail_kept = drawer_part_pages [THEN same_detail] drawer_part_rest [THEN same_detail]
  drawer_part_loop [THEN same_detail]

lemma detail_error_user: "dt_error (ap_detail (user_does br i a)) = dt_error (ap_detail a)"
  by (cases i) (simp_all add: drawer_click_def select_job_def Let_def detail_kept del: retry_loop.simps split: option.split)

lemma detail_error_answered:
  assumes "dt_error (ap_detail a) \<noteq> None"
  shows "dt_error (ap_detail (answered t r a)) \<noteq> None"
  using assms show_job_error [OF assms]
  by (cases t) (simp_all add: load_answer_def act_answer_def refetch_answer_def action_failed_def Let_def detail_kept
      del: retry_loop.simps split: sum.split)

lemma detail_error_step:
  assumes "ui_step br gives a b" and "dt_error (ap_detail a) \<noteq> None"
  shows "dt_error (ap_detail b) \<noteq> None"
  using assms
proof (induction rule: ui_step.induct)
  case (acts i a)
  then show ?case using detail_error_user [of br i a] by auto
next
  case (answers k a r)
  then show ?case using detail_error_answered [of "a\<lparr>ap_pending := drop_nth k (ap_pending a)\<rparr>"] by simp
next
  case (frame a f)
  have "ap_detail (frame_arrives f a) = ap_detail a"
    using drawer_part_rest(7) [of f a] by (simp add: drawer_part_def)
  then show ?case using frame by simp
qed simp_all

end
