(* ===== verification/Browsing.thy ===== *)
theory Browsing
  imports Pages System
begin

text \<open>
  What using the dashboard guarantees: the requests it sends, what its pages show of the
  server's answers, which job the drawer shows and which one its buttons act on.
\<close>

section \<open>The server behind the pages\<close>

text \<open>What the server answers to a request at any moment, or an error of the network.\<close>

definition from_server ::
  "service \<Rightarrow> body_parser \<Rightarrow> server_config \<Rightarrow> string \<Rightarrow> pending \<Rightarrow> answer \<Rightarrow> bool" where
  "from_server svc parse cfg ip p r \<longleftrightarrow> (\<exists>err. r = Inl err) \<or>
     (\<exists>s t. run svc (api_request parse cfg (Some (pd_key p)) ip (task_route (pd_task p))) s = (Inr r, t))"

lemma token_bucket_jobs [simp]: "jobs (snd (token_bucket_lua key cap rate now ttl s)) = jobs s"
  by (simp add: token_bucket_lua_def Let_def)

lemma run_limited:
  assumes "services svc out"
    and "run svc (catch_err (and_then (rateLimit cfg None (Some key) ip) (\<lambda>limited. case limited of
      Some answer \<Rightarrow> Ret answer | None \<Rightarrow> p)) internal_error) s = (Inr res, t)" and "rs_code res < 300"
  shows "\<exists>u. run svc p u = (Inr res, t) \<and> jobs u = jobs s"
proof -
  let ?b = "token_bucket_lua (bucketKey (Some key) ip) (of_int (rate_capacity cfg None))
      (of_int (rate_capacity cfg None) / 60000) (clock s) 120000 s"
  have lim: "run svc (rateLimit cfg None (Some key) ip) s = (Inr (if fst (the_pair (fst ?b)) = 0
      then Some (send 429 (BError ''rate_limited'' (Some (''Rate limit of '' @ str_of_int (rate_capacity cfg None) @
        ''/min exceeded for this API key.'')))) else None), snd ?b)"
    using services.run_rateLimit [OF assms(1), of cfg None "Some key" ip s] by (simp add: Let_def)
  show ?thesis
  proof (cases "fst (the_pair (fst ?b)) = 0")
    case True
    then show ?thesis using assms(2,3) lim by (auto simp: prog_run send_def)
  next
    case False
    then show ?thesis
      using assms(2,3) lim
      by (cases "run svc p (snd ?b)"; cases "fst (run svc p (snd ?b))")
        (auto simp: prog_run internal_error_def send_def intro!: exI [of _ "snd ?b"])
  qed
qed

lemma served_ok:
  assumes "services svc out" and "run svc (api_request parse cfg stored ip r) s = (Inr (Inr b), t)"
  shows "\<exists>res u. run svc (handle cfg r) u = (Inr res, t) \<and> api_result res = Inr b \<and> jobs u = jobs s"
proof -
  obtain res where res: "run svc (receive parse cfg (Some (getApiKey stored)) ip r) s = (Inr res, t)" "api_result res = Inr b"
    using assms(2) by (auto simp: api_request_def prog_run split: sum.splits prod.splits)
  then have ok: "rs_code res < 300" by (auto simp: api_result_def res_ok_def split: if_splits)
  have "\<exists>u. run svc (handle cfg r) u = (Inr res, t) \<and> jobs u = jobs s"
    using res(1) ok
    by (auto simp: receive_def serve_def internal_error_def validation_error_def apiKeyAuth_def send_def
        split: option.splits if_splits sum.splits dest!: run_limited [OF assms(1)])
  then show ?thesis using res(2) by blast
qed

lemma own_job_server:
  assumes "services svc out"
  shows "own_job (from_server svc parse cfg ip)"
  unfolding own_job_def
proof (intro allI impI)
  fix p i r
  assume "from_server svc parse cfg ip p r" and route: "task_route (pd_task p) = GetJob i"
  then consider (err) e where "r = Inl e"
    | (run) b s t where "r = Inr b" "run svc (api_request parse cfg (Some (pd_key p)) ip (GetJob i)) s = (Inr (Inr b), t)"
    by (cases r) (auto simp: from_server_def)
  then show "(\<exists>err. r = Inl err) \<or> (\<exists>v evs. r = Inr (Some (BJobEvents v evs)) \<and> jv_id v = i)"
  proof cases
    case run
    obtain res u where "run svc (get_job i) u = (Inr res, t)" and b: "api_result res = Inr b"
      using served_ok [OF assms run(2)] by auto
    then have "\<exists>job evs. get_row i (jobs u) = Some job \<and> res = send 200 (BJobEvents (serializeJob job) evs)"
      using assms
      by (auto simp: get_job_def services.run_getJobById prog_run getJobEvents_def not_found_def api_result_def res_ok_def
          send_def split: option.splits sum.splits prod.splits)
    then show ?thesis
      using run(1) b get_row_Some by (fastforce simp: api_result_def res_ok_def send_def serializeJob_def)
  qed simp
qed

section \<open>What the drawer offers\<close>

lemma drawer_offer:
  "DrawerClick act \<in> offers (app_view br a) \<longleftrightarrow> (\<exists>i job evs. ap_selected a = Some i \<and> i \<noteq> '''' \<and>
     dt_job (ap_detail a) = Some (job, evs) \<and> \<not> dt_busy (ap_detail a) \<and> act \<in> set (detail_actions (jv_status job)))"
proof -
  have "DrawerClick act \<notin> page_offers br a"
    by (cases "ap_tab a") (auto simp: page_offers_def offers_list_view offers_dlq_view offers_form_view split: if_splits)
  then have "DrawerClick act \<in> offers (app_view br a) \<longleftrightarrow>
      DrawerClick act \<in> \<Union>(offers ` set (detail_view br (ap_selected a) (ap_detail a)))"
    by (auto simp: offers_app_view)
  then show ?thesis
    unfolding offers_detail_view
    by (cases "ap_selected a"; cases "dt_job (ap_detail a)") (auto simp: given_Some split: if_splits)
qed

lemma feed_offer:
  "ap_tab a = Overview \<Longrightarrow> e \<in> set (fd_events (ap_feed a)) \<Longrightarrow> e_jobId e \<noteq> '''' \<Longrightarrow>
    SelectJob (e_jobId e) \<in> offers (app_view br a)"
  by (simp add: offers_app_view page_offers_def)

lemma action_answer:
  assumes "services svc out" and "get_row i (jobs s) = Some job" and "priority job \<in> set PRIORITIES"
  shows "map_sum id rs_code (fst (run svc (handle cfg (action_route act i)) s)) =
    Inr (if act \<in> set (detail_actions (jv_status (serializeJob job))) then 200 else 409)"
proof (cases act)
  case RetryJob
  then show ?thesis
    using services.run_retryJob [OF assms(1,2) _ assms(3) refl] services.run_retryJob_refused [OF assms(1,2)]
    by (auto simp: post_retry_def prog_run invalid_state_def detail_actions_def serializeJob_def send_def)
next
  case CancelJob
  then show ?thesis
    using services.run_cancelJob [OF assms(1,2) _ assms(3)] services.run_cancelJob_refused [OF assms(1,2)]
    by (auto simp: delete_job_def prog_run invalid_state_def detail_actions_def serializeJob_def send_def)
qed

section \<open>Opening a job\<close>

definition job_event :: "string \<Rightarrow> event" where
  "job_event i = \<lparr>e_jobId = i, e_status = Queued, e_message = '''', e_ts = 0\<rparr>"

lemma waiting_run_run: "waiting_run br gives a b \<Longrightarrow> ui_run br gives a b"
  by (induction rule: waiting_run.induct) (auto intro: rtranclp.rtrancl_into_rtrancl)

text \<open>
  A page on which the events of two jobs arrived and the first was opened and answered.
\<close>

lemma job_opened:
  assumes "i \<noteq> ''''" and "\<And>p. task_route (pd_task p) = GetJob i \<Longrightarrow> pd_key p = getApiKey stored \<Longrightarrow>
    gives p (Inr (Some (BJobEvents v evs)))"
  shows "\<exists>a. waiting_run br gives (app_initial stored) a \<and> ap_tab a = Overview \<and>
    set (fd_events (ap_feed a)) = {job_event i, job_event j} \<and> ap_selected a = Some i \<and>
    dt_job (ap_detail a) = Some (v, evs) \<and> \<not> dt_busy (ap_detail a) \<and> dt_error (ap_detail a) = None \<and>
    (\<forall>p \<in> set (ap_pending a). \<not> drawer_task (pd_task p))"
proof -
  let ?run = "waiting_run br gives (app_initial stored)"
  define a0 where "a0 = frame_arrives (Some (FEvent (job_event j)))
      (frame_arrives (Some (FEvent (job_event i))) (app_initial stored))"
  have sel: "ap_selected (frame_arrives f a) = ap_selected a" for f a
    using drawer_part_rest(7) [of f a] by (simp add: drawer_part_def)
  have r0: "?run a0"
    unfolding a0_def
    by (rule waiting_run.more [OF waiting_run.more [OF waiting_run.start ui_step.frame] ui_step.frame]) (simp_all add: sel)
  have a0: "ap_tab a0 = Overview" "set (fd_events (ap_feed a0)) = {job_event i, job_event j}" "ap_selected a0 = None"
    "ap_run a0 = 0" "\<not> dt_busy (ap_detail a0)" "dt_error (ap_detail a0) = None" "ap_stored a0 = stored"
    "\<forall>p \<in> set (ap_pending a0). \<not> drawer_task (pd_task p)" "drawer_tasks a0 = []"
    by (auto simp: a0_def frame_arrives_def Let_def app_initial_def mount_page_def load_list_def chart_effect_def
        new_feed_def socket_onmessage_def maxEvents_default_def drawer_tasks_def send_request_def)
  define a1 where "a1 = select_job (Some i) a0"
  have s1: "SelectJob i \<in> offers (app_view br a0)"
    using feed_offer [of a0 "job_event i"] a0 assms(1) by (simp add: job_event_def)
  have r1: "?run a1"
    using waiting_run.more [OF r0 ui_step.acts [OF s1]] a0 by (simp add: a1_def acting_def)
  have a1: "a1 = send_request (DrawerLoad 1 i) (a0\<lparr>ap_selected := Some i, ap_run := 1\<rparr>)"
    using a0 assms(1) by (simp add: a1_def select_job_def Let_def given_Some)
  define k where "k = length (ap_pending a0)"
  define a2 where "a2 = answered (pd_task (ap_pending a1 ! k)) (Inr (Some (BJobEvents v evs)))
      (a1\<lparr>ap_pending := drop_nth k (ap_pending a1)\<rparr>)"
  have t: "pd_task (ap_pending a1 ! k) = DrawerLoad 1 i" "k < length (ap_pending a1)"
    "pd_key (ap_pending a1 ! k) = getApiKey stored" "drop_nth k (ap_pending a1) = ap_pending a0"
    by (simp_all add: a1 k_def drop_nth_def a0(7))
  have a2: "a2 = a1\<lparr>ap_pending := ap_pending a0, ap_detail := (ap_detail a0)\<lparr>dt_job := Some (v, evs)\<rparr>\<rparr>"
    unfolding a2_def t by (simp add: a1 load_answer_def show_job_def)
  have "ui_step br gives a1 a2"
    unfolding a2_def by (rule ui_step.answers [OF t(2)]) (rule assms(2), simp_all add: t)
  then have "?run a2" using waiting_run.more [OF r1] by (simp add: a2)
  then show ?thesis using a0 by (intro exI [of _ a2]) (simp add: a2 a1)
qed

text \<open>A server with one job and a key, for the witnesses.\<close>

definition demo_browser :: browser where
  "demo_browser = \<lparr>toLocaleString = str_of_int, toLocaleTimeString = str_of_int, stringify2 = (\<lambda>_. ''{}''),
     json_parse = (\<lambda>_. Some (JObj []))\<rparr>"

definition demo_stored :: store where
  "demo_stored = empty_store\<lparr>jobs := [demo_row ''a'' Dead 3]\<rparr>"

definition demo_after_limit :: store where
  "demo_after_limit = snd (run mem_svc (rateLimit demo_server None (Some ''dev-key-123'') ''ip'') demo_stored)"

lemma run_demo_after_limit:
  "run mem_svc (rateLimit demo_server None (Some ''dev-key-123'') ''ip'') demo_stored = (Inr None, demo_after_limit)"
  unfolding demo_after_limit_def mem.run_rateLimit Let_def demo_capacity
  by (auto simp: token_bucket_lua_def Let_def live_bucket_def demo_stored_def empty_store_def)

lemma demo_after_limit_jobs: "jobs demo_after_limit = [demo_row ''a'' Dead 3]" "job_events demo_after_limit = []"
  unfolding demo_after_limit_def mem.run_rateLimit Let_def demo_capacity
  by (auto simp: token_bucket_lua_def Let_def live_bucket_def demo_stored_def empty_store_def)

lemma demo_receive:
  assumes "stored = None \<or> stored = Some ''dev-key-123''" and "schema_ok r"
    and "run mem_svc (handle demo_server r) demo_after_limit = (Inr res, t)"
  shows "run mem_svc (api_request (\<lambda>_ _. None) demo_server stored ''ip'' r) demo_stored = (Inr (api_result res), t)"
proof -
  have "getApiKey stored = ''dev-key-123''" using assms(1) by (auto simp: getApiKey_def)
  moreover have "''dev-key-123'' \<in> set (apiKeys demo_server)" by (simp add: demo_server_def demo_config_def)
  ultimately show ?thesis
    using assms(2,3)
    by (simp add: api_request_def receive_def serve_def apiKeyAuth_def prog_run run_demo_after_limit)
qed

lemma demo_row_fields [simp]: "job_id (demo_row i st n) = i" "status (demo_row i st n) = st"
  "priority (demo_row i st n) = ''high''"
  by (simp_all add: demo_row_def)

lemma demo_get_job:
  "\<exists>t. run mem_svc (api_request (\<lambda>_ _. None) demo_server (Some ''dev-key-123'') ''ip'' (GetJob ''a'')) demo_stored =
     (Inr (Inr (Some (BJobEvents (serializeJob (demo_row ''a'' Dead 3)) []))), t)"
proof -
  have "run mem_svc (handle demo_server (GetJob ''a'')) demo_after_limit =
      (Inr (send 200 (BJobEvents (serializeJob (demo_row ''a'' Dead 3)) [])), demo_after_limit)"
    by (simp add: get_job_def mem.run_getJobById demo_after_limit_jobs prog_run getJobEvents_def mem.laws mem_outside_def)
  from demo_receive [OF _ _ this] show ?thesis by (simp add: api_result_def res_ok_def send_def)
qed

lemma demo_dead_jobs:
  "\<exists>t. run mem_svc (api_request (\<lambda>_ _. None) demo_server None ''ip'' dlq_request) demo_stored =
     (Inr (Inr (Some (BJobs [serializeJob (demo_row ''a'' Dead 3)] 1 1 50))), t)"
proof -
  have "run mem_svc (handle demo_server dlq_request) demo_after_limit =
      (Inr (send 200 (BJobs [serializeJob (demo_row ''a'' Dead 3)] 1 1 50)), demo_after_limit)"
    by (simp add: dlq_request_def api_listJobs_def get_jobs_def mem.run_listJobs demo_after_limit_jobs prog_run matches_def
        mem_outside_def)
  from demo_receive [OF _ _ this] show ?thesis
    by (simp add: api_result_def res_ok_def send_def dlq_request_def api_listJobs_def listSchema_def int_within_def)
qed

section \<open>Properties\<close>

text \<open>
  C31: The job drawer, used by somebody who waits for a retry or a cancellation to be answered
  before opening another job. In every state reached with any answers of the server or errors
  of the network, in any order: when no load of the open job is outstanding and no error is
  shown, the drawer shows that job, and each button it offers sends its request for the
  job on display.
\<close>

theorem drawer_shows_selected:
  assumes "services svc out" and "waiting_run br (from_server svc parse cfg ip) (app_initial stored) a"
    and "ap_selected a = Some i" and "i \<noteq> ''''" and "dt_error (ap_detail a) = None"
    and "\<forall>p \<in> set (ap_pending a). pd_task p \<noteq> DrawerLoad (ap_run a) i"
  shows "\<exists>v evs. dt_job (ap_detail a) = Some (v, evs) \<and> jv_id v = i \<and>
    (\<forall>act. DrawerClick act \<in> offers (app_view br a) \<longrightarrow> act \<in> set (detail_actions (jv_status v)) \<and>
       task_route (pd_task (last (ap_pending (user_does br (DrawerClick act) a)))) = action_route act i)"
proof -
  have "drawer_inv (drawer_part a)"
    by (rule drawer_inv_waiting [OF assms(2) own_job_server [OF assms(1)] drawer_inv_initial])
  moreover have "DrawerLoad (ap_run a) i \<notin> set (drawer_tasks a)" using assms(6) by (auto simp: drawer_tasks_def)
  ultimately have "showing i (ap_detail a)" using assms(3-5) by (simp add: drawer_part_def)
  then obtain v evs where v: "dt_job (ap_detail a) = Some (v, evs)" "jv_id v = i" by (auto simp: showing_def)
  then show ?thesis using assms(3,4) by (auto simp: drawer_offer drawer_click_def)
qed

theorem drawer_shows_selected_witness:
  "\<exists>a v evs. waiting_run demo_browser (from_server mem_svc (\<lambda>_ _. None) demo_server ''ip'') (app_initial None) a \<and>
     ap_selected a = Some ''a'' \<and> dt_job (ap_detail a) = Some (v, evs) \<and> jv_id v = ''a''"
proof -
  let ?gives = "from_server mem_svc (\<lambda>_ _. None) demo_server ''ip''"
  let ?v = "serializeJob (demo_row ''a'' Dead 3)"
  have gives: "?gives p (Inr (Some (BJobEvents ?v [])))"
    if "task_route (pd_task p) = GetJob ''a''" "pd_key p = getApiKey None" for p
    using that demo_get_job by (auto simp: from_server_def getApiKey_def intro!: exI [of _ demo_stored])
  have ne: "''a'' \<noteq> ''''" by simp
  from job_opened [where i = "''a''" and j = "''b''" and br = demo_browser and gives = ?gives and v = ?v
      and evs = "[]" and stored = None, OF ne gives]
  obtain a where a: "waiting_run demo_browser ?gives (app_initial None) a" "ap_selected a = Some ''a''"
    "dt_error (ap_detail a) = None" "\<forall>p \<in> set (ap_pending a). \<not> drawer_task (pd_task p)"
    by blast
  have "\<forall>p \<in> set (ap_pending a). pd_task p \<noteq> DrawerLoad (ap_run a) ''a''"
    using a(4) drawer_task.simps(1) by metis
  from drawer_shows_selected [OF mem.services_axioms a(1,2) _ a(3) this] show ?thesis
    using a(1,2) by blast
qed

text \<open>
  C32: Otherwise it can act on a job it does not show: the effect of \<open>JobDetail\<close> does not reset the
  job of the previous id. Two clicks lead to a drawer that displays job \<open>i\<close> with an enabled button
  \<open>Cancel job\<close>, which cancels job \<open>j\<close>.
\<close>

theorem drawer_acts_on_another_job:
  assumes "i \<noteq> ''''" and "j \<noteq> ''''" and "i \<noteq> j" and "jv_id v = i" and "jv_status v = Queued \<or> jv_status v = Delayed"
    and "\<And>p. task_route (pd_task p) = GetJob i \<Longrightarrow> pd_key p = getApiKey stored \<Longrightarrow>
      gives p (Inr (Some (BJobEvents v evs)))"
  shows "\<exists>a. ui_run br gives (app_initial stored) a \<and> dt_job (ap_detail a) = Some (v, evs) \<and>
    DrawerClick CancelJob \<in> offers (app_view br a) \<and>
    task_route (pd_task (last (ap_pending (user_does br (DrawerClick CancelJob) a)))) = DeleteJob j"
proof -
  obtain a where a: "waiting_run br gives (app_initial stored) a" "ap_tab a = Overview"
    "set (fd_events (ap_feed a)) = {job_event i, job_event j}" "ap_selected a = Some i"
    "dt_job (ap_detail a) = Some (v, evs)" "\<not> dt_busy (ap_detail a)"
    using job_opened [where i = i and j = j and br = br and gives = gives and v = v and evs = evs, OF assms(1) assms(6)] by blast
  let ?a = "select_job (Some j) a"
  have "SelectJob j \<in> offers (app_view br a)"
    using feed_offer [of a "job_event j"] a(2,3) assms(2) by (simp add: job_event_def)
  from ui_step.acts [OF this, of gives] have "ui_run br gives (app_initial stored) ?a"
    using waiting_run_run [OF a(1)] by (auto intro: rtranclp.rtrancl_into_rtrancl)
  moreover have s: "ap_selected ?a = Some j" "dt_job (ap_detail ?a) = Some (v, evs)" "\<not> dt_busy (ap_detail ?a)"
    using a assms(2,3) by (simp_all add: select_job_def Let_def given_Some)
  moreover have "DrawerClick CancelJob \<in> offers (app_view br ?a)"
    using s assms(2,5) by (auto simp: drawer_offer detail_actions_def)
  moreover have "task_route (pd_task (last (ap_pending (user_does br (DrawerClick CancelJob) ?a)))) = DeleteJob j"
    using s by (simp add: drawer_click_def)
  ultimately show ?thesis by blast
qed

theorem drawer_acts_on_another_job_witness:
  "\<exists>a. ui_run demo_browser (\<lambda>p r. r = Inr (Some (BJobEvents (serializeJob (demo_row ''a'' Queued 0)) []))) (app_initial None) a \<and>
     task_route (pd_task (last (ap_pending (user_does demo_browser (DrawerClick CancelJob) a)))) = DeleteJob ''b''"
  using drawer_acts_on_another_job [where i = "''a''" and j = "''b''" and v = "serializeJob (demo_row ''a'' Queued 0)"
      and evs = "[]" and gives = "\<lambda>p r. r = Inr (Some (BJobEvents (serializeJob (demo_row ''a'' Queued 0)) []))"
      and br = demo_browser and stored = None]
  by (auto simp: serializeJob_def)

text \<open>
  An error the drawer shows is never taken away, whatever is opened or answered later:
  neither a new job nor a successful answer calls \<open>setError(null)\<close>.
\<close>

theorem errors_never_clear:
  assumes "ui_run br gives a b" and "dt_error (ap_detail a) \<noteq> None"
  shows "dt_error (ap_detail b) \<noteq> None"
  using assms by induction (auto dest: detail_error_step)

lemma show_job_changed [simp]: "dt_changed (show_job r d) = dt_changed d"
  by (auto simp: show_job_def split: sum.split option.split body.split)

text \<open>
  Undisturbed, the two requests of a click in the drawer are the handler of \<open>Dashboard\<close>: what
  \<open>handle_action\<close> returns is the state the answers of the same requests lead to.
\<close>

theorem drawer_runs_handler:
  assumes "run svc (handle_action parse cfg stored ip act i (ap_detail a)) s = (Inr st, t)"
  shows "\<exists>r u. run svc (api_request parse cfg stored ip (action_route act i)) s = (Inr r, u) \<and>
    (case r of Inl err \<Rightarrow> ap_detail (act_answer i r a) = st
     | Inr _ \<Rightarrow> \<exists>r' u'. run svc (api_request parse cfg stored ip (GetJob i)) u = (Inr r', u') \<and>
         ap_detail (refetch_answer r' (act_answer i r a)) = st)"
proof -
  let ?act = "api_request parse cfg stored ip (action_route act i)" and ?get = "api_request parse cfg stored ip (GetJob i)"
  obtain r u where r: "run svc ?act s = (Inr r, u)"
    using assms by (auto simp: handle_action_def prog_run split: prod.splits sum.splits)
  show ?thesis
  proof (cases r)
    case (Inl err)
    then show ?thesis
      using assms r by (auto simp: handle_action_def prog_run act_answer_def action_failed_def)
  next
    case (Inr b)
    then obtain r' u' where r': "run svc ?get u = (Inr r', u')"
      using assms r by (auto simp: handle_action_def prog_run split: prod.splits sum.splits)
    have "ap_detail (refetch_answer r' (act_answer i r a)) = st"
      using assms r r' Inr
      by (cases r') (auto simp: handle_action_def prog_run act_answer_def refetch_answer_def action_failed_def Let_def detail_kept)
    then show ?thesis using r r' Inr by auto
  qed
qed

text \<open>
  Clearing the key field does not clear the key: the field is empty, and the next request is
  sent with the default key.
\<close>

theorem cleared_key_falls_back:
  "ap_keyField (user_does br (KeyTyped '''') a) = '''' \<and>
   pd_key (last (ap_pending (send_request t (user_does br (KeyTyped '''') a)))) = ''dev-key-123''"
  by (simp add: set_key_def getApiKey_def)



text \<open>
  The job list never shows an answer to an older filter or page: an answer that changes it is
  one to the request the list stands for now.
\<close>

theorem list_shows_its_filter:
  assumes "ui_run br gives (app_initial stored) a" and "k < length (ap_pending a)"
    and "pd_task (ap_pending a ! k) = ListLoad n rq" and "ap_list (answered (ListLoad n rq) r a) \<noteq> ap_list a"
  shows "rq = jl_request (ap_list a)"
proof -
  have "ui_inv br a" by (rule ui_inv_run [OF assms(1) ui_inv_initial])
  then have "task_ok br (ap_list a) (ListLoad n rq)" using assms(2,3) nth_mem unfolding ui_inv_def by metis
  moreover have "n = jl_run (ap_list a)"
    using assms(4) by (auto simp: list_answer_def jl_answer_def split: option.splits if_splits)
  ultimately show ?thesis by (simp add: task_ok_def)
qed

theorem list_shows_its_filter_witness:
  "task_route (pd_task (ap_pending (app_initial None) ! 0)) = jl_request (ap_list (app_initial None))"
proof -
  let ?a = "app_initial None" and ?r = "Inr (Some (BJobs [] 0 1 10))"
  obtain n rq where t: "pd_task (ap_pending ?a ! 0) = ListLoad n rq" "n = jl_run (ap_list ?a)" "jl_loading (ap_list ?a)"
    "0 < length (ap_pending ?a)"
    by (simp add: app_initial_def mount_page_def load_list_def chart_effect_def new_feed_def jl_initial_def jl_effect_def)
  have "\<not> jl_loading (ap_list (answered (ListLoad n rq) ?r ?a))"
    using t(2) by (simp add: list_answer_def jl_answer_def)
  then have "ap_list (answered (ListLoad n rq) ?r ?a) \<noteq> ap_list ?a" using t(3) by auto
  from list_shows_its_filter [OF rtranclp.rtrancl_refl t(4,1) this] show ?thesis using t(1) by simp
qed

text \<open>
  C34: The buttons of the job drawer are the transitions the server accepts: with the open job on
  display as it is stored, the rendered page offers \<open>Retry job\<close> exactly when
  \<open>POST /jobs/:id/retry\<close> would answer 200, and \<open>Cancel job\<close> exactly when \<open>DELETE /jobs/:id\<close> would.
\<close>

theorem drawer_buttons_match_api:
  assumes "services svc out" and "get_row i (jobs s) = Some job" and "priority job \<in> set PRIORITIES" and "i \<noteq> ''''"
    and "ap_selected a = Some i" and "dt_job (ap_detail a) = Some (serializeJob job, evs)" and "\<not> dt_busy (ap_detail a)"
  shows "DrawerClick act \<in> offers (app_view br a) \<longleftrightarrow>
    map_sum id rs_code (fst (run svc (handle cfg (action_route act i)) s)) = Inr 200"
  unfolding action_answer [OF assms(1-3)] using assms(4-7) by (simp add: drawer_offer)

theorem drawer_buttons_match_api_witness:
  "DrawerClick RetryJob \<in> offers (app_view demo_browser ((app_initial None)\<lparr>ap_selected := Some ''a'',
     ap_detail := \<lparr>dt_job = Some (serializeJob (demo_row ''a'' Dead 3), []), dt_error = None, dt_busy = False, dt_changed = 0\<rparr>\<rparr>)) \<longleftrightarrow>
   map_sum id rs_code (fst (run mem_svc (handle demo_config (PostRetry ''a'')) demo_stored)) = Inr 200"
proof -
  have "get_row ''a'' (jobs demo_stored) = Some (demo_row ''a'' Dead 3)" "priority (demo_row ''a'' Dead 3) \<in> set PRIORITIES"
    by (simp_all add: demo_stored_def PRIORITIES_def)
  from drawer_buttons_match_api [OF mem.services_axioms this, where act = RetryJob] show ?thesis by simp
qed

text \<open>
  C35: The dead-letter page shows, with an answer of the server in hand, the newest 50 dead jobs and
  no more: the number in its heading is the smaller of 50 and the number of dead jobs, and
  the jobs it offers to retry are exactly those on the page that are not being retried.
\<close>

theorem dlq_page_shows:
  assumes "services svc out" and "run svc (api_request parse cfg stored ip dlq_request) s = (Inr (Inr b), t)"
    and "ap_tab a = DeadLetter" and "a' = answered (DlqLoad (ap_mount a)) (Inr b) a"
    and "dead = filter (\<lambda>r. status r = Dead) (jobs s)"
  shows "dq_jobs (ap_dlq a') = map serializeJob (take 50 (jobs_desc out dead)) \<and>
    (\<forall>i. DlqRetryClick i \<in> offers (app_view br a') \<longleftrightarrow>
       i \<in> job_id ` set (take 50 (jobs_desc out dead)) \<and> dq_busyId (ap_dlq a) \<noteq> Some i) \<and>
    length (dq_jobs (ap_dlq a')) = min 50 (length dead)"
proof -
  obtain res u where res: "run svc (handle cfg dlq_request) u = (Inr res, t)" "api_result res = Inr b" "jobs u = jobs s"
    using served_ok [OF assms(1,2)] by blast
  have m: "matches (Some Dead) None = (\<lambda>r. status r = Dead)" by (auto simp: matches_def fun_eq_iff)
  have "res = send 200 (BJobs (map serializeJob (take 50 (jobs_desc out dead))) (int (length dead)) 1 50)"
    using res(1,3) services.run_listJobs [OF assms(1), of 50 "Some Dead" None 1 u] assms(5)
    by (simp add: dlq_request_def api_listJobs_def get_jobs_def prog_run m)
  then have b: "b = Some (BJobs (map serializeJob (take 50 (jobs_desc out dead))) (int (length dead)) 1 50)"
    using res(2) by (simp add: api_result_def res_ok_def send_def)
  have a': "ap_dlq a' = (ap_dlq a)\<lparr>dq_jobs := map serializeJob (take 50 (jobs_desc out dead))\<rparr>" "ap_tab a' = DeadLetter"
    using assms(3) by (simp_all add: assms(4) b set_dlq_def dlq_answer_def)
  have len: "length (jobs_desc out dead) = length dead"
    using postgres_service.jobs_desc(1) [OF services.axioms(2) [OF assms(1)]] by (rule mset_eq_length)
  have "DlqRetryClick i \<in> offers (app_view br a') \<longleftrightarrow> DlqRetryClick i \<in> offers (dlq_view br (ap_dlq a'))" for i
    by (auto simp: offers_app_view page_offers_def a'(2) offers_detail_view split: if_splits option.splits)
  then show ?thesis
    by (auto simp: a' offers_dlq_view len serializeJob_def image_iff)
qed

theorem dlq_page_shows_witness:
  "\<exists>a. ap_tab a = DeadLetter \<and> dq_jobs (ap_dlq a) = [serializeJob (demo_row ''a'' Dead 3)] \<and>
     DlqRetryClick ''a'' \<in> offers (app_view demo_browser a)"
proof -
  let ?a = "set_tab DeadLetter (app_initial None)"
  let ?r = "Some (BJobs [serializeJob (demo_row ''a'' Dead 3)] 1 1 50)"
  let ?b = "answered (DlqLoad (ap_mount ?a)) (Inr ?r) ?a"
  obtain t where t: "run mem_svc (api_request (\<lambda>_ _. None) demo_server None ''ip'' dlq_request) demo_stored = (Inr (Inr ?r), t)"
    using demo_dead_jobs by blast
  have tab: "ap_tab ?a = DeadLetter" "dq_busyId (ap_dlq ?a) = None"
    by (simp_all add: set_tab_def mount_page_def app_initial_def load_list_def chart_effect_def new_feed_def new_dlq_def)
  have dead: "filter (\<lambda>r. status r = Dead) (jobs demo_stored) = [demo_row ''a'' Dead 3]" by (simp add: demo_stored_def)
  have "ap_tab ?b = DeadLetter" using tab(1) by (simp add: set_dlq_def)
  moreover have "jobs_desc mem_outside [demo_row ''a'' Dead 3] = [demo_row ''a'' Dead 3]" by (simp add: mem_outside_def)
  ultimately show ?thesis
    using dlq_page_shows [OF mem.services_axioms t tab(1) refl refl, of demo_browser] tab(2) unfolding dead
    by (intro exI [of _ ?b]) simp
qed

end
