(* ===== verification/Lifecycle.thy ===== *)
theory Lifecycle
  imports Interleaving Gateway
begin

text \<open>
  The life of one process of the deployment: \<open>main\<close> or \<open>start\<close> of the four \<open>index.js\<close> files, the
  interval timers, the lanes of a worker under one shared \<open>draining\<close> flag, the signal handlers
  and the exit. The promises in flight are programs; signal handlers and \<open>main\<close> are scripts of
  what they call and await, one entry per line of the source. Any step of the process may come
  between two entries: the machine has all runs of the program and, where JavaScript would go on
  without a pause, some more.
\<close>

section \<open>A process\<close>

datatype interval = Poll | Stats

text \<open>
  What \<open>main\<close> and \<open>shutdown\<close> call: \<open>Grace d\<close> is the wait of \<open>drain\<close> up to the time \<open>d\<close>,
  \<open>Command\<close> awaits commands of Redis or Postgres.
\<close>

datatype host_call =
    BuildApp | Listen | CloseApp
  | OnSignals
  | SetTimer interval | ClearTimer interval
  | EndPool | Disconnect | DisconnectSub
  | Drain | Grace int
  | StartLanes | SettleLanes
  | Command "unit prog"
  | Exit nat

text \<open>
  The calls still to make, and those of the \<open>catch\<close> block around them, if there is one.
\<close>

type_synonym script = "host_call list \<times> host_call list option"

text \<open>
  One lane of \<open>runLane\<close>: at the test of the loop, in the claim, or after it (processing the
  given job, or waiting after an error), and \<open>Finished\<close> when its promise has settled.
\<close>

datatype lane =
    AtTest
  | Claiming "(err + claimed option) prog"
  | Working "string option" "unit prog"
  | Finished

record host =
  h_ticks :: "interval \<Rightarrow> unit prog set"
  h_main :: script
  h_shutdown :: script
  h_worker :: string
  h_config :: worker_config

record node =
  nd_timers :: "interval set"
  nd_flights :: "unit prog list"
  nd_lanes :: "lane list"
  nd_inFlight :: "string set"
  nd_draining :: bool
  nd_signals :: bool
  nd_listening :: bool
  nd_scripts :: "script list"
  nd_poolEnded :: bool
  nd_redisGone :: bool
  nd_subGone :: bool
  nd_exit :: "nat option"

definition loaded :: "host \<Rightarrow> node" where
  "loaded h = \<lparr>nd_timers = {}, nd_flights = [], nd_lanes = [], nd_inFlight = {}, nd_draining = False,
     nd_signals = False, nd_listening = False, nd_scripts = [h_main h], nd_poolEnded = False,
     nd_redisGone = False, nd_subGone = False, nd_exit = None\<rparr>"

section \<open>The lanes\<close>

definition lane_claim :: "string \<Rightarrow> lane" where
  "lane_claim w = Claiming (catch_err (and_then (claimNextJob w 1) (\<lambda>claimed. Ret (Inr claimed)))
     (\<lambda>err. Ret (Inl err)))"

text \<open>After the claim: \<open>continue\<close>, or \<open>inFlight.add\<close> and the job.\<close>

definition lane_claimed ::
  "string \<Rightarrow> worker_config \<Rightarrow> err + claimed option \<Rightarrow> string set \<Rightarrow> lane \<times> string set" where
  "lane_claimed w cfg r F = (case r of
     Inl err \<Rightarrow> (Working None (call (Sleep 1000) (\<lambda>_. Ret ())), F)
   | Inr None \<Rightarrow> (AtTest, F)
   | Inr (Some claimed) \<Rightarrow>
       (Working (Some (cl_id claimed)) (catch_err (and_then (processJob w claimed cfg) (\<lambda>outcome. Ret ()))
          (\<lambda>err. Ret ())), insert (cl_id claimed) F))"

text \<open>
  The steps a lane makes by itself: the test of the loop, and what follows a settled promise
  (\<open>finally\<close> takes the job out of the set).
\<close>

fun lane_next ::
  "string \<Rightarrow> worker_config \<Rightarrow> bool \<Rightarrow> string set \<Rightarrow> lane \<Rightarrow> (lane \<times> string set) option" where
  "lane_next w cfg draining F AtTest = Some (if draining then Finished else lane_claim w, F)"
| "lane_next w cfg draining F (Claiming (Ret r)) = Some (lane_claimed w cfg r F)"
| "lane_next w cfg draining F (Claiming (Throw e)) = Some (Finished, F)"
| "lane_next w cfg draining F (Working job (Ret u)) = Some (AtTest, F - set_option job)"
| "lane_next w cfg draining F (Working job (Throw e)) = Some (Finished, F - set_option job)"
| "lane_next w cfg draining F _ = None"

text \<open>The command a lane awaits.\<close>

fun lane_await :: "lane \<Rightarrow> (cmd \<times> (err + reply \<Rightarrow> lane)) option" where
  "lane_await (Claiming (Await c k)) = Some (c, \<lambda>r. Claiming (k r))"
| "lane_await (Working job (Await c k)) = Some (c, \<lambda>r. Working job (k r))"
| "lane_await _ = None"

section \<open>The scripts\<close>

text \<open>\<open>tick().catch((err) => logger.error(...))\<close>.\<close>

definition logged_tick :: "unit prog \<Rightarrow> unit prog" where
  "logged_tick p = catch_err p (\<lambda>err. Ret ())"

text \<open>
  \<open>packages/reaper/src/index.js\<close> and \<open>packages/scheduler/src/index.js\<close>: the module installs the
  handlers and calls \<open>start\<close>.
\<close>

definition start_script :: script where
  "start_script = ([OnSignals, SetTimer Poll], None)"

definition stop_script :: script where
  "stop_script = ([ClearTimer Poll, EndPool, Disconnect, Exit 0], None)"

definition reaper_process :: "reaper_config \<Rightarrow> host" where
  "reaper_process cfg = \<lparr>h_ticks = (\<lambda>_. {})(Poll := {logged_tick (reaper_tick cfg)}),
     h_main = start_script, h_shutdown = stop_script, h_worker = '''', h_config = undefined\<rparr>"

definition scheduler_process :: "scheduler_config \<Rightarrow> cron \<Rightarrow> string \<Rightarrow> host" where
  "scheduler_process cfg prev instanceId =
     \<lparr>h_ticks = (\<lambda>_. {})(Poll := {logged_tick (scheduler_tick cfg prev instanceId)}),
      h_main = start_script, h_shutdown = stop_script, h_worker = '''', h_config = undefined\<rparr>"

text \<open>\<open>packages/server/src/index.js\<close>; \<open>main().catch\<close> exits with 1, \<open>shutdown\<close> has its own \<open>try\<close>.\<close>

definition server_main :: script where
  "server_main = ([BuildApp, SetTimer Poll, Listen, OnSignals], Some [Exit 1])"

definition server_shutdown :: script where
  "server_shutdown = ([ClearTimer Poll, CloseApp, EndPool, Disconnect, DisconnectSub, Exit 0], Some [Exit 1])"

definition server_process :: host where
  "server_process = \<lparr>h_ticks = (\<lambda>i. case i of Poll \<Rightarrow> {promoter_turn}
       | Stats \<Rightarrow> {p. \<exists>n. p = done_with (stats_interval n)}),
     h_main = server_main, h_shutdown = server_shutdown, h_worker = '''', h_config = undefined\<rparr>"

text \<open>\<open>packages/worker/src/index.js\<close>.\<close>

definition worker_main :: "string \<Rightarrow> script" where
  "worker_main workerId =
     ([Command (registerWorker workerId), StartLanes, OnSignals, SettleLanes], Some [Exit 1])"

definition worker_shutdown :: "string \<Rightarrow> script" where
  "worker_shutdown workerId =
     ([Drain, SettleLanes, Command (deregisterWorker workerId), EndPool, Disconnect, Exit 0], None)"

definition worker_process :: "string \<Rightarrow> worker_config \<Rightarrow> host" where
  "worker_process workerId cfg = \<lparr>h_ticks = (\<lambda>_. {}), h_main = worker_main workerId,
     h_shutdown = worker_shutdown workerId, h_worker = workerId, h_config = cfg\<rparr>"

section \<open>The steps of a process\<close>

text \<open>
  What a call does: it returns and may have further calls made first, it is rejected, or it
  waits. \<open>again\<close> says whether \<open>pool.end()\<close> resolves on a pool that was ended before; the
  driver is not part of the repository. Closing the server runs its \<open>onClose\<close> hook, which
  clears the statistics interval.
\<close>

datatype verdict = Goes node "host_call list" | Rejects | Waits

definition host_does :: "bool \<Rightarrow> host \<Rightarrow> int \<Rightarrow> host_call \<Rightarrow> node \<Rightarrow> verdict" where
  "host_does again h now c n = (case c of
     BuildApp \<Rightarrow> Goes (n\<lparr>nd_timers := insert Stats (nd_timers n)\<rparr>) []
   | Listen \<Rightarrow> Goes (n\<lparr>nd_listening := True\<rparr>) []
   | CloseApp \<Rightarrow> Goes (n\<lparr>nd_listening := False, nd_timers := nd_timers n - {Stats}\<rparr>) []
   | OnSignals \<Rightarrow> Goes (n\<lparr>nd_signals := True\<rparr>) []
   | SetTimer i \<Rightarrow> Goes (n\<lparr>nd_timers := insert i (nd_timers n)\<rparr>) []
   | ClearTimer i \<Rightarrow> Goes (n\<lparr>nd_timers := nd_timers n - {i}\<rparr>) []
   | EndPool \<Rightarrow>
       if nd_poolEnded n \<and> \<not> again then Rejects else Goes (n\<lparr>nd_poolEnded := True\<rparr>) []
   | Disconnect \<Rightarrow> Goes (n\<lparr>nd_redisGone := True\<rparr>) []
   | DisconnectSub \<Rightarrow> Goes (n\<lparr>nd_subGone := True\<rparr>) []
   | Drain \<Rightarrow>
       if nd_draining n then Goes n []
       else Goes (n\<lparr>nd_draining := True\<rparr>) [Grace (now + gracePeriodMs (h_config h))]
   | Grace deadline \<Rightarrow> if nd_inFlight n = {} \<or> deadline \<le> now then Goes n [] else Waits
   | StartLanes \<Rightarrow> Goes (n\<lparr>nd_lanes := replicate (concurrency (h_config h)) AtTest\<rparr>) []
   | SettleLanes \<Rightarrow> if set (nd_lanes n) \<subseteq> {Finished} then Goes n [] else Waits
   | Command p \<Rightarrow> (case p of Ret u \<Rightarrow> Goes n [] | Throw e \<Rightarrow> Rejects | Await c k \<Rightarrow> Waits)
   | Exit code \<Rightarrow> Goes (n\<lparr>nd_exit := Some code\<rparr>) [])"

lemmas host_does_simps [simp] = host_does_def [where c = BuildApp, simplified]
  host_does_def [where c = Listen, simplified] host_does_def [where c = CloseApp, simplified]
  host_does_def [where c = OnSignals, simplified] host_does_def [where c = "SetTimer i" for i, simplified]
  host_does_def [where c = "ClearTimer i" for i, simplified] host_does_def [where c = EndPool, simplified]
  host_does_def [where c = Disconnect, simplified] host_does_def [where c = DisconnectSub, simplified]
  host_does_def [where c = Drain, simplified] host_does_def [where c = "Grace d" for d, simplified]
  host_does_def [where c = StartLanes, simplified] host_does_def [where c = SettleLanes, simplified]
  host_does_def [where c = "Command p" for p, simplified] host_does_def [where c = "Exit e" for e, simplified]

text \<open>Calls that can fail for reasons outside the process.\<close>

fun may_fail :: "host_call \<Rightarrow> bool" where
  "may_fail BuildApp = True"
| "may_fail Listen = True"
| "may_fail CloseApp = True"
| "may_fail EndPool = True"
| "may_fail _ = False"

text \<open>A rejection nobody catches ends the process with code 1.\<close>

definition rejected :: "nat \<Rightarrow> host_call list option \<Rightarrow> node \<Rightarrow> node" where
  "rejected j handler n = (case handler of
     Some cs \<Rightarrow> n\<lparr>nd_scripts := (nd_scripts n)[j := (cs, None)]\<rparr>
   | None \<Rightarrow> n\<lparr>nd_exit := Some 1\<rparr>)"

text \<open>A command fails when its client was closed, or when the connection is lost.\<close>

fun connected :: "node \<Rightarrow> cmd \<Rightarrow> bool" where
  "connected n (Redis _) \<longleftrightarrow> \<not> nd_redisGone n"
| "connected n (Pg _) \<longleftrightarrow> \<not> nd_poolEnded n"
| "connected n _ \<longleftrightarrow> True"

fun remote :: "cmd \<Rightarrow> bool" where
  "remote (Redis _) = True"
| "remote (Pg _) = True"
| "remote _ = False"

inductive answers :: "service \<Rightarrow> node \<Rightarrow> cmd \<Rightarrow> store \<Rightarrow> err + reply \<Rightarrow> store \<Rightarrow> bool" for svc n c s where
  reply: "connected n c \<Longrightarrow> svc c s = (r, s') \<Longrightarrow> answers svc n c s r s'"
| lost_reply: "connected n c \<Longrightarrow> remote c \<Longrightarrow> svc c s = (r, s') \<Longrightarrow> answers svc n c s (Inl ConnLost) s'"
| refused: "remote c \<Longrightarrow> answers svc n c s (Inl ConnLost) s"

text \<open>
  A process acts as long as it has not exited: an interval fires, a promise in flight goes
  on, a lane makes a step, a script makes its next call. A signal starts the shutdown script,
  once more for each signal; before the handlers are installed, and for \<open>SIGKILL\<close>, it kills the
  process with a code above 127. Everything else that happens to the store is \<open>world\<close>.
\<close>

inductive node_step ::
  "service \<Rightarrow> (store \<Rightarrow> store \<Rightarrow> bool) \<Rightarrow> bool \<Rightarrow> host \<Rightarrow> node \<times> store \<Rightarrow> node \<times> store \<Rightarrow> bool"
  for svc world again h where
  fires: "nd_exit n = None \<Longrightarrow> i \<in> nd_timers n \<Longrightarrow> p \<in> h_ticks h i \<Longrightarrow>
    node_step svc world again h (n, s) (n\<lparr>nd_flights := nd_flights n @ [p]\<rparr>, s)"
| flight: "nd_exit n = None \<Longrightarrow> j < length (nd_flights n) \<Longrightarrow> nd_flights n ! j = Await c k \<Longrightarrow>
    answers svc n c s r s' \<Longrightarrow>
    node_step svc world again h (n, s) (n\<lparr>nd_flights := (nd_flights n)[j := k r]\<rparr>, s')"
| lane_steps: "nd_exit n = None \<Longrightarrow> j < length (nd_lanes n) \<Longrightarrow>
    lane_next (h_worker h) (h_config h) (nd_draining n) (nd_inFlight n) (nd_lanes n ! j) = Some (l, F) \<Longrightarrow>
    node_step svc world again h (n, s) (n\<lparr>nd_lanes := (nd_lanes n)[j := l], nd_inFlight := F\<rparr>, s)"
| lane_awaits: "nd_exit n = None \<Longrightarrow> j < length (nd_lanes n) \<Longrightarrow> lane_await (nd_lanes n ! j) = Some (c, k) \<Longrightarrow>
    answers svc n c s r s' \<Longrightarrow>
    node_step svc world again h (n, s) (n\<lparr>nd_lanes := (nd_lanes n)[j := k r]\<rparr>, s')"
| script_goes: "nd_exit n = None \<Longrightarrow> j < length (nd_scripts n) \<Longrightarrow> nd_scripts n ! j = (c # cs, x) \<Longrightarrow>
    host_does again h (clock s) c n = Goes n' pre \<Longrightarrow>
    node_step svc world again h (n, s) (n'\<lparr>nd_scripts := (nd_scripts n)[j := (pre @ cs, x)]\<rparr>, s)"
| script_awaits: "nd_exit n = None \<Longrightarrow> j < length (nd_scripts n) \<Longrightarrow>
    nd_scripts n ! j = (Command (Await c k) # cs, x) \<Longrightarrow> answers svc n c s r s' \<Longrightarrow>
    node_step svc world again h (n, s) (n\<lparr>nd_scripts := (nd_scripts n)[j := (Command (k r) # cs, x)]\<rparr>, s')"
| script_fails: "nd_exit n = None \<Longrightarrow> j < length (nd_scripts n) \<Longrightarrow> nd_scripts n ! j = (c # cs, x) \<Longrightarrow>
    may_fail c \<or> host_does again h (clock s) c n = Rejects \<Longrightarrow>
    node_step svc world again h (n, s) (rejected j x n, s)"
| signal: "nd_exit n = None \<Longrightarrow> nd_signals n \<Longrightarrow>
    node_step svc world again h (n, s) (n\<lparr>nd_scripts := nd_scripts n @ [h_shutdown h]\<rparr>, s)"
| killed: "nd_exit n = None \<Longrightarrow> 128 \<le> code \<Longrightarrow>
    node_step svc world again h (n, s) (n\<lparr>nd_exit := Some code\<rparr>, s)"
| world: "world s s' \<Longrightarrow> node_step svc world again h (n, s) (n, s')"

abbreviation node_run ::
  "service \<Rightarrow> (store \<Rightarrow> store \<Rightarrow> bool) \<Rightarrow> bool \<Rightarrow> host \<Rightarrow> node \<times> store \<Rightarrow> node \<times> store \<Rightarrow> bool" where
  "node_run svc world again h \<equiv> (node_step svc world again h)\<^sup>*\<^sup>*"


section \<open>Stopping\<close>

text \<open>What a process never does again once its intervals are cleared.\<close>

fun sets_timer :: "host_call \<Rightarrow> bool" where
  "sets_timer (SetTimer _) = True"
| "sets_timer BuildApp = True"
| "sets_timer _ = False"

definition no_timers :: "script \<Rightarrow> bool" where
  "no_timers sc \<longleftrightarrow> (\<forall>c \<in> set (fst sc) \<union> (\<Union>cs \<in> set_option (snd sc). set cs). \<not> sets_timer c)"

lemma no_timers_Cons: "no_timers (c # cs, x) \<Longrightarrow> \<not> sets_timer c \<and> no_timers (cs, x)"
  by (simp add: no_timers_def)

lemma no_timers_handler: "no_timers (cs, Some ds) \<Longrightarrow> no_timers (ds, None)"
  by (simp add: no_timers_def)

lemma host_does_frame:
  assumes "host_does again h now c n = Goes n' pre" and "\<not> sets_timer c"
  shows "nd_timers n' \<subseteq> nd_timers n \<and> nd_flights n' = nd_flights n \<and> nd_scripts n' = nd_scripts n \<and>
    (\<forall>x. no_timers (cs, x) \<longrightarrow> no_timers (pre @ cs, x))"
  using assms
  by (cases c) (auto simp: no_timers_def split: if_splits prog.splits)

lemma set_list_update: "x \<in> set (xs[j := y]) \<Longrightarrow> x = y \<or> x \<in> set xs"
  using set_update_subset_insert [of xs j y] by blast

definition silent :: "node \<Rightarrow> bool" where
  "silent n \<longleftrightarrow> nd_timers n = {} \<and> (\<forall>sc \<in> set (nd_scripts n). no_timers sc)"

lemma silent_step:
  assumes "node_step svc world again h a b" and "silent (fst a)" and "no_timers (h_shutdown h)"
  shows "silent (fst b) \<and> length (nd_flights (fst b)) = length (nd_flights (fst a))"
  using assms(1,2)
proof (induction rule: node_step.induct)
  case (script_goes n j c cs x s n' pre)
  have sc: "no_timers (c # cs, x)"
    using script_goes nth_mem [of j "nd_scripts n"] by (auto simp: silent_def)
  then show ?case
    using script_goes host_does_frame [OF script_goes(4), of cs] no_timers_Cons [OF sc]
    by (auto simp: silent_def dest!: set_list_update)
next
  case (script_awaits n j c k cs x s r s')
  have "no_timers (Command (Await c k) # cs, x)"
    using script_awaits nth_mem [of j "nd_scripts n"] by (auto simp: silent_def)
  then show ?case using script_awaits by (auto simp: silent_def no_timers_def dest!: set_list_update)
next
  case (script_fails n j c cs x s)
  have "no_timers (c # cs, x)"
    using script_fails nth_mem [of j "nd_scripts n"] by (auto simp: silent_def)
  then show ?case
    using script_fails by (auto simp: silent_def rejected_def no_timers_def split: option.split dest!: set_list_update)
next
  case (signal n s)
  then show ?case using assms(3) by (auto simp: silent_def)
qed (auto simp: silent_def)

lemma silent_run:
  assumes "node_run svc world again h a b" and "silent (fst a)" and "no_timers (h_shutdown h)"
  shows "silent (fst b) \<and> length (nd_flights (fst b)) = length (nd_flights (fst a))"
  using assms(1)
proof induction
  case base
  show ?case using assms(2) by simp
next
  case (step b c)
  then show ?case using silent_step [OF step(2) _ assms(3)] by simp
qed

section \<open>A worker leaves\<close>

definition last_calls :: "host_call list" where
  "last_calls = [EndPool, Disconnect, Exit 0]"

definition leave_calls :: "string \<Rightarrow> host_call list" where
  "leave_calls w = SettleLanes # Command (deregisterWorker w) # last_calls"

definition waiting :: "string \<Rightarrow> host_call list set" where
  "waiting w = {Drain # leave_calls w, leave_calls w} \<union> range (\<lambda>d. Grace d # leave_calls w)"

definition leaving :: "string \<Rightarrow> host_call list set" where
  "leaving w = (\<lambda>p. Command p # last_calls) ` ({deregisterWorker w} \<union> range Throw)"

definition left :: "host_call list set" where
  "left = {Command (Ret ()) # last_calls, last_calls, [Disconnect, Exit 0], [Exit 0], []}"

definition main_rest :: "script \<Rightarrow> bool" where
  "main_rest sc \<longleftrightarrow> sc = ([SettleLanes], Some [Exit 1]) \<or> sc = ([], Some [Exit 1])"

definition at_stage :: "host_call list set \<Rightarrow> node \<Rightarrow> bool" where
  "at_stage S n \<longleftrightarrow> (\<exists>cs \<in> S. (cs, None) \<in> set (nd_scripts n))"

definition all_finished :: "node \<Rightarrow> bool" where
  "all_finished n \<longleftrightarrow> set (nd_lanes n) \<subseteq> {Finished}"

definition busy :: "node \<Rightarrow> string set" where
  "busy n = {i. \<exists>p. Working (Some i) p \<in> set (nd_lanes n)}"

definition stages_ok :: "string \<Rightarrow> node \<Rightarrow> bool" where
  "stages_ok w n \<longleftrightarrow> (\<forall>sc \<in> set (nd_scripts n). main_rest sc \<or>
     (snd sc = None \<and> fst sc \<in> waiting w \<union> leaving w \<union> left))"

definition worker_inv :: "string \<Rightarrow> node \<times> store \<Rightarrow> bool" where
  "worker_inv w a \<longleftrightarrow> nd_flights (fst a) = [] \<and> stages_ok w (fst a) \<and> nd_inFlight (fst a) \<subseteq> busy (fst a) \<and>
     (at_stage (leaving w \<union> left) (fst a) \<or> nd_exit (fst a) = Some 0 \<longrightarrow> all_finished (fst a)) \<and>
     (at_stage left (fst a) \<or> nd_exit (fst a) = Some 0 \<longrightarrow> w \<notin> set (sets (snd a) WORKERS_SET_KEY))"

definition worker_running :: "string \<Rightarrow> worker_config \<Rightarrow> node" where
  "worker_running w cfg = (loaded (worker_process w cfg))\<lparr>nd_lanes := replicate (concurrency cfg) AtTest,
     nd_signals := True, nd_scripts := [([SettleLanes], Some [Exit 1])]\<rparr>"

lemmas stage_defs = waiting_def leaving_def left_def leave_calls_def last_calls_def

lemma worker_running_inv: "worker_inv w (worker_running w cfg, s)"
  by (simp add: worker_inv_def worker_running_def loaded_def stages_ok_def main_rest_def at_stage_def busy_def)

lemma dereg_Await: "deregisterWorker w = Await (Redis (SREM WORKERS_SET_KEY w))
    (\<lambda>r. case r of Inl e \<Rightarrow> Throw e | Inr v \<Rightarrow> Ret ())"
  by (simp add: deregisterWorker_def call_def)


lemma stage_cases [consumes 1, case_names Drain Grace Settle Dereg Ended Failed EndPool Disconnect Exit]:
  assumes "c # cs \<in> waiting w \<union> leaving w \<union> left"
  obtains "c = Drain" "cs = leave_calls w" | d where "c = Grace d" "cs = leave_calls w"
    | "c = SettleLanes" "cs = Command (deregisterWorker w) # last_calls"
    | "c = Command (deregisterWorker w)" "cs = last_calls"
    | "c = Command (Ret ())" "cs = last_calls" | e where "c = Command (Throw e)" "cs = last_calls"
    | "c = EndPool" "cs = [Disconnect, Exit 0]" | "c = Disconnect" "cs = [Exit 0]" | "c = Exit 0" "cs = []"
proof -
  have "c = Drain \<and> cs = leave_calls w \<or> (\<exists>d. c = Grace d \<and> cs = leave_calls w) \<or>
    c = SettleLanes \<and> cs = Command (deregisterWorker w) # last_calls \<or>
    c = Command (deregisterWorker w) \<and> cs = last_calls \<or> c = Command (Ret ()) \<and> cs = last_calls \<or>
    (\<exists>e. c = Command (Throw e) \<and> cs = last_calls) \<or>
    c = EndPool \<and> cs = [Disconnect, Exit 0] \<or> c = Disconnect \<and> cs = [Exit 0] \<or> c = Exit 0 \<and> cs = []"
    using assms unfolding waiting_def leaving_def left_def
    by (elim UnE insertE rangeE imageE emptyE; hypsubst?; simp add: leave_calls_def last_calls_def)
  then show thesis by (elim disjE exE conjE) (rule that, assumption, assumption)+
qed

lemma stage_members:
  "Drain # leave_calls w \<in> waiting w" "leave_calls w \<in> waiting w" "Grace d # leave_calls w \<in> waiting w"
  "Command (deregisterWorker w) # last_calls \<in> leaving w" "Command (Throw e) # last_calls \<in> leaving w"
  "Command (Ret ()) # last_calls \<in> left" "last_calls \<in> left" "[Disconnect, Exit 0] \<in> left" "[Exit 0] \<in> left"
  "[] \<in> left"
  "Drain # cs \<notin> leaving w \<union> left" "Grace d # cs \<notin> leaving w \<union> left" "leave_calls w \<notin> leaving v \<union> left"
  "Command (deregisterWorker w) # cs \<notin> left" "Command (Throw e) # cs \<notin> left"
  by (auto simp: stage_defs dereg_Await)

lemma leave_tail: "leave_calls w = SettleLanes # Command (deregisterWorker w) # last_calls"
  "last_calls = EndPool # [Disconnect, Exit 0]"
  by (simp_all add: leave_calls_def last_calls_def)

lemma stage_goes:
  assumes "host_does again h now c n = Goes n' pre" and "c # cs \<in> waiting w \<union> leaving w \<union> left"
  shows "pre @ cs \<in> waiting w \<union> leaving w \<union> left \<and>
    (pre @ cs \<in> leaving w \<union> left \<longrightarrow> c # cs \<in> leaving w \<union> left \<or> all_finished n) \<and>
    (pre @ cs \<in> left \<longrightarrow> c # cs \<in> left) \<and>
    nd_lanes n' = nd_lanes n \<and> nd_flights n' = nd_flights n \<and> nd_inFlight n' = nd_inFlight n \<and>
    nd_scripts n' = nd_scripts n \<and> (nd_exit n' = nd_exit n \<or> nd_exit n' = Some 0 \<and> c # cs \<in> left)"
  using assms(2)
proof (cases rule: stage_cases)
  case Drain
  then show ?thesis using assms(1) stage_members(1-3) stage_members(11-13) by (auto split: if_splits)
next
  case (Grace d)
  then show ?thesis using assms(1) stage_members(1-3) stage_members(11-13) by (auto split: if_splits)
next
  case Settle
  then show ?thesis
    using assms(1) stage_members(4) stage_members(14) by (auto simp: all_finished_def split: if_splits)
next
  case Dereg
  then show ?thesis using assms(1) by (simp add: dereg_Await)
next
  case Ended
  then show ?thesis using assms(1) stage_members(6,7) by auto
next
  case EndPool
  then show ?thesis
    using assms(1) stage_members(7,8) by (auto simp: leave_tail(2) split: if_splits)
qed (use assms(1) stage_members(8-10) in auto)

lemma main_goes:
  assumes "host_does again h now c n = Goes n' pre" and "main_rest (c # cs, x)"
  shows "main_rest (pre @ cs, x) \<and> n' = n"
  using assms by (auto simp: main_rest_def split: if_splits)

lemma stage_awaits:
  assumes "Command (Await c k) # cs \<in> waiting w \<union> leaving w \<union> left"
  shows "Command (Await c k) # cs \<in> leaving w" and "cs = last_calls" and "c = Redis (SREM WORKERS_SET_KEY w)"
    and "k r = Ret () \<or> (\<exists>e. k r = Throw e)" and "k (Inl e) = Throw e"
  using assms by (auto simp: stage_defs dereg_Await fun_eq_iff split: sum.split)

lemma main_not_command: "\<not> main_rest (Command p # cs, x)"
  by (simp add: main_rest_def)

lemma at_stage_update:
  "at_stage S m \<Longrightarrow> nd_scripts m = (nd_scripts n)[j := (cs, x)] \<Longrightarrow> (x = None \<and> cs \<in> S) \<or> at_stage S n"
  unfolding at_stage_def by (auto dest!: set_list_update)

lemma stages_ok_update:
  "stages_ok w n \<Longrightarrow> nd_scripts m = (nd_scripts n)[j := (cs, x)] \<Longrightarrow>
    main_rest (cs, x) \<or> (x = None \<and> cs \<in> waiting w \<union> leaving w \<union> left) \<Longrightarrow> stages_ok w m"
  unfolding stages_ok_def by (auto dest!: set_list_update)

lemma at_stage_mono: "at_stage S n \<Longrightarrow> S \<subseteq> T \<Longrightarrow> at_stage T n"
  by (auto simp: at_stage_def)

lemma stages_ok_nth:
  assumes "stages_ok w n" and "j < length (nd_scripts n)" and "nd_scripts n ! j = (cs, x)"
  shows "main_rest (cs, x) \<or> (x = None \<and> cs \<in> waiting w \<union> leaving w \<union> left)"
    and "x = None \<Longrightarrow> cs \<in> S \<Longrightarrow> at_stage S n"
  using assms nth_mem [OF assms(2)] by (auto simp: stages_ok_def at_stage_def)

lemma busy_update:
  assumes "nd_lanes n ! j = l0" and "j < length (nd_lanes n)"
  shows "busy n - {i. \<exists>p. l0 = Working (Some i) p} \<subseteq> busy (n\<lparr>nd_lanes := (nd_lanes n)[j := l], nd_inFlight := F\<rparr>)"
    and "l = Working (Some i) p \<Longrightarrow> i \<in> busy (n\<lparr>nd_lanes := (nd_lanes n)[j := l], nd_inFlight := F\<rparr>)"
proof -
  have "l' \<in> set ((nd_lanes n)[j := l])" if l': "l' \<in> set (nd_lanes n)" "l' \<noteq> l0" for l'
  proof -
    obtain m where m: "m < length (nd_lanes n)" "nd_lanes n ! m = l'" using l'(1) by (auto simp: in_set_conv_nth)
    then have "(nd_lanes n)[j := l] ! m = l'" using assms l'(2) by (metis nth_list_update_neq)
    then show ?thesis using m(1) nth_mem [of m "(nd_lanes n)[j := l]"] by simp
  qed
  then show "busy n - {i. \<exists>p. l0 = Working (Some i) p} \<subseteq>
      busy (n\<lparr>nd_lanes := (nd_lanes n)[j := l], nd_inFlight := F\<rparr>)"
    by (auto simp: busy_def)
  show "i \<in> busy (n\<lparr>nd_lanes := (nd_lanes n)[j := l], nd_inFlight := F\<rparr>)" if "l = Working (Some i) p"
    using that assms(2) set_update_memI [of j "nd_lanes n" l] by (auto simp: busy_def)
qed

lemma not_all_finished:
  "j < length (nd_lanes n) \<Longrightarrow> nd_lanes n ! j \<noteq> Finished \<Longrightarrow> \<not> all_finished n"
  unfolding all_finished_def using nth_mem by blast

lemma lane_next_inFlight:
  assumes "lane_next w cfg d F l0 = Some (l, G)" and "F \<subseteq> busy n" and "nd_lanes n ! j = l0" and "j < length (nd_lanes n)"
  shows "G \<subseteq> busy (n\<lparr>nd_lanes := (nd_lanes n)[j := l], nd_inFlight := G\<rparr>)"
  using assms(1,2) busy_update [OF assms(3,4)]
  by (cases "(w, cfg, d, F, l0)" rule: lane_next.cases)
    (fastforce simp: lane_claimed_def split: sum.splits option.splits)+


lemma at_stage_Un: "at_stage (S \<union> T) n \<longleftrightarrow> at_stage S n \<or> at_stage T n"
  by (auto simp: at_stage_def)

lemma worker_inv_keep:
  assumes inv: "worker_inv w (n, s)"
    and same: "nd_flights m = nd_flights n" "all_finished m = all_finished n" "busy m = busy n"
      "nd_inFlight m = nd_inFlight n"
    and ok: "stages_ok w m"
    and lv: "at_stage (leaving w) m \<Longrightarrow> at_stage (leaving w \<union> left) n \<or> all_finished n"
    and lf: "at_stage left m \<Longrightarrow> at_stage left n \<or> all_finished n \<and> w \<notin> set (sets t WORKERS_SET_KEY)"
    and ex: "nd_exit m = Some 0 \<Longrightarrow> at_stage left n \<or> nd_exit n = Some 0"
    and reg: "w \<notin> set (sets s WORKERS_SET_KEY) \<Longrightarrow> w \<notin> set (sets t WORKERS_SET_KEY)"
  shows "worker_inv w (m, t)"
proof -
  have left_n: "at_stage left n \<or> nd_exit n = Some 0 \<Longrightarrow> all_finished n \<and> w \<notin> set (sets t WORKERS_SET_KEY)"
    using inv reg by (simp add: worker_inv_def at_stage_Un)
  have lv_n: "at_stage (leaving w \<union> left) n \<Longrightarrow> all_finished n" using inv by (simp add: worker_inv_def)
  show ?thesis
    unfolding worker_inv_def fst_conv snd_conv at_stage_Un same
    using inv ok lv lf ex left_n lv_n by (auto simp: worker_inv_def)
qed

context services begin

lemma answers_srem:
  assumes "answers svc n (Redis (SREM k w)) s r s'"
  shows "r = Inl ConnLost \<or> (\<exists>v. r = Inr v) \<and> w \<notin> set (sets s' k)"
    and "w \<notin> set (sets s k) \<Longrightarrow> w \<notin> set (sets s' k)"
  using assms by (auto elim!: answers.cases simp: laws)

lemma worker_inv_step:
  assumes "node_step svc world again (worker_process w cfg) a b" and "worker_inv w a"
    and rely: "\<And>s s'. world s s' \<Longrightarrow> w \<notin> set (sets s WORKERS_SET_KEY) \<Longrightarrow> w \<notin> set (sets s' WORKERS_SET_KEY)"
  shows "worker_inv w b"
  using assms(1,2)
proof (induction rule: node_step.induct)
  case (fires n i p s)
  then show ?case by (simp add: worker_process_def)
next
  case (flight n j c k s r s')
  then show ?case by (simp add: worker_inv_def)
next
  case (lane_steps n j l F s)
  have "nd_lanes n ! j \<noteq> Finished" using lane_steps(3) by auto
  then have "\<not> all_finished n" using not_all_finished [OF lane_steps(2)] by blast
  then show ?case
    using lane_steps lane_next_inFlight [OF lane_steps(3) _ refl lane_steps(2)]
    by (auto simp: worker_inv_def at_stage_def stages_ok_def)
next
  case (lane_awaits n j c k s r s')
  have "nd_lanes n ! j \<noteq> Finished" using lane_awaits(3) by auto
  then have fin: "\<not> all_finished n" using not_all_finished [OF lane_awaits(2)] by blast
  have "nd_lanes n ! j = Working (Some i) p \<Longrightarrow> \<exists>q. k r = Working (Some i) q" for i p
    using lane_awaits(3) by (cases p) auto
  then have "busy n \<subseteq> busy (n\<lparr>nd_lanes := (nd_lanes n)[j := k r], nd_inFlight := nd_inFlight n\<rparr>)"
    using busy_update [OF refl lane_awaits(2), where l = "k r" and F = "nd_inFlight n"] by blast
  then show ?case
    using lane_awaits fin by (auto simp: worker_inv_def at_stage_def stages_ok_def)
next
  case (script_goes n j c cs x s n' pre)
  have ok: "stages_ok w n" using script_goes(5) by (simp add: worker_inv_def)
  from stages_ok_nth(1) [OF ok script_goes(2,3)] show ?case
  proof
    assume m: "main_rest (c # cs, x)"
    then have x: "x \<noteq> None" by (auto simp: main_rest_def)
    note g = main_goes [OF script_goes(4) m]
    let ?n = "n'\<lparr>nd_scripts := (nd_scripts n)[j := (pre @ cs, x)]\<rparr>"
    have up: "nd_scripts ?n = (nd_scripts n)[j := (pre @ cs, x)]" by simp
    have at: "at_stage S ?n \<Longrightarrow> at_stage S n" for S using at_stage_update [OF _ up] x by blast
    show ?thesis
    proof (rule worker_inv_keep [OF script_goes(5)])
      show "stages_ok w ?n" using stages_ok_update [OF ok up] g by blast
      show "at_stage (leaving w) ?n \<Longrightarrow> at_stage (leaving w \<union> left) n \<or> all_finished n"
        using at unfolding at_stage_Un by blast
      show "at_stage left ?n \<Longrightarrow> at_stage left n \<or> all_finished n \<and> w \<notin> set (sets s WORKERS_SET_KEY)"
        using at by blast
    qed (use g in \<open>simp_all add: all_finished_def busy_def\<close>)
  next
    assume st: "x = None \<and> c # cs \<in> waiting w \<union> leaving w \<union> left"
    have at: "c # cs \<in> S \<Longrightarrow> at_stage S n" for S
      using stages_ok_nth(2) [OF ok script_goes(2,3)] st by blast
    note g = stage_goes [OF script_goes(4) st [THEN conjunct2]]
    let ?n = "n'\<lparr>nd_scripts := (nd_scripts n)[j := (pre @ cs, x)]\<rparr>"
    have up: "nd_scripts ?n = (nd_scripts n)[j := (pre @ cs, x)]" by simp
    show ?thesis
    proof (rule worker_inv_keep [OF script_goes(5)])
      show "stages_ok w ?n" using stages_ok_update [OF ok up] g st by blast
      show "at_stage (leaving w) ?n \<Longrightarrow> at_stage (leaving w \<union> left) n \<or> all_finished n"
        using at_stage_update [OF _ up] g at [of "leaving w \<union> left"] unfolding at_stage_Un by blast
      show "at_stage left ?n \<Longrightarrow> at_stage left n \<or> all_finished n \<and> w \<notin> set (sets s WORKERS_SET_KEY)"
        using at_stage_update [OF _ up] g at [of left] by blast
      show "nd_exit ?n = Some 0 \<Longrightarrow> at_stage left n \<or> nd_exit n = Some 0"
        using g script_goes(1) at [of left] by auto
    qed (use g in \<open>simp_all add: all_finished_def busy_def\<close>)
  qed
next
  case (script_awaits n j c k cs x s r s')
  have ok: "stages_ok w n" using script_awaits(5) by (simp add: worker_inv_def)
  have x: "x = None" and st: "Command (Await c k) # cs \<in> waiting w \<union> leaving w \<union> left"
    using stages_ok_nth(1) [OF ok script_awaits(2,3)] main_not_command by blast+
  note aw = stage_awaits [OF st]
  let ?n = "n\<lparr>nd_scripts := (nd_scripts n)[j := (Command (k r) # cs, x)]\<rparr>"
  have fin: "all_finished n" "nd_inFlight n \<subseteq> busy n" "nd_flights n = []" "at_stage (leaving w) n"
    using script_awaits(5) stages_ok_nth(2) [OF ok script_awaits(2,3) x aw(1)] at_stage_mono [of "leaving w" n]
    by (auto simp: worker_inv_def)
  have srem: "r = Inl ConnLost \<or> w \<notin> set (sets s' WORKERS_SET_KEY)"
    "w \<notin> set (sets s WORKERS_SET_KEY) \<Longrightarrow> w \<notin> set (sets s' WORKERS_SET_KEY)"
    using answers_srem script_awaits(4) unfolding aw(3) by blast+
  have new: "Command (k r) # cs \<in> leaving w \<union> left" using aw(4) [of r] stage_members(5,6) by (auto simp: aw(2))
  have up: "nd_scripts ?n = (nd_scripts n)[j := (Command (k r) # cs, x)]" by simp
  have stay: "at_stage left ?n \<Longrightarrow> at_stage left n \<or> w \<notin> set (sets s' WORKERS_SET_KEY)"
    using at_stage_update [OF _ up] srem(1) aw(5) [of ConnLost] stage_members(15) by metis
  show ?case
  proof (rule worker_inv_keep [OF script_awaits(5)])
    show "stages_ok w ?n" using stages_ok_update [OF ok up] new x by blast
  qed (use script_awaits(1) fin srem stay in \<open>simp_all add: all_finished_def busy_def\<close>)
next
  case (script_fails n j c cs x s)
  then show ?case
  proof (cases x)
    case None
    then show ?thesis
      using script_fails by (auto simp: rejected_def worker_inv_def stages_ok_def at_stage_def all_finished_def busy_def)
  next
    case (Some ds)
    have "main_rest (c # cs, x)"
      using stages_ok_nth(1) [OF _ script_fails(2,3)] script_fails(5) Some by (auto simp: worker_inv_def)
    then show ?thesis using script_fails(4) by (auto simp: main_rest_def split: if_splits)
  qed
next
  case (signal n s)
  have "h_shutdown (worker_process w cfg) = (Drain # leave_calls w, None)"
    by (simp add: worker_process_def worker_shutdown_def leave_calls_def last_calls_def)
  then show ?case
    using signal stage_members(1,11)
    by (auto simp: worker_inv_def stages_ok_def at_stage_def all_finished_def busy_def)
next
  case (killed n code s)
  then show ?case by (auto simp: worker_inv_def stages_ok_def at_stage_def all_finished_def busy_def)
next
  case (world s s' n)
  then show ?case using rely by (auto simp: worker_inv_def)
qed

lemma worker_inv_run:
  assumes "node_run svc world again (worker_process w cfg) a b" and "worker_inv w a"
    and "\<And>s s'. world s s' \<Longrightarrow> w \<notin> set (sets s WORKERS_SET_KEY) \<Longrightarrow> w \<notin> set (sets s' WORKERS_SET_KEY)"
  shows "worker_inv w b"
  using assms(1) by induction (use assms(2,3) worker_inv_step in blast)+

end


section \<open>Progress\<close>

lemma answers_exist: "\<exists>r s'. answers svc n c s r s'"
proof (cases "connected n c")
  case True
  then show ?thesis using answers.reply [OF True prod.collapse [symmetric]] by blast
next
  case False
  then have "remote c" by (cases c) simp_all
  then show ?thesis by (blast intro: answers.refused)
qed

lemma step_run: "node_step svc world again h a b \<Longrightarrow> node_run svc world again h b c \<Longrightarrow> node_run svc world again h a c"
  by (rule converse_rtranclp_into_rtranclp)

text \<open>A worker that drains: every lane can come to its end, whatever it is doing.\<close>

lemma lane_finishes:
  assumes "nd_exit n = None" and "nd_draining n" and "j < length (nd_lanes n)"
  shows "\<exists>F t. node_run svc world again h (n\<lparr>nd_lanes := (nd_lanes n)[j := l], nd_inFlight := F0\<rparr>, s)
    (n\<lparr>nd_lanes := (nd_lanes n)[j := Finished], nd_inFlight := F\<rparr>, t)"
proof -
  let ?n = "\<lambda>l F. n\<lparr>nd_lanes := (nd_lanes n)[j := l], nd_inFlight := F\<rparr>"
  let ?run = "node_run svc world again h"
  have own: "?run (?n l F, s) (?n l' F', s)"
    if "lane_next (h_worker h) (h_config h) True F l = Some (l', F')" for l l' F F' s
  proof -
    have "node_step svc world again h (?n l F, s)
        ((?n l F)\<lparr>nd_lanes := (nd_lanes (?n l F))[j := l'], nd_inFlight := F'\<rparr>, s)"
      using that assms by (intro node_step.lane_steps) auto
    then show ?thesis using assms by auto
  qed
  have await: "\<exists>r s'. ?run (?n l F, s) (?n (k r) F, s')" if "lane_await l = Some (c, k)" for l c k F s
  proof -
    obtain r s' where "answers svc (?n l F) c s r s'" using answers_exist by blast
    then have "node_step svc world again h (?n l F, s)
        ((?n l F)\<lparr>nd_lanes := (nd_lanes (?n l F))[j := k r]\<rparr>, s')"
      using that assms by (intro node_step.lane_awaits) auto
    moreover have "(?n l F)\<lparr>nd_lanes := (nd_lanes (?n l F))[j := k r]\<rparr> = ?n (k r) F" by (cases n) simp
    ultimately show ?thesis by (metis r_into_rtranclp)
  qed
  have at_test: "?run (?n AtTest F, s) (?n Finished F, s)" for F s by (rule own) simp
  have working: "\<exists>F' t. ?run (?n (Working x p) F, s) (?n Finished F', t)" for x p F s
  proof (induction p arbitrary: s)
    case (Ret u)
    have "?run (?n (Working x (Ret u)) F, s) (?n AtTest (F - set_option x), s)" by (rule own) simp
    then show ?case using at_test by (blast intro: rtranclp_trans)
  next
    case (Throw e)
    have "?run (?n (Working x (Throw e)) F, s) (?n Finished (F - set_option x), s)" by (rule own) simp
    then show ?case by blast
  next
    case (Await c k)
    obtain r s' where "?run (?n (Working x (Await c k)) F, s) (?n (Working x (k r)) F, s')"
      using await [of "Working x (Await c k)"] by fastforce
    then show ?case using Await.IH [of "k r" s'] by (blast intro: rtranclp_trans)
  qed
  have claiming: "\<exists>F' t. ?run (?n (Claiming p) F, s) (?n Finished F', t)" for p F s
  proof (induction p arbitrary: s)
    case (Ret r)
    obtain l' F' where l': "lane_claimed (h_worker h) (h_config h) r F = (l', F')" by fastforce
    then have "?run (?n (Claiming (Ret r)) F, s) (?n l' F', s)" by (intro own) simp
    moreover have "l' = AtTest \<or> (\<exists>x p. l' = Working x p)"
      using l' by (auto simp: lane_claimed_def split: sum.splits option.splits)
    ultimately show ?case using at_test working by (blast intro: rtranclp_trans)
  next
    case (Throw e)
    have "?run (?n (Claiming (Throw e)) F, s) (?n Finished F, s)" by (rule own) simp
    then show ?case by blast
  next
    case (Await c k)
    obtain r s' where "?run (?n (Claiming (Await c k)) F, s) (?n (Claiming (k r)) F, s')"
      using await [of "Claiming (Await c k)"] by fastforce
    then show ?case using Await.IH [of "k r" s'] by (blast intro: rtranclp_trans)
  qed
  show ?thesis
    using at_test working claiming by (cases l) blast+
qed

lemma lanes_finish:
  assumes "nd_exit n = None" and "nd_draining n" and "k \<le> length (nd_lanes n)"
  shows "\<exists>F t. node_run svc world again h (n, s)
    (n\<lparr>nd_lanes := replicate k Finished @ drop k (nd_lanes n), nd_inFlight := F\<rparr>, t)"
  using assms(3)
proof (induction k)
  case 0
  have "node_run svc world again h (n, s) (n\<lparr>nd_lanes := nd_lanes n, nd_inFlight := nd_inFlight n\<rparr>, s)" by simp
  then show ?case unfolding replicate_0 drop_0 append_Nil by blast
next
  case (Suc k)
  then obtain F t where r: "node_run svc world again h (n, s)
      (n\<lparr>nd_lanes := replicate k Finished @ drop k (nd_lanes n), nd_inFlight := F\<rparr>, t)" by auto
  let ?m = "n\<lparr>nd_lanes := replicate k Finished @ drop k (nd_lanes n), nd_inFlight := F\<rparr>"
  have upd: "(nd_lanes ?m)[k := Finished] = replicate (Suc k) Finished @ drop (Suc k) (nd_lanes n)"
    using Suc.prems by (simp add: list_update_append Cons_nth_drop_Suc [symmetric] replicate_append_same)
  obtain F' t' where "node_run svc world again h (?m, t)
      (?m\<lparr>nd_lanes := (nd_lanes ?m)[k := Finished], nd_inFlight := F'\<rparr>, t')"
    using lane_finishes [where n = ?m and j = k and l = "nd_lanes ?m ! k" and ?F0.0 = F and s = t and svc = svc
        and world = world and again = again and h = h] assms Suc.prems
    by (auto simp: list_update_id)
  then show ?case using rtranclp_trans [OF r] unfolding upd by auto
qed

text \<open>A script whose next calls all go through.\<close>

lemma script_run:
  assumes "nd_exit n = None" and "j < length (nd_scripts n)" and "nd_scripts n ! j = (c # cs, x)"
    and "host_does again h (clock s) c n = Goes n' pre"
    and "node_run svc world again h (n'\<lparr>nd_scripts := (nd_scripts n)[j := (pre @ cs, x)]\<rparr>, s) b"
  shows "node_run svc world again h (n, s) b"
  by (rule step_run [OF node_step.script_goes [OF assms(1-4)] assms(5)])

end
