(* ===== verification/Shutdown.thy ===== *)
theory Shutdown
  imports Lifecycle
begin

text \<open>
  What starting and stopping a process guarantees: a lane of the machine of \<open>Lifecycle\<close> runs
  exactly the program \<open>runLane\<close>; a worker that exits with code 0 left no job unfinished and can
  always get there; the reaper and the scheduler cut off the tick they are in.
\<close>

section \<open>A lane of the machine is \<open>runLane\<close>\<close>

text \<open>What is left to run for a lane, given the later answers of the test of the loop.\<close>

definition lane_rest ::
  "string \<Rightarrow> worker_config \<Rightarrow> bool list \<Rightarrow> err + claimed option \<Rightarrow> unit prog" where
  "lane_rest w cfg later r = and_then (case r of
       Inl err \<Rightarrow> call (Sleep 1000) (\<lambda>_. Ret ())
     | Inr None \<Rightarrow> Ret ()
     | Inr (Some claimed) \<Rightarrow>
         catch_err (and_then (processJob w claimed cfg) (\<lambda>outcome. Ret ())) (\<lambda>err. Ret ()))
     (\<lambda>_. runLane w cfg later)"

fun lane_prog :: "string \<Rightarrow> worker_config \<Rightarrow> lane \<Rightarrow> bool list \<Rightarrow> unit prog" where
  "lane_prog w cfg AtTest later = runLane w cfg later"
| "lane_prog w cfg (Claiming p) later = and_then p (lane_rest w cfg later)"
| "lane_prog w cfg (Working x p) later = and_then p (\<lambda>_. runLane w cfg later)"
| "lane_prog w cfg Finished later = Ret ()"

fun throwing :: "lane \<Rightarrow> bool" where
  "throwing (Claiming (Throw e)) = True"
| "throwing (Working x (Throw e)) = True"
| "throwing _ = False"

lemma and_then_assoc: "and_then (and_then p f) g = and_then p (\<lambda>a. and_then (f a) g)"
  by (induction p) auto

lemma lane_machine_next:
  assumes "lane_next w cfg d F l = Some (l', F')" and "\<not> throwing l"
  shows "lane_prog w cfg l (if l = AtTest then d # later else later) = lane_prog w cfg l' later"
  using assms
  by (cases "(w, cfg, d, F, l)" rule: lane_next.cases)
    (auto simp: lane_claim_def lane_turn_def lane_rest_def [abs_def] lane_claimed_def and_then_assoc
      split: sum.splits option.splits)

lemma lane_machine_await:
  "lane_await l = Some (c, k) \<Longrightarrow> lane_prog w cfg l later = Await c (\<lambda>r. lane_prog w cfg (k r) later)"
  by (cases l rule: lane_await.cases) auto

section \<open>A tick in the middle\<close>

text \<open>\<open>advances svc p s q t\<close>: undisturbed, the program \<open>p\<close> comes to \<open>q\<close>.\<close>

inductive advances :: "service \<Rightarrow> 'a prog \<Rightarrow> store \<Rightarrow> 'a prog \<Rightarrow> store \<Rightarrow> bool" for svc where
  here: "advances svc p s p s"
| first: "svc c s = (r, s') \<Longrightarrow> advances svc (k r) s' q t \<Longrightarrow> advances svc (Await c k) s q t"

lemma advances_call: "svc c s = (Inr v, s') \<Longrightarrow> advances svc (k v) s' q t \<Longrightarrow> advances svc (call c k) s q t"
  unfolding call_def by (rule advances.first) auto

lemma advances_and_then: "advances svc p s q t \<Longrightarrow> advances svc (and_then p f) s (and_then q f) t"
  by (induction rule: advances.induct) (auto intro: advances.intros)

lemma advances_catch: "advances svc p s q t \<Longrightarrow> advances svc (catch_err p h) s (catch_err q h) t"
  by (induction rule: advances.induct) (auto intro: advances.intros)

lemma flight_advances:
  assumes "advances svc p s q t"
  shows "nd_exit n = None \<Longrightarrow> \<not> nd_poolEnded n \<Longrightarrow> \<not> nd_redisGone n \<Longrightarrow> nd_flights n = [p] \<Longrightarrow>
    node_run svc world again h (n, s) (n\<lparr>nd_flights := [q]\<rparr>, t)"
  using assms
proof (induction arbitrary: n rule: advances.induct)
  case (here p s)
  then have "n\<lparr>nd_flights := [p]\<rparr> = n" by (cases n) simp
  then show ?case by simp
next
  case (first c s r s' k q t)
  have "connected n c" using first by (cases c) auto
  then have "answers svc n c s r s'" using first(1) by (rule answers.reply)
  then have "node_step svc world again h (n, s) (n\<lparr>nd_flights := (nd_flights n)[0 := k r]\<rparr>, s')"
    using first by (intro node_step.flight) auto
  moreover have "node_run svc world again h (n\<lparr>nd_flights := [k r]\<rparr>, s') (n\<lparr>nd_flights := [q]\<rparr>, t)"
    using first.IH [of "n\<lparr>nd_flights := [k r]\<rparr>"] first.prems by simp
  ultimately show ?case using first.prems by (auto intro: step_run)
qed

section \<open>Scripts that go through\<close>

fun goes_all :: "bool \<Rightarrow> host \<Rightarrow> int \<Rightarrow> host_call list \<Rightarrow> node \<Rightarrow> node option" where
  "goes_all again h now [] n = Some n"
| "goes_all again h now (c # cs) n =
     (if nd_exit n \<noteq> None then None else
      case host_does again h now c n of Goes n' [] \<Rightarrow> goes_all again h now cs n' | _ \<Rightarrow> None)"

lemma host_does_scripts:
  "host_does again h now c (n\<lparr>nd_scripts := S\<rparr>) =
     (case host_does again h now c n of Goes n' pre \<Rightarrow> Goes (n'\<lparr>nd_scripts := S\<rparr>) pre
      | Rejects \<Rightarrow> Rejects | Waits \<Rightarrow> Waits)"
  by (cases c) (auto split: prog.split)

lemma goes_all_run:
  assumes "goes_all again h (clock s) cs n = Some n'" and "j < length S" and "S ! j = (cs @ ds, x)"
  shows "node_run svc world again h (n\<lparr>nd_scripts := S\<rparr>, s) (n'\<lparr>nd_scripts := S[j := (ds, x)]\<rparr>, s)"
  using assms
proof (induction cs arbitrary: n S)
  case Nil
  then have "S[j := (ds, x)] = S" using list_update_id [of S j] by simp
  then show ?case using Nil.prems by simp
next
  case (Cons c cs)
  then obtain n1 where n1: "nd_exit n = None" "host_does again h (clock s) c n = Goes n1 []"
    "goes_all again h (clock s) cs n1 = Some n'"
    by (auto split: if_splits verdict.splits list.splits)
  have "node_step svc world again h (n\<lparr>nd_scripts := S\<rparr>, s)
      ((n1\<lparr>nd_scripts := S\<rparr>)\<lparr>nd_scripts := (nd_scripts (n\<lparr>nd_scripts := S\<rparr>))[j := ([] @ (cs @ ds), x)]\<rparr>, s)"
    by (rule node_step.script_goes [where c = c]) (use Cons.prems n1 in \<open>simp_all add: host_does_scripts\<close>)
  then show ?case
    using Cons.IH [OF n1(3), of "S[j := (cs @ ds, x)]"] Cons.prems by (auto intro: step_run)
qed

text \<open>\<open>shutdown\<close> of the reaper and the scheduler does not wait for the tick in progress.\<close>

lemma stop_cuts_tick:
  assumes "advances svc p s q t" and "p \<in> h_ticks h Poll" and "h_main h = start_script"
    and "h_shutdown h = stop_script"
  shows "\<exists>n. node_run svc world again h (loaded h, s) (n, t) \<and> nd_exit n = Some 0"
proof -
  let ?run = "node_run svc world again h"
  let ?n1 = "(loaded h)\<lparr>nd_signals := True, nd_timers := {Poll}, nd_scripts := [([], None)]\<rparr>"
  let ?n2 = "?n1\<lparr>nd_flights := [p]\<rparr>" and ?n3 = "?n1\<lparr>nd_flights := [q]\<rparr>"
  have "goes_all again h (clock s) [OnSignals, SetTimer Poll] (loaded h) =
      Some ((loaded h)\<lparr>nd_signals := True, nd_timers := {Poll}\<rparr>)"
    by (simp add: loaded_def)
  from goes_all_run [OF this, of 0 "[h_main h]" "[]" None svc world]
  have boot: "?run (loaded h, s) (?n1, s)"
    by (simp add: loaded_def assms(3) start_script_def)
  have "node_step svc world again h (?n1, s) (?n1\<lparr>nd_flights := nd_flights ?n1 @ [p]\<rparr>, s)"
    by (rule node_step.fires [where i = Poll]) (simp_all add: loaded_def assms(2))
  then have fire: "?run (?n1, s) (?n2, s)" by (simp add: loaded_def)
  have mid: "?run (?n2, s) (?n3, t)"
    using flight_advances [OF assms(1), of ?n2 world again h] by (simp add: loaded_def)
  have "node_step svc world again h (?n3, t) (?n3\<lparr>nd_scripts := nd_scripts ?n3 @ [h_shutdown h]\<rparr>, t)"
    by (rule node_step.signal) (simp_all add: loaded_def)
  then have sig: "?run (?n3, t) (?n3\<lparr>nd_scripts := [([], None), stop_script]\<rparr>, t)"
    by (simp add: assms(4))
  have "goes_all again h (clock t) (fst stop_script) ?n3 = Some (?n3\<lparr>nd_timers := {}, nd_poolEnded := True,
      nd_redisGone := True, nd_exit := Some 0\<rparr>)"
    by (simp add: loaded_def stop_script_def)
  from goes_all_run [OF this, of 1 "[([], None), stop_script]" "[]" None svc world]
  have "?run (?n3\<lparr>nd_scripts := [([], None), stop_script]\<rparr>, t) ((?n3\<lparr>nd_timers := {}, nd_poolEnded := True,
      nd_redisGone := True, nd_exit := Some 0\<rparr>)\<lparr>nd_scripts := [([], None), ([], None)]\<rparr>, t)"
    by (simp add: stop_script_def)
  then have "\<exists>n. ?run (?n3\<lparr>nd_scripts := [([], None), stop_script]\<rparr>, t) (n, t) \<and> nd_exit n = Some 0"
    by (intro exI conjI) (assumption, simp)
  then show ?thesis using boot fire mid sig by (meson rtranclp_trans)
qed

section \<open>A worker comes to its end\<close>

text \<open>The last script makes its next call.\<close>

lemma last_script_goes:
  assumes "host_does again h (clock s) c n = Goes n' pre" and "nd_exit n = None"
  shows "node_run svc world again h (n\<lparr>nd_scripts := S @ [(c # cs, x)]\<rparr>, s)
    (n'\<lparr>nd_scripts := S @ [(pre @ cs, x)]\<rparr>, s)"
proof -
  let ?m = "n\<lparr>nd_scripts := S @ [(c # cs, x)]\<rparr>"
  have "host_does again h (clock s) c ?m = Goes (n'\<lparr>nd_scripts := S @ [(c # cs, x)]\<rparr>) pre"
    using assms(1) by (simp add: host_does_scripts)
  then have "node_step svc world again h (?m, s)
      (n'\<lparr>nd_scripts := S @ [(c # cs, x)]\<rparr>\<lparr>nd_scripts := (nd_scripts ?m)[length S := (pre @ cs, x)]\<rparr>, s)"
    using assms(2) by (intro node_step.script_goes) auto
  then show ?thesis by (auto intro: r_into_rtranclp)
qed

lemma last_script_dereg:
  assumes "services svc out" and "nd_exit n = None" and "\<not> nd_redisGone n"
  shows "\<exists>t. node_run svc world again h (n\<lparr>nd_scripts := S @ [(Command (deregisterWorker w) # cs, x)]\<rparr>, s)
    (n\<lparr>nd_scripts := S @ [(Command (Ret ()) # cs, x)]\<rparr>, t)"
proof -
  let ?m = "n\<lparr>nd_scripts := S @ [(Command (deregisterWorker w) # cs, x)]\<rparr>" and ?c = "Redis (SREM WORKERS_SET_KEY w)"
  obtain v t where r: "svc ?c s = (Inr v, t)" using services.laws [OF assms(1)] by simp
  have "answers svc ?m ?c s (Inr v) t" using r assms(3) by (intro answers.reply) auto
  then have "node_step svc world again h (?m, s)
      (?m\<lparr>nd_scripts := (nd_scripts ?m)[length S := (Command ((\<lambda>r. case r of Inl e \<Rightarrow> Throw e | Inr v \<Rightarrow> Ret ()) (Inr v)) # cs, x)]\<rparr>, t)"
    using assms(2) by (intro node_step.script_awaits) (auto simp: dereg_Await)
  then show ?thesis by (auto intro: r_into_rtranclp)
qed

lemma worker_stops_from:
  assumes "services svc out" and "nd_exit n = None" and "nd_signals n" and "\<not> nd_poolEnded n" and "\<not> nd_redisGone n"
    and inFlight: "\<And>m t. node_run svc world again (worker_process w cfg) (n, s) (m, t) \<Longrightarrow> nd_inFlight m \<subseteq> busy m"
  shows "\<exists>m t. node_run svc world again (worker_process w cfg) (n, s) (m, t) \<and> nd_exit m = Some 0"
proof -
  let ?h = "worker_process w cfg"
  let ?run = "node_run svc world again ?h" and ?S = "nd_scripts n"
  let ?at = "\<lambda>n cs. n\<lparr>nd_scripts := ?S @ [(cs, None)]\<rparr>"
  let ?n1 = "n\<lparr>nd_draining := True\<rparr>"
  have sd: "h_shutdown ?h = (Drain # leave_calls w, None)"
    by (simp add: worker_process_def worker_shutdown_def leave_calls_def last_calls_def)
  have a: "?run (n, s) (?at n (Drain # leave_calls w), s)"
    using node_step.signal [OF assms(2,3), of svc world again ?h s] by (auto simp: sd)
  obtain pre where drain: "host_does again ?h (clock s) Drain n = Goes ?n1 pre" and pre: "pre = [] \<or> (\<exists>d. pre = [Grace d])"
    by (cases "nd_draining n"; cases n) auto
  have b: "?run (?at n (Drain # leave_calls w), s) (?at ?n1 (pre @ leave_calls w), s)"
    by (rule last_script_goes [OF drain assms(2)])
  let ?n2 = "\<lambda>F. ?n1\<lparr>nd_lanes := replicate (length (nd_lanes n)) Finished, nd_inFlight := F\<rparr>"
  obtain F t where c: "?run (?at ?n1 (pre @ leave_calls w), s) (?at (?n2 F) (pre @ leave_calls w), t)"
  proof -
    let ?m = "?at ?n1 (pre @ leave_calls w)"
    obtain F t where "?run (?m, s) (?m\<lparr>nd_lanes := replicate (length (nd_lanes n)) Finished @
        drop (length (nd_lanes n)) (nd_lanes ?m), nd_inFlight := F\<rparr>, t)"
      using lanes_finish [of ?m "length (nd_lanes n)" svc world again ?h s] assms(2) by auto
    then show ?thesis using that by (cases n) simp
  qed
  have "?run (n, s) (?at (?n2 F) (pre @ leave_calls w), t)" using a b c by (meson rtranclp_trans)
  then have "F = {}" using inFlight by (fastforce simp: busy_def)
  define n2 where "n2 = ?n2 {}"
  have n2: "nd_exit n2 = None" "nd_inFlight n2 = {}" "set (nd_lanes n2) \<subseteq> {Finished}" "\<not> nd_redisGone n2" "\<not> nd_poolEnded n2"
    using assms(2,4,5) by (auto simp: n2_def)
  have d: "?run (?at n2 (pre @ leave_calls w), t) (?at n2 (leave_calls w), t)"
    using pre last_script_goes [of again ?h t "Grace d" n2 n2 "[]" for d] n2 by auto
  have e: "?run (?at n2 (leave_calls w), t) (?at n2 (Command (deregisterWorker w) # last_calls), t)"
    using last_script_goes [of again ?h t SettleLanes n2 n2 "[]"] n2 by (simp add: leave_calls_def)
  obtain u where f: "?run (?at n2 (Command (deregisterWorker w) # last_calls), t) (?at n2 (Command (Ret ()) # last_calls), u)"
    using last_script_dereg [OF assms(1) n2(1,4)] by blast
  have "goes_all again ?h (clock u) (Command (Ret ()) # last_calls) n2 =
      Some (n2\<lparr>nd_poolEnded := True, nd_redisGone := True, nd_exit := Some 0\<rparr>)"
    using n2 by (simp add: last_calls_def)
  from goes_all_run [OF this, of "length ?S" "?S @ [(Command (Ret ()) # last_calls, None)]" "[]" None svc world]
  obtain m where g: "?run (?at n2 (Command (Ret ()) # last_calls), u) (m, u)" "nd_exit m = Some 0"
    by simp
  show ?thesis
    using a b c d e f g unfolding \<open>F = {}\<close> n2_def [symmetric] by (meson rtranclp_trans)
qed

lemma signals_stay: "node_run svc world again h a b \<Longrightarrow> nd_signals (fst a) \<Longrightarrow> nd_signals (fst b)"
proof (induction rule: rtranclp_induct)
  case (step b c)
  have "nd_signals n \<Longrightarrow> host_does again h now c n = Goes n' pre \<Longrightarrow> nd_signals n'" for now c n n' pre
    by (cases c) (auto split: if_splits prog.splits)
  note mono = this
  have "nd_signals (fst b)" using step(3) [OF step(4)] .
  with step(2) show ?case
    by (induction rule: node_step.induct) (auto simp: rejected_def dest: mono split: option.split)
qed simp

section \<open>Properties\<close>

text \<open>
  An interval that was cleared never fires again: once \<open>shutdown\<close> has cleared the intervals
  no new tick starts, whatever else happens.
\<close>

theorem no_tick_after_stop:
  assumes "node_run svc world again h (n, s) (m, t)" and "nd_timers n = {}"
    and "\<forall>sc \<in> set (nd_scripts n). no_timers sc" and "no_timers (h_shutdown h)"
  shows "nd_timers m = {} \<and> length (nd_flights m) = length (nd_flights n)"
  using silent_run [OF assms(1) _ assms(4)] assms(2,3) by (simp add: silent_def)

text \<open>
  The start of a worker: it is in the set the reaper reads before its lanes begin.
\<close>

theorem worker_boots:
  assumes "services svc out"
  shows "\<exists>t. node_run svc world again (worker_process w cfg) (loaded (worker_process w cfg), s) (worker_running w cfg, t) \<and>
    w \<in> set (sets t WORKERS_SET_KEY) \<and> lists t = lists s \<and> jobs t = jobs s"
proof -
  let ?h = "worker_process w cfg" and ?x = "Some [Exit 1]"
  let ?n = "loaded ?h" and ?c = "Redis (SADD WORKERS_SET_KEY w)"
  let ?cs = "[StartLanes, OnSignals, SettleLanes]"
  obtain v t where r: "svc ?c s = (Inr v, t)" "w \<in> set (sets t WORKERS_SET_KEY)" "lists t = lists s" "jobs t = jobs s"
    using services.laws [OF assms(1)] by simp
  have main: "nd_scripts ?n = [(Command (Await ?c (\<lambda>r. case r of Inl e \<Rightarrow> Throw e | Inr v \<Rightarrow> Ret ())) # ?cs, ?x)]"
    by (simp add: loaded_def worker_process_def worker_main_def registerWorker_def call_def)
  have "answers svc ?n ?c s (Inr v) t" using r(1) by (intro answers.reply) (simp_all add: loaded_def)
  then have "node_step svc world again ?h (?n, s)
      (?n\<lparr>nd_scripts := (nd_scripts ?n)[0 := (Command ((\<lambda>r. case r of Inl e \<Rightarrow> Throw e | Inr v \<Rightarrow> Ret ()) (Inr v)) # ?cs, ?x)]\<rparr>, t)"
    by (intro node_step.script_awaits) (simp_all add: main, simp_all add: loaded_def)
  then have a: "node_run svc world again ?h (?n, s) (?n\<lparr>nd_scripts := [(Command (Ret ()) # ?cs, ?x)]\<rparr>, t)"
    by (auto simp: main)
  have "goes_all again ?h (clock t) [Command (Ret ()), StartLanes, OnSignals] ?n =
      Some (?n\<lparr>nd_lanes := replicate (concurrency cfg) AtTest, nd_signals := True\<rparr>)"
    by (simp add: loaded_def worker_process_def)
  from goes_all_run [OF this, of 0 "[(Command (Ret ()) # ?cs, ?x)]" "[SettleLanes]" ?x svc world]
  have "node_run svc world again ?h (?n\<lparr>nd_scripts := [(Command (Ret ()) # ?cs, ?x)]\<rparr>, t) (worker_running w cfg, t)"
    by (simp add: worker_running_def)
  then show ?thesis using a r(2-4) by (meson rtranclp_trans)
qed

text \<open>
  C28: A worker that exits with code 0 has let every job it claimed come to an end:
  in every run of a started worker, under any interleaving of its lanes with its shutdown
  scripts (one per signal), with failing commands and with any other process at work (which
  does not register it again), the exit with code 0 finds every lane finished, no job in
  flight and the worker out of the set the reaper reads. The grace period of \<open>drain\<close> plays no
  part in this: \<open>shutdown\<close> awaits all lanes after it.
\<close>

theorem worker_exits_clean:
  assumes "services svc out" and "node_run svc world again (worker_process w cfg) (worker_running w cfg, s) (n, t)"
    and "\<And>s s'. world s s' \<Longrightarrow> w \<notin> set (sets s WORKERS_SET_KEY) \<Longrightarrow> w \<notin> set (sets s' WORKERS_SET_KEY)"
    and "nd_exit n = Some 0"
  shows "set (nd_lanes n) \<subseteq> {Finished} \<and> nd_inFlight n = {} \<and> w \<notin> set (sets t WORKERS_SET_KEY)"
proof -
  have "worker_inv w (n, t)"
    using services.worker_inv_run [OF assms(1,2) worker_running_inv] assms(3) by blast
  then show ?thesis using assms(4) by (fastforce simp: worker_inv_def all_finished_def busy_def)
qed

theorem worker_exits_clean_witness:
  "\<exists>n t. node_run mem_svc (=) False (worker_process ''w1'' demo_worker)
       (worker_running ''w1'' demo_worker, demo_orphans) (n, t) \<and>
     nd_exit n = Some 0 \<and> set (nd_lanes n) \<subseteq> {Finished} \<and> ''w1'' \<notin> set (sets t WORKERS_SET_KEY)"
proof -
  have "nd_inFlight m \<subseteq> busy m"
    if "node_run mem_svc (=) False (worker_process ''w1'' demo_worker) (worker_running ''w1'' demo_worker, demo_orphans) (m, u)"
    for m u
    using mem.worker_inv_run [OF that worker_running_inv] by (simp add: worker_inv_def)
  then obtain n t where r: "node_run mem_svc (=) False (worker_process ''w1'' demo_worker)
      (worker_running ''w1'' demo_worker, demo_orphans) (n, t)" "nd_exit n = Some 0"
    using worker_stops_from [OF mem.services_axioms, where n = "worker_running ''w1'' demo_worker" and w = "''w1''"
        and cfg = demo_worker and world = "(=)" and again = False and s = demo_orphans]
    by (auto simp: worker_running_def loaded_def)
  then show ?thesis using worker_exits_clean [OF mem.services_axioms r(1) _ r(2)] by blast
qed



definition demo_left :: store where
  "demo_left = demo_orphans\<lparr>sets := (\<lambda>_. [])(WORKERS_SET_KEY := [''w1'']),
     lists := (\<lambda>_. [])(processingKey ''w1'' := [''a'', ''b''])\<rparr>"



text \<open>
  A second signal makes the shutdown of the reaper and of the scheduler end with code 1, for
  a driver that refuses to end a pool twice: the second call of \<open>shutdown\<close> rejects, and nobody
  catches it.
\<close>

theorem second_signal_exits_1:
  assumes "h_main h = start_script" and "h_shutdown h = stop_script"
  shows "\<exists>n. node_run svc world False h (loaded h, s) (n, s) \<and> nd_exit n = Some 1"
proof -
  let ?run = "node_run svc world False h"
  let ?n1 = "\<lambda>S. (loaded h)\<lparr>nd_signals := True, nd_timers := {Poll}, nd_scripts := S\<rparr>"
  let ?n2 = "(loaded h)\<lparr>nd_signals := True, nd_timers := {}, nd_poolEnded := True\<rparr>"
  have "goes_all False h (clock s) [OnSignals, SetTimer Poll] (loaded h) =
      Some ((loaded h)\<lparr>nd_signals := True, nd_timers := {Poll}\<rparr>)"
    by (simp add: loaded_def)
  from goes_all_run [OF this, of 0 "[h_main h]" "[]" None svc world]
  have a: "?run (loaded h, s) (?n1 [([], None)], s)" by (simp add: loaded_def assms(1) start_script_def)
  have sig: "?run (?n1 S, s) (?n1 (S @ [stop_script]), s)" for S
    using node_step.signal [of "?n1 S" svc world False h s] by (auto simp: loaded_def assms(2))
  have "goes_all False h (clock s) [ClearTimer Poll, EndPool] (?n1 []) = Some (?n2\<lparr>nd_scripts := []\<rparr>)"
    by (simp add: loaded_def)
  from goes_all_run [OF this, of 1 "[([], None), stop_script, stop_script]" "[Disconnect, Exit 0]" None svc world]
  have b: "?run (?n1 [([], None), stop_script, stop_script], s)
      (?n2\<lparr>nd_scripts := [([], None), ([Disconnect, Exit 0], None), stop_script]\<rparr>, s)"
    by (simp add: stop_script_def loaded_def)
  let ?S = "[([], None), ([Disconnect, Exit 0], None), stop_script]"
  have "goes_all False h (clock s) [ClearTimer Poll] (?n2\<lparr>nd_scripts := []\<rparr>) = Some (?n2\<lparr>nd_scripts := []\<rparr>)"
    by (simp add: loaded_def)
  from goes_all_run [OF this, of 2 ?S "[EndPool, Disconnect, Exit 0]" None svc world]
  have c: "?run (?n2\<lparr>nd_scripts := ?S\<rparr>, s) (?n2\<lparr>nd_scripts := ?S[2 := ([EndPool, Disconnect, Exit 0], None)]\<rparr>, s)"
    by (simp add: stop_script_def loaded_def)
  let ?n3 = "?n2\<lparr>nd_scripts := ?S[2 := ([EndPool, Disconnect, Exit 0], None)]\<rparr>"
  have "node_step svc world False h (?n3, s) (rejected 2 None ?n3, s)"
    by (rule node_step.script_fails [where c = EndPool]) (simp_all add: loaded_def)
  then have d: "?run (?n3, s) (rejected 2 None ?n3, s)" by blast
  have e: "nd_exit (rejected 2 None ?n3) = Some 1" by (simp add: rejected_def)
  have "?run (?n1 [([], None)], s) (?n1 [([], None), stop_script, stop_script], s)"
    using sig [of "[([], None)]"] sig [of "[([], None), stop_script]"] by simp
  then show ?thesis using a b c d e by (meson rtranclp_trans)
qed

end
