(* ===== verification/Spec2Isabelle.thy ===== *)
theory Spec2Isabelle
  imports Placement Interleaving Gateway Reconnect Browsing Shutdown
begin

text \<open>
  The distributed job queue: verification development.

  The program. API servers (\<open>packages/server\<close>) accept jobs over HTTP and store them in the
  Postgres table \<open>jobs\<close>; Redis holds what the processes hand each other: one list per
  priority, the sorted set of delayed jobs, a processing list per worker, a hash of job data,
  a hash of heartbeats, reservations of idempotency keys, locks, rate-limit buckets and a
  channel of events. Workers (\<open>packages/worker\<close>) move a job from the list of the highest
  priority to their processing list, run its handler and settle it as completed, delayed with
  a backoff, or dead. A promoter in each server moves due jobs back to their lists, a reaper
  (\<open>packages/reaper\<close>) takes jobs of dead workers, a scheduler (\<open>packages/scheduler\<close>) submits
  recurring ones, and the dashboard (\<open>packages/dashboard\<close>) talks to the API and listens on a
  WebSocket.

  How it is modelled. An \<open>async\<close> function is a program (\<open>Prog\<close>): the command it awaits next
  and, for every reply, the program that goes on; \<open>catch_err\<close> is \<open>try/catch\<close>, \<open>and_then\<close> a call
  of another such function. Redis, Postgres, the clock, UUIDs, random numbers and timers are
  not code of the repository: they are the argument \<open>svc\<close>, with one documented law per command
  in the locales of \<open>Services\<close>, and \<open>mem_svc\<close> is an in-memory service that satisfies all of
  them. The same text of a program is read in three ways: run to its end (\<open>run\<close>), interrupted
  anywhere by a crash, a lost connection or other processes (\<open>reaches\<close>, \<open>safe\<close>), and as one of
  any number of processes interleaved command by command (\<open>sys_step\<close>, \<open>sys_reach\<close>).

  The theories and the code.
  \<^item> \<open>Prelude\<close>: shared facts on lists, options and decimal text, JSON values and errors.
  \<^item> \<open>Store\<close>: the tables of \<open>packages/db/schema.sql\<close>, the data types of Redis, sorted sets.
  \<^item> \<open>Prog\<close>: commands, programs, the three readings and the rely-guarantee locale.
  \<^item> \<open>Services\<close>: the laws of Redis, Postgres and the runtime, and \<open>mem_svc\<close>.
  \<^item> \<open>Shared\<close>: \<open>packages/shared/src\<close> (key names, priorities, backoff).
  \<^item> \<open>Queue\<close>: \<open>server/src/lib/queue.js\<close>, one program per exported function.
  \<^item> \<open>Access\<close>: \<open>server/src/middleware\<close> and the key list of \<open>config.js\<close>.
  \<^item> \<open>Routes\<close>: \<open>server/src/routes\<close> and \<open>app.js\<close> (schemas, handlers, hooks, error handler).
  \<^item> \<open>Gateway\<close>: \<open>server/src/ws/gateway.js\<close> and \<open>dashboard/src/ws.js\<close>.
  \<^item> \<open>Reconnect\<close>: the socket of \<open>ws.js\<close>, its timer and its cleanup.
  \<^item> \<open>Dashboard\<close>: \<open>dashboard/src/api.js\<close> and what the pages decide.
  \<^item> \<open>Markup\<close>: what every component of \<open>App.jsx\<close> and \<open>components/\<close> renders, as trees of elements
    whose handlers are inputs, and which inputs a view offers.
  \<^item> \<open>Pages\<close>, \<open>Browsing\<close>: the application with its tabs, pages, drawer and requests in flight, as
    steps on inputs, answers and frames; what holds of every use of it.
  \<^item> \<open>Claim\<close>, \<open>Process\<close>, \<open>Worker\<close>: \<open>worker/src/claim.js\<close>, \<open>process.js\<close> with \<open>handlers/\<close>, and
    \<open>index.js\<close> with \<open>shutdown.js\<close>.
  \<^item> \<open>Reaper\<close>: \<open>reaper/src/index.js\<close>.
  \<^item> \<open>Scheduler\<close>: \<open>scheduler/src/index.js\<close>.
  \<^item> \<open>Invariant\<close>, \<open>System\<close>: the invariant of the shared state, the commands that keep it, and
    the deployment of all the processes.
  \<^item> \<open>Placement\<close>: whole operations one after the other, the place of a job in Redis by its status
    and the life cycle the operations refine.
  \<^item> \<open>Interleaving\<close>: lanes of many workers at the same lists, concurrent retries, servers that
    stop in the middle of a submission or promotion.
  \<^item> \<open>Lifecycle\<close>, \<open>Shutdown\<close>: the four \<open>index.js\<close> as processes: \<open>main\<close>, intervals, lanes under one
    draining flag, signals, \<open>shutdown\<close>, exit codes.

  What the lemmas show. The \<open>run_*\<close> lemmas give result and final store of every operation on
  every branch; \<open>claim_refines_queue\<close> relates claiming to an abstract priority queue; the
  \<open>safe\<close> lemmas of \<open>Process\<close> follow a worker through every interruption; \<open>Invariant\<close> and
  \<open>System\<close> show with rely-guarantee that Redis refers only to stored jobs and agrees with them
  in every reachable state of the deployment; this theory composes the components end to end;
  the properties (numbered \<open>C1\<close>, \<open>C2\<close>, ...) state
  what each component promises, including the failures the code allows: a reaper that
  stops between two commands loses a job, so do a server that stops within a submission and a
  promoter within a move, a row outliving its reservation makes a key unusable, the dashboard's
  retry is refused and its drawer can act on a job it does not show. A theorem named \<open>*_witness\<close> applies the property
  at a concrete state.

  Bounds and fuel. \<open>drain_loop\<close> takes fuel; \<open>drain_returns\<close> shows that the grace period divided
  by 200 ms, plus one, suffices. A lane is followed through a list of answers of
  \<open>isDraining\<close>. Every other recursion is structural. Numbers of JavaScript are exact integers
  and rationals; the integer ranges of Postgres and the largest date are checked where the
  database or the runtime does.

  Not modelled: connection pools and their retries, log lines, the text of JSON documents and dates, Fastify's routing,
  coercion and body parsing (a parameter in \<open>Dashboard\<close>), \<open>cron-parser\<close> (a parameter in
  \<open>Scheduler\<close>), the browser's formatting of dates and JSON (parameters in \<open>Markup\<close>), the double
  rendering of React's development mode, the build configuration, \<open>db/migrate.js\<close>, and rounding of floating-point
  numbers. The queries \<open>getQueueStats\<close> sends in parallel run one after the other.
\<close>

section \<open>A submitted job, end to end\<close>

text \<open>What a job of type \<open>noop\<close> is to a lane right after its submission.\<close>

context services begin

lemma created_waits:
  assumes "run svc (post_jobs cfg rq) s = (Inr (send 201 (BSubmitted i Queued p created deduped)), s1)"
    and "rq_type rq = ''noop''" and "claim_order s = []"
  shows "noop_ready s1 \<and> first_ready s1 = Some p \<and> lists s1 (queue_of p) = [i] \<and>
    published s1 = published s @ [(EVENTS_CHANNEL, \<lparr>e_jobId = i, e_status = Queued,
      e_message = ''Job created'', e_ts = clock s\<rparr>)] \<and> status_of i s1 = Some Queued"
proof -
  obtain row where en: "run svc (enqueueJob cfg rq) s = (Inr \<lparr>res_job = row, res_deduped = False\<rparr>, s1)"
    and i: "i = job_id row" and st: "Queued = status row" and p: "p = priority row"
    using post_jobs_created [OF assms(1)] by blast
  note r = enqueue_fresh_result [OF en]
  note s1 = r(3) [unfolded run_enqueue_new [OF r(1,2) refl], THEN conjunct2 [OF prod.inject [THEN iffD1]], symmetric]
  have q: "scheduled_for row = None" using st r(1) new_job_row_simps(5) by metis
  have lists: "lists s1 = (lists s)(queue_of p := i # lists s (queue_of p))"
    using q by (simp add: s1 i p)
  have empty: "lists s (queue_of q) = []" if "q \<in> set PRIORITIES" for q
    using assms(3) that by (auto simp: claim_order_eq PRIORITIES_def)
  have prio: "p \<in> set PRIORITIES" using row_priority_known [OF r(2)] p by simp
  have new: "i \<notin> job_id ` set (jobs s)" using r(2) i by (auto simp: insert_job_error_def split: if_splits)
  have row: "get_row i (jobs s1) = Some row" using new i get_row_None [of i "jobs s"] by (auto simp: s1)
  have id: "i = gen_uuid out s" using r(1) i by simp
  have order: "claim_order s1 = [i]"
    using prio empty by (auto simp: claim_order_eq lists PRIORITIES_def)
  have "first_ready s1 = Some p" using prio empty by (auto simp: first_ready_def lists PRIORITIES_def)
  moreover have "noop_ready s1"
    using order prio empty row uuid_nonempty [of s] r(1) assms(2) id
    by (auto simp: noop_ready_def ids_nonempty_def lists status_of_def data_of_def s1 toEnvelope_def
        new_job_row_def Let_def)
  ultimately show ?thesis using lists empty [OF prio] row st by (simp add: status_of_def s1 i)
qed

text \<open>One turn of a lane on it.\<close>

lemma created_runs:
  assumes "run svc (post_jobs cfg rq) s = (Inr (send 201 (BSubmitted i Queued p created deduped)), s1)"
    and "rq_type rq = ''noop''" and "claim_order s = []"
  shows "run svc (runLane w wcfg [False, True]) s1 = (Inr (), noop_done w p i s1) \<and>
    (\<exists>row. get_row i (jobs (noop_done w p i s1)) = Some row \<and> job_id row = i \<and> status row = Completed) \<and>
    map (\<lambda>m. (fst m, e_jobId (snd m), e_status (snd m))) (published (noop_done w p i s1)) =
      map (\<lambda>m. (fst m, e_jobId (snd m), e_status (snd m))) (published s) @
      map (\<lambda>st. (EVENTS_CHANNEL, i, st)) [Queued, Active, Completed]"
proof -
  note w = created_waits [OF assms]
  have run: "run svc (lane_turn w wcfg) s1 = (Inr (), noop_done w p i s1)"
    by (rule run_noop_turn) (use w in simp_all)
  have "status_of i (noop_done w p i s1) = Some Completed"
    by (rule noop_done_status) (use w in simp)
  then have "\<exists>row. get_row i (jobs (noop_done w p i s1)) = Some row \<and> job_id row = i \<and> status row = Completed"
    using get_row_Some by (fastforce simp: status_of_def)
  moreover have "published (claim_store w p s1) = published s1"
    by (simp add: claim_store_def Let_def)
  ultimately show ?thesis using run w by (simp add: prog_run noop_done_def settle_defs)
qed

end


lemma messages_received: "messages (map (\<lambda>m. Received (fst m) (snd m)) ms) = ms"
  by (induction ms) auto


section \<open>A failed job, from one worker to the next\<close>

text \<open>A delayed job alone, promoted and claimed.\<close>

context services begin

lemma back_in_line:
  assumes "zsets u DELAYED_KEY = [ZEntry due i]" and "data_of u i = Some e" and "env_priority e \<in> set PRIORITIES"
    and "i \<in> job_id ` set (jobs u)" and "claim_order u = []" and "0 \<le> due" and "0 < limit" and "i \<noteq> ''''"
  shows "clock u < due \<Longrightarrow> run svc (promoteDueDelayedJobs limit) u = (Inr 0, u)"
    and "due \<le> clock u \<Longrightarrow> \<exists>v x. run svc (promoteDueDelayedJobs limit) u = (Inr 1, v) \<and>
      status_of i v = Some Queued \<and> zsets v DELAYED_KEY = [] \<and>
      run svc (claimNextJob w b) v = (Inr (Some \<lparr>cl_id = i, cl_priority = env_priority e, cl_envelope = Some e\<rparr>), x)"
proof -
  let ?p = "env_priority e"
  show "run svc (promoteDueDelayedJobs limit) u = (Inr 0, u)" if "clock u < due"
    using that by (simp add: run_promoteDue assms(1) zrange_def)
  assume "due \<le> clock u"
  then have due: "zrange 0 (clock u) 0 limit (zsets u DELAYED_KEY) = [i]"
    using assms(6,7) by (simp add: assms(1) zrange_def)
  have ok: "\<forall>j \<in> set [i]. promotable u j"
    using assms(2-4) by (simp add: promotable_def assms(1) zmembers_def)
  have p: "data_priority u i = ?p" by (simp add: data_priority_def assms(2))
  obtain v where v: "run svc (promote_each [i] 0) u = (Inr 1, v)"
    and lists: "\<forall>p. lists v (queue_of p) = rev (filter (\<lambda>i. data_priority u i = p) [i]) @ lists u (queue_of p)"
    and z: "zsets v DELAYED_KEY = filter (\<lambda>e. zmember e \<notin> set [i]) (zsets u DELAYED_KEY)"
    and h: "hashes v = hashes u"
    and rows: "\<forall>j. get_row j (jobs v) = (if j \<in> set [i] then map_option (promoted_row (clock u)) (get_row j (jobs u))
        else get_row j (jobs u))"
    using run_promote_each [OF _ ok, of 0] by auto
  have empty: "lists u (queue_of q) = []" if "q \<in> set PRIORITIES" for q
    using assms(5) that by (auto simp: claim_order_eq PRIORITIES_def)
  have q: "lists v (queue_of q) = (if q = ?p then [i] else [])" if "q \<in> set PRIORITIES" for q
    using lists empty [OF that] by (simp add: p)
  have "find (\<lambda>x. x = ?p) ps = Some ?p" if "?p \<in> set ps" for ps using that by (induction ps) auto
  moreover have "first_ready v = find (\<lambda>x. x = ?p) PRIORITIES"
    unfolding first_ready_def by (rule find_cong [OF refl]) (simp add: q)
  ultimately have fr: "first_ready v = Some ?p" using assms(3) by simp
  have l: "lists v (queue_of ?p) = [i]" using q [OF assms(3)] by simp
  have dv: "data_of v i = Some e" using assms(2) unfolding data_of_def h .
  have "ids_nonempty v" using q assms(8) by (simp add: ids_nonempty_def)
  then have claim: "run svc (claimNextJob w b) v =
      (Inr (Some \<lparr>cl_id = i, cl_priority = ?p, cl_envelope = Some e\<rparr>), claim_store w ?p v)"
    by (simp only: run_claimNextJob fr option.case l last.simps simp_thms if_True dv)
  have "status_of i v = Some Queued"
    using rows assms(4) by (auto simp: status_of_def ids_get_row promoted_row_def)
  then show "\<exists>v x. run svc (promoteDueDelayedJobs limit) u = (Inr 1, v) \<and>
      status_of i v = Some Queued \<and> zsets v DELAYED_KEY = [] \<and>
      run svc (claimNextJob w b) v = (Inr (Some \<lparr>cl_id = i, cl_priority = ?p, cl_envelope = Some e\<rparr>), x)"
    using v [folded due, folded run_promoteDue] claim z
    by (intro exI conjI) (assumption, assumption, simp add: assms(1), assumption)
qed

end

text \<open>
  C2: A failed job comes back. When the handler of a claimed job with retries left throws or
  times out (nothing else waiting or delayed), the worker delays it by a backoff between zero
  and the capped exponential ceiling; no promoter touches it before that time has passed; the
  first promotion from then on queues it again, and the next claim of any worker gets it with
  the same type, payload and priority and one more attempt.
\<close>

theorem failed_job_comes_back:
  assumes "services svc out" and "get_row i (jobs s) = Some r" and "i = cl_id c" and "i \<noteq> ''''"
    and "cl_envelope c = Some e" and "env_priority e \<in> set PRIORITIES"
    and "executes svc cfg c (begun w i s) = (Inl err, t)"
    and "env_attempt e + 1 \<le> env_maxRetries e" and "0 \<le> env_attempt e"
    and "env_attempt e + 1 < 2 ^ 31" and "0 \<le> backoffBaseMs cfg" and "0 \<le> backoffMaxMs cfg"
    and "claim_order s = []" and "zsets s DELAYED_KEY = []" and "0 \<le> clock s" and "0 < limit"
  shows "\<exists>d s'. run svc (processJob w c cfg) s = (Inr (OutRetryScheduled d), s') \<and>
    0 \<le> d \<and> d \<le> min (backoffBaseMs cfg * 2 ^ nat (env_attempt e)) (backoffMaxMs cfg) \<and>
    status_of i s' = Some Delayed \<and> \<not> holding w i s' \<and>
    (\<forall>n < clock t + d. run svc (promoteDueDelayedJobs limit) (s'\<lparr>clock := n\<rparr>) = (Inr 0, s'\<lparr>clock := n\<rparr>)) \<and>
    (\<forall>n \<ge> clock t + d. \<exists>u v. run svc (promoteDueDelayedJobs limit) (s'\<lparr>clock := n\<rparr>) = (Inr 1, u) \<and>
       status_of i u = Some Queued \<and> zsets u DELAYED_KEY = [] \<and>
       run svc (claimNextJob w' b) u = (Inr (Some \<lparr>cl_id = i, cl_priority = env_priority e,
          cl_envelope = Some (e\<lparr>env_attempt := env_attempt e + 1\<rparr>)\<rparr>), v))"
proof -
  let ?e = "e\<lparr>env_attempt := env_attempt e + 1\<rparr>"
  have t: "0 \<le> clock t"
    using services.executes_frame [OF assms(1), of cfg c "begun w i s"] assms(7,15) by (auto simp: begun_def)
  obtain d s' where run: "run svc (processJob w c cfg) s = (Inr (OutRetryScheduled d), s')"
    and d: "0 \<le> d" "d \<le> min (backoffBaseMs cfg * 2 ^ nat (env_attempt e)) (backoffMaxMs cfg)"
    and row: "get_row i (jobs s') = Some (r\<lparr>status := Delayed, worker_id := Some w,
      attempt := env_attempt e + 1, error := Some (message_of err),
      scheduled_for := Some (clock t + d), updated_at := clock t\<rparr>)"
    and data: "data_of s' i = Some ?e"
    and z: "zsets s' = (zsets s)(DELAYED_KEY := zadd (clock t + d) i (zsets s DELAYED_KEY))"
    and rest: "only_job w i s s'"
    using settle_retry [OF assms(1-3,5,7-12)] by blast
  have order: "claim_order s' = []" using rest assms(13) by (simp add: only_job_def claim_order_eq)
  have held: "\<not> holding w i s'" using rest by (simp add: only_job_def holding_def)
  have pre: "zsets (s'\<lparr>clock := n\<rparr>) DELAYED_KEY = [ZEntry (clock t + d) i]" "data_of (s'\<lparr>clock := n\<rparr>) i = Some ?e"
    "env_priority ?e \<in> set PRIORITIES" "i \<in> job_id ` set (jobs (s'\<lparr>clock := n\<rparr>))"
    "claim_order (s'\<lparr>clock := n\<rparr>) = []" "0 \<le> clock t + d" "0 < limit" "i \<noteq> ''''" for n
    using data z assms(4,6,14,16) order get_row_in_ids [OF row] t d
    by (simp_all add: data_of_def zadd_def claim_order_eq)
  have early: "run svc (promoteDueDelayedJobs limit) (s'\<lparr>clock := n\<rparr>) = (Inr 0, s'\<lparr>clock := n\<rparr>)"
    if "n < clock t + d" for n
    using services.back_in_line(1) [OF assms(1) pre, of n] that by simp
  have late: "\<exists>u v. run svc (promoteDueDelayedJobs limit) (s'\<lparr>clock := n\<rparr>) = (Inr 1, u) \<and>
       status_of i u = Some Queued \<and> zsets u DELAYED_KEY = [] \<and>
       run svc (claimNextJob w' b) u = (Inr (Some \<lparr>cl_id = i, cl_priority = env_priority e, cl_envelope = Some ?e\<rparr>), v)"
    if "clock t + d \<le> n" for n
    using services.back_in_line(2) [OF assms(1) pre, of n] that by simp
  have "status_of i s' = Some Delayed" by (simp add: status_of_def row)
  then show ?thesis using run d held early late by blast
qed

theorem failed_job_comes_back_witness:
  "\<exists>d s' u v c. run mem_svc (processJob ''w1'' (unknown_job 0) demo_worker) (demo_running [''a'']) =
       (Inr (OutRetryScheduled d), s') \<and> d \<le> 1000 \<and>
     run mem_svc (promoteDueDelayedJobs 100) (s'\<lparr>clock := 2000\<rparr>) = (Inr 1, u) \<and>
     run mem_svc (claimNextJob ''w2'' 1) u = (Inr (Some c), v) \<and> cl_id c = ''a'' \<and>
     map_option env_attempt (cl_envelope c) = Some 1"
proof -
  let ?e = "(demo_envelope ''a'' 0)\<lparr>env_type := ''nope''\<rparr>" and ?s = "demo_running [''a'']"
  let ?t = "begun ''w1'' ''a'' ?s"
  have pre: "env_priority ?e \<in> set PRIORITIES" "env_attempt ?e + 1 \<le> env_maxRetries ?e" "0 \<le> env_attempt ?e"
    "env_attempt ?e + 1 < 2 ^ 31" "0 \<le> backoffBaseMs demo_worker" "0 \<le> backoffMaxMs demo_worker"
    "claim_order ?s = []" "zsets ?s DELAYED_KEY = []" "0 \<le> clock ?s" "(0 :: nat) < 100"
    and t: "clock ?t = 7" and lim: "min (backoffBaseMs demo_worker * 2 ^ nat (env_attempt ?e)) (backoffMaxMs demo_worker) = 1000"
    and ne: "''a'' \<noteq> ''''" and att: "env_attempt ?e = 0"
    by (simp_all add: demo_process_defs PRIORITIES_def claim_order_eq begun_def)
  obtain d s' where a: "run mem_svc (processJob ''w1'' (unknown_job 0) demo_worker) ?s = (Inr (OutRetryScheduled d), s')"
    "d \<le> 1000" and late: "\<forall>n \<ge> 7 + d. \<exists>u v. run mem_svc (promoteDueDelayedJobs 100) (s'\<lparr>clock := n\<rparr>) = (Inr 1, u) \<and>
       status_of ''a'' u = Some Queued \<and> zsets u DELAYED_KEY = [] \<and>
       run mem_svc (claimNextJob ''w2'' 1) u = (Inr (Some \<lparr>cl_id = ''a'', cl_priority = env_priority ?e,
          cl_envelope = Some (?e\<lparr>env_attempt := env_attempt ?e + 1\<rparr>)\<rparr>), v)"
    using failed_job_comes_back [OF mem.services_axioms demo_running_row unknown_job_simps(1) [symmetric] ne
        unknown_job_simps(2) pre(1) unknown_job_fails pre(2-10), where w = "''w1''" and w' = "''w2''" and b = 1,
        unfolded t lim] by blast
  have "7 + d \<le> 2000" using a(2) by simp
  then obtain u v where "run mem_svc (promoteDueDelayedJobs 100) (s'\<lparr>clock := 2000\<rparr>) = (Inr 1, u)"
    and "run mem_svc (claimNextJob ''w2'' 1) u = (Inr (Some \<lparr>cl_id = ''a'', cl_priority = env_priority ?e,
          cl_envelope = Some (?e\<lparr>env_attempt := env_attempt ?e + 1\<rparr>)\<rparr>), v)"
    using late by blast
  then show ?thesis using a att by (intro exI conjI) (assumption | simp)+
qed

end
